(* ===== verification/Prelude.thy ===== *)
theory Prelude
  imports Complex_Main "HOL-Library.Word" "HOL-Library.AList" "HOL-Library.Multiset" "HOL-Library.Sublist"
begin

text \<open>
  The shared vocabulary of the development: Go's fixed-width \<open>int\<close> and
  \<open>time.Duration\<close>, time stamps, Go maps with their unspecified iteration order,
  and the interfaces (locales) that several components rely on.

  \<^item> A Go \<open>int\<close>, \<open>int64\<close> or \<open>time.Duration\<close> is an \<open>int\<close> kept in the 64-bit
    two's complement range by \<open>wrap64\<close>, which every arithmetic operation of the model
    that can leave the range applies. A \<open>uint64\<close> is a \<open>64 word\<close>.
  \<^item> A \<open>time.Time\<close> is the number of nanoseconds since an arbitrary origin, as
    \<open>time.Now\<close> reads it from the monotonic clock.
  \<^item> A Go map is an association list with distinct keys. A \<open>range\<close> loop visits the
    entries in an order the language leaves open: where the order can matter, the
    model takes it as an argument, a function that permutes the entries.
  \<^item> A Go \<open>string\<close> or \<open>[]byte\<close> is a \<open>string\<close> of HOL: \<open>char\<close> has 256 values, so it
    is a byte.
\<close>

named_theorems bounds_intro \<open>introduction rules that bound a floating-point value\<close>
named_theorems inv_simps \<open>unfoldings of component invariants\<close>

subsection \<open>Go integers, durations and instants\<close>

type_synonym goint = int
type_synonym duration = int
type_synonym instant = int

definition wrap64 :: "int \<Rightarrow> int" where
  "wrap64 n = (n + 2 ^ 63) mod 2 ^ 64 - 2 ^ 63"

definition in_int64 :: "int \<Rightarrow> bool" where
  "in_int64 n \<longleftrightarrow> - (2 ^ 63) \<le> n \<and> n < 2 ^ 63"

definition second :: duration where "second = 1000000000"

lemma in_int64_wrap64 [simp, intro]: "in_int64 (wrap64 n)"
proof -
  have "0 \<le> (n + 2 ^ 63) mod (2 ^ 64 :: int)" and "(n + 2 ^ 63) mod (2 ^ 64 :: int) < 2 ^ 64"
    by (rule pos_mod_sign, simp, rule pos_mod_bound, simp)
  then show ?thesis by (simp add: in_int64_def wrap64_def)
qed

lemma wrap64_id: "in_int64 n \<Longrightarrow> wrap64 n = n"
  by (simp add: in_int64_def wrap64_def)

lemma wrap64_small: "\<bar>n\<bar> < 2 ^ 63 \<Longrightarrow> wrap64 n = n"
  by (rule wrap64_id) (simp add: in_int64_def abs_less_iff)

text \<open>\<open>t.Sub(u)\<close> and \<open>time.Since(u)\<close> saturate at the ends of the \<open>Duration\<close> range.\<close>

definition time_sub :: "instant \<Rightarrow> instant \<Rightarrow> duration" where
  "time_sub t u = max (- (2 ^ 63)) (min (2 ^ 63 - 1) (t - u))"

lemma time_sub_exact: "in_int64 (t - u) \<Longrightarrow> time_sub t u = t - u"
  by (simp add: time_sub_def in_int64_def)

lemma in_int64_time_sub: "in_int64 (time_sub t u)"
  by (simp add: time_sub_def in_int64_def)

subsection \<open>Results of fallible calls\<close>

type_synonym 'a result = "string + 'a"

subsection \<open>Go maps\<close>

type_synonym ('k, 'v) gomap = "('k \<times> 'v) list"
type_synonym 'a range_order = "'a list \<Rightarrow> 'a list"

abbreviation map_keys :: "('k, 'v) gomap \<Rightarrow> 'k list" where
  "map_keys m \<equiv> map fst m"

abbreviation map_ok :: "('k, 'v) gomap \<Rightarrow> bool" where
  "map_ok m \<equiv> distinct (map_keys m)"

definition is_range_order :: "'a range_order \<Rightarrow> bool" where
  "is_range_order ord \<longleftrightarrow> (\<forall>es. mset (ord es) = mset es)"

lemma is_range_orderD:
  assumes "is_range_order ord"
  shows range_order_mset: "mset (ord es) = mset es"
    and range_order_set: "set (ord es) = set es"
    and range_order_length: "length (ord es) = length es"
proof -
  show m: "mset (ord es) = mset es"
    using assms by (simp add: is_range_order_def)
  show "set (ord es) = set es" using m by (rule mset_eq_setD)
  show "length (ord es) = length es" using m by (rule mset_eq_length)
qed

lemma is_range_order_id [simp]: "is_range_order (\<lambda>es. es)"
  by (simp add: is_range_order_def)

lemma is_range_order_rev [simp]: "is_range_order rev"
  by (simp add: is_range_order_def)

lemma range_order_keys:
  assumes "is_range_order ord" and "map_ok m"
  shows "map_ok (ord m)" and "set (map_keys (ord m)) = set (map_keys m)"
proof -
  have "mset (map_keys (ord m)) = mset (map_keys m)"
    using arg_cong [OF range_order_mset [OF assms(1), of m], of "image_mset fst"] by simp
  then show "map_ok (ord m)"
    using assms(2) by (metis mset_eq_imp_distinct_iff)
  show "set (map_keys (ord m)) = set (map_keys m)"
    using range_order_set [OF assms(1), of m] by simp
qed

lemma map_ok_update [simp, intro]: "map_ok m \<Longrightarrow> map_ok (AList.update k v m)"
  by (rule distinct_update)

lemma map_of_update [simp]: "map_of (AList.update k v m) = (map_of m)(k \<mapsto> v)"
  by (rule update_conv')

lemma length_update:
  "length (AList.update k v m) = (if k \<in> set (map_keys m) then length m else Suc (length m))"
  by (induction m) auto

lemma map_of_Some_iff_mem: "map_ok m \<Longrightarrow> map_of m k = Some v \<longleftrightarrow> (k, v) \<in> set m"
  by simp

subsection \<open>Interfaces that several components provide\<close>

text \<open>
  A bounded log: an append that drops the oldest entry once the capacity is exceeded.
  The metrics history and the access log of the pattern detector are such logs.
\<close>

locale sliding_window =
  fixes push :: "'s \<Rightarrow> 'x \<Rightarrow> 's" and contents :: "'s \<Rightarrow> 'x list" and cap :: "'s \<Rightarrow> nat"
  assumes contents_push:
      "contents (push s x) =
        (if cap s < length (contents s @ [x]) then tl (contents s @ [x]) else contents s @ [x])"
    and cap_push: "cap (push s x) = cap s"
begin

lemma length_push: "length (contents s) \<le> cap s \<Longrightarrow> length (contents (push s x)) \<le> cap (push s x)"
  by (simp add: contents_push cap_push)

lemma push_nonempty: "0 < cap s \<Longrightarrow> contents (push s x) \<noteq> [] \<and> last (contents (push s x)) = x"
  by (cases "contents s") (auto simp: contents_push)

lemma cap_pushes: "cap (foldl push s xs) = cap s"
  by (induction xs arbitrary: s) (simp_all add: cap_push)

lemma push_keeps_last:
  assumes "length (contents s) \<le> cap s"
  shows "contents (push s x) = drop (length (contents s @ [x]) - cap s) (contents s @ [x])"
proof (cases "cap s < length (contents s @ [x])")
  case True
  with assms have "length (contents s @ [x]) - cap s = 1" by simp
  with True show ?thesis by (simp only: contents_push if_True drop_Suc One_nat_def drop_0)
next
  case False
  then show ?thesis by (simp only: contents_push if_False) simp
qed

lemma pushes_keep_last:
  assumes "length (contents s) \<le> cap s"
  shows "contents (foldl push s xs) =
    drop (length (contents s @ xs) - cap s) (contents s @ xs)"
  using assms
proof (induction xs rule: rev_induct)
  case Nil
  then show ?case by simp
next
  case (snoc x xs)
  let ?t = "foldl push s xs"
  have c: "contents ?t = drop (length (contents s @ xs) - cap s) (contents s @ xs)"
    using snoc by simp
  define l k where "l = contents s @ xs" and "k = length l - cap s"
  from c have t: "contents ?t @ [x] = drop k (l @ [x])" by (simp add: l_def k_def)
  from c have "length (contents ?t) \<le> cap ?t" by (simp add: cap_pushes)
  then have "contents (push ?t x) = drop (length (contents ?t @ [x]) - cap ?t) (contents ?t @ [x])"
    by (rule push_keeps_last)
  also have "\<dots> = drop (length (l @ [x]) - k - cap s + k) (l @ [x])"
    by (simp only: t cap_pushes length_drop drop_drop)
  also have "length (l @ [x]) - k - cap s + k = length (l @ [x]) - cap s"
    by (simp add: k_def)
  finally show ?case by (simp add: l_def)
qed

end

text \<open>
  A scan that keeps the best entry seen so far. \<open>better v b\<close> is the test of the loop,
  \<open>mk e\<close> the accumulator after taking entry \<open>e\<close>; \<open>atleast\<close> is the order in which the
  result is optimal, on the scores that are \<open>ok\<close> (not NaN).
\<close>

locale best_scan =
  fixes step :: "'a \<Rightarrow> 'e \<Rightarrow> 'a" and mk :: "'e \<Rightarrow> 'a"
    and score :: "'a \<Rightarrow> 'v" and sc :: "'e \<Rightarrow> 'v"
    and better :: "'v \<Rightarrow> 'v \<Rightarrow> bool" and atleast :: "'v \<Rightarrow> 'v \<Rightarrow> bool" and ok :: "'v \<Rightarrow> bool"
  assumes step_take: "better (sc e) (score a) \<Longrightarrow> step a e = mk e"
    and step_keep: "\<not> better (sc e) (score a) \<Longrightarrow> step a e = a"
    and score_mk: "score (mk e) = sc e"
    and better_atleast: "better v b \<Longrightarrow> atleast v b"
    and better_ok: "better v b \<Longrightarrow> ok v"
    and not_better: "\<not> better v b \<Longrightarrow> ok v \<Longrightarrow> ok b \<Longrightarrow> atleast b v"
    and atleast_trans: "atleast u v \<Longrightarrow> atleast v w \<Longrightarrow> atleast u w"
    and atleast_refl: "ok v \<Longrightarrow> atleast v v"
    and better_trans: "better u v \<Longrightarrow> atleast v w \<Longrightarrow> better u w"
begin

lemma step_ok: "ok (score a) \<Longrightarrow> ok (score (step a e))"
  by (metis better_ok score_mk step_keep step_take)

lemma step_atleast: "ok (score a) \<Longrightarrow> atleast (score (step a e)) (score a)"
  by (metis atleast_refl better_atleast score_mk step_keep step_take)

lemma scan_atleast:
  "ok (score a) \<Longrightarrow>
   ok (score (foldl step a es)) \<and> atleast (score (foldl step a es)) (score a)"
proof (induction es arbitrary: a)
  case Nil
  then show ?case by (simp add: atleast_refl)
next
  case (Cons e es)
  have "ok (score (step a e))" using Cons.prems by (rule step_ok)
  with Cons.IH [of "step a e"] step_atleast [OF Cons.prems, of e] show ?case
    by (auto intro: atleast_trans)
qed

lemma scan_optimal:
  assumes "ok (score a)" and "e \<in> set es" and "ok (sc e)"
  shows "atleast (score (foldl step a es)) (sc e)"
  using assms
proof (induction es arbitrary: a)
  case Nil
  then show ?case by simp
next
  case (Cons f es)
  have ok': "ok (score (step a f))" using Cons.prems(1) by (rule step_ok)
  show ?case
  proof (cases "e = f")
    case True
    have "atleast (score (step a f)) (sc f)"
      by (metis Cons.prems(1,3) True atleast_refl not_better score_mk step_keep step_take)
    with scan_atleast [OF ok', of es] True show ?thesis by (auto intro: atleast_trans)
  next
    case False
    with Cons.prems Cons.IH [OF ok'] show ?thesis by simp
  qed
qed

lemma scan_source: "foldl step a es = a \<or> (\<exists>e \<in> set es. foldl step a es = mk e \<and> ok (sc e))"
proof (induction es arbitrary: a)
  case Nil
  then show ?case by simp
next
  case (Cons e es)
  then show ?case
    by (cases "better (sc e) (score a)") (force simp: step_take step_keep better_ok)+
qed

lemma scan_none: "\<forall>e \<in> set es. \<not> better (sc e) (score a) \<Longrightarrow> foldl step a es = a"
  by (induction es arbitrary: a) (simp_all add: step_keep)

lemma scan_some:
  assumes "ok (score a)" and "e \<in> set es" and "better (sc e) (score a)"
  shows "\<exists>f \<in> set es. foldl step a es = mk f \<and> better (sc f) (score a)"
  using assms
proof (induction es arbitrary: a e)
  case Nil
  then show ?case by simp
next
  case (Cons f es)
  show ?case
  proof (cases "better (sc f) (score a)")
    case False
    with Cons.prems have "e \<in> set es" by auto
    with False Cons.IH [OF Cons.prems(1)] Cons.prems(3) show ?thesis by (auto simp: step_keep)
  next
    case True
    then have st: "step a f = mk f" by (rule step_take)
    have okf: "ok (score (mk f))" using True by (simp add: score_mk better_ok)
    show ?thesis
    proof (cases "\<exists>g \<in> set es. better (sc g) (score (mk f))")
      case True
      then obtain g where "g \<in> set es" "better (sc g) (score (mk f))" by blast
      from Cons.IH [OF okf this] obtain h where
        "h \<in> set es" "foldl step (mk f) es = mk h" "better (sc h) (sc f)"
        by (auto simp: score_mk)
      with \<open>better (sc f) (score a)\<close> st show ?thesis
        by (auto intro: better_trans better_atleast)
    next
      case False
      then have "foldl step (mk f) es = mk f" by (intro scan_none) auto
      with True st show ?thesis by auto
    qed
  qed
qed

end

end
