(* ===== verification/Float64.thy ===== *)
theory Float64
  imports Prelude
begin

text \<open>
  Go's \<open>float64\<close>: IEEE 754 binary64 with the default rounding, to nearest with ties to
  even, as an executable model over the rationals. A finite value is \<open>Fin q\<close> for a
  rational \<open>q\<close>; every arithmetic operation computes the exact rational result and
  rounds it with \<open>rne\<close> to a multiple of the unit in the last place (53 significant
  bits, no unit below \<open>2^-1074\<close>), overflowing to an infinity at \<open>2^1024\<close>. NaN and the
  infinities follow the standard's tables. The sign of a zero is not represented: among the
  operations modelled here only a division by zero could show it, and every denominator of
  the program is either tested against zero or a conversion of an unsigned or a length,
  which is \<open>+0\<close>. Printing shows it too: the numbers that the flow handler decodes from JSON
  and prints again therefore have a value of their own for \<open>-0\<close> (\<open>JNegZero\<close> of Json.thy).
  No multiply-add is fused, as the compiler does for amd64.

  \<open>rne\<close> is monotone, odd and exact on representable values; the locale
  \<open>monotone_rounding\<close> derives from these laws the interval rules with which the
  components bound their scores, and \<open>float64_add_range\<close> and its kin are its
  instances for \<open>rne\<close>.
\<close>

subsection \<open>Powers of two and binary exponents\<close>

function bitlen :: "int \<Rightarrow> int" where
  "bitlen n = (if n \<le> 0 then 0 else 1 + bitlen (n div 2))"
  by pat_completeness auto
termination
  by (relation "measure nat") auto

declare bitlen.simps [simp del]

lemma bitlen_nonneg [simp]: "0 \<le> bitlen n"
  by (induction n rule: bitlen.induct) (simp add: bitlen.simps)

lemma bitlen_bounds: "n > 0 \<Longrightarrow> 0 < bitlen n \<and> 2 ^ nat (bitlen n - 1) \<le> n \<and> n < 2 ^ nat (bitlen n)"
proof (induction n rule: bitlen.induct)
  case (1 n)
  show ?case
  proof (cases "n div 2 \<le> 0")
    case True
    with "1.prems" have "n = 1" by auto
    then show ?thesis by (simp add: bitlen.simps [of 1] bitlen.simps [of 0])
  next
    case False
    with "1.IH" "1.prems" have ih: "0 < bitlen (n div 2)"
      "2 ^ nat (bitlen (n div 2) - 1) \<le> n div 2" "n div 2 < 2 ^ nat (bitlen (n div 2))"
      by auto
    have eq: "bitlen n = 1 + bitlen (n div 2)" using "1.prems" by (simp add: bitlen.simps [of n])
    define b where "b = nat (bitlen (n div 2) - 1)"
    have "nat (bitlen (n div 2)) = Suc b" "nat (bitlen n - 1) = Suc b" "nat (bitlen n) = Suc (Suc b)"
      using ih(1) eq by (simp_all add: b_def)
    moreover from this ih have "2 ^ b \<le> n div 2" "n div 2 < 2 ^ Suc b" by (simp_all add: b_def)
    ultimately show ?thesis using eq ih(1) by simp linarith
  qed
qed

definition ilog2 :: "rat \<Rightarrow> int" where
  "ilog2 q =
     (let (n, d) = quotient_of q; e = bitlen n - bitlen d
      in if 2 powi e \<le> q then e else e - 1)"

lemma powi2_add: "(2::rat) powi (a + b) = 2 powi a * 2 powi b"
  by (simp add: power_int_add)

lemma powi2_pos [simp]: "(0::rat) < 2 powi e"
  by simp

lemma powi2_mono: "a \<le> b \<Longrightarrow> (2::rat) powi a \<le> 2 powi b"
  by (simp add: power_int_increasing)

lemma powi2_less_iff: "(2::rat) powi a < 2 powi b \<longleftrightarrow> a < b"
  by (meson leD leI powi2_mono power_int_strict_increasing one_less_numeral_iff semiring_norm(76))

lemma powi2_nat: "0 \<le> e \<Longrightarrow> (2::rat) powi e = of_int (2 ^ nat e)"
  by (simp add: power_int_def)

lemma bitlen_rat_bounds:
  assumes "n > 0"
  shows "2 powi (bitlen n - 1) \<le> (of_int n :: rat)" and "(of_int n :: rat) < 2 powi bitlen n"
proof -
  have b: "0 < bitlen n" "2 ^ nat (bitlen n - 1) \<le> n" "n < 2 ^ nat (bitlen n)"
    using bitlen_bounds [OF assms] by auto
  have "(of_int (2 ^ nat (bitlen n - 1)) :: rat) \<le> of_int n" using b(2) by (simp only: of_int_le_iff)
  then show "2 powi (bitlen n - 1) \<le> (of_int n :: rat)" using b(1) by (simp only: powi2_nat)
  have "(of_int n :: rat) < of_int (2 ^ nat (bitlen n))" using b(3) by (simp only: of_int_less_iff)
  then show "(of_int n :: rat) < 2 powi bitlen n" by (simp only: powi2_nat bitlen_nonneg)
qed

lemma ilog2_bounds:
  assumes "q > 0"
  shows "2 powi ilog2 q \<le> q \<and> q < 2 powi (ilog2 q + 1)"
proof -
  obtain n d where nd: "quotient_of q = (n, d)" by (cases "quotient_of q")
  have d: "d > 0" using nd by (rule quotient_of_denom_pos)
  have q: "q = of_int n / of_int d" using nd by (rule quotient_of_div)
  with assms d have n: "n > 0" by (simp add: zero_less_divide_iff)
  define e where "e = bitlen n - bitlen d"
  note rn = bitlen_rat_bounds [OF n] and rd = bitlen_rat_bounds [OF d]
  have up: "q < 2 powi (e + 1)"
  proof -
    have "of_int n < 2 powi (e + 1) * (2 powi (bitlen d - 1) :: rat)"
      using rn(2) by (simp only: powi2_add [symmetric]) (simp add: e_def)
    also have "\<dots> \<le> 2 powi (e + 1) * of_int d" using rd(1) by simp
    finally show ?thesis using d by (simp add: q divide_less_eq)
  qed
  have lo: "2 powi (e - 1) \<le> q"
  proof -
    have "2 powi (e - 1) * of_int d \<le> (2 powi (e - 1) * 2 powi (bitlen d) :: rat)"
      using rd(2) by simp
    also have "\<dots> = 2 powi (bitlen n - 1)"
      by (simp only: powi2_add [symmetric]) (simp add: e_def)
    also have "\<dots> \<le> of_int n" by (rule rn(1))
    finally show ?thesis using d by (simp add: q le_divide_eq)
  qed
  have "ilog2 q = (if 2 powi e \<le> q then e else e - 1)"
    by (simp add: ilog2_def nd e_def Let_def)
  with up lo show ?thesis by auto
qed

lemma ilog2_unique:
  assumes "2 powi e \<le> q" and "q < 2 powi (e + 1)"
  shows "ilog2 q = e"
proof -
  have "0 < q" using assms(1) powi2_pos less_le_trans by blast
  then have b: "2 powi ilog2 q \<le> q" "q < 2 powi (ilog2 q + 1)" using ilog2_bounds by auto
  have "e < ilog2 q + 1" using assms(1) b(2) by (metis le_less_trans powi2_less_iff)
  moreover have "ilog2 q < e + 1" using assms(2) b(1) by (metis le_less_trans powi2_less_iff)
  ultimately show ?thesis by simp
qed

lemma ilog2_mono:
  assumes "0 < a" and "a \<le> b"
  shows "ilog2 a \<le> ilog2 b"
proof -
  have "2 powi ilog2 a < (2::rat) powi (ilog2 b + 1)"
    using ilog2_bounds [of a] ilog2_bounds [of b] assms by linarith
  then show ?thesis by (simp add: powi2_less_iff)
qed

subsection \<open>Rounding to nearest, ties to even\<close>

definition rhe :: "rat \<Rightarrow> int" where
  "rhe x =
     (let n = \<lfloor>x\<rfloor>; r = x - of_int n
      in if r < 1 / 2 then n
         else if 1 / 2 < r then n + 1
         else if even n then n else n + 1)"

lemma rhe_cases: "rhe x = \<lfloor>x\<rfloor> \<or> rhe x = \<lfloor>x\<rfloor> + 1"
  by (simp add: rhe_def Let_def)

lemma rhe_of_int [simp]: "rhe (of_int n) = n"
  by (simp add: rhe_def Let_def)

lemma rhe_nearest: "\<bar>of_int (rhe x) - x\<bar> \<le> 1 / 2"
proof -
  have "of_int \<lfloor>x\<rfloor> \<le> x" and "x < of_int \<lfloor>x\<rfloor> + 1" by linarith+
  then show ?thesis by (auto simp: rhe_def Let_def abs_le_iff)
qed

lemma rhe_mono:
  assumes "x \<le> y"
  shows "rhe x \<le> rhe y"
proof (cases "\<lfloor>x\<rfloor> = \<lfloor>y\<rfloor>")
  case True
  with assms show ?thesis by (auto simp: rhe_def Let_def)
next
  case False
  with floor_mono [OF assms] have "\<lfloor>x\<rfloor> + 1 \<le> \<lfloor>y\<rfloor>" by simp
  with rhe_cases [of x] rhe_cases [of y] show ?thesis by linarith
qed

lemma rhe_le: "x \<le> of_int n \<Longrightarrow> rhe x \<le> n"
  using rhe_mono [of x "of_int n"] by simp

lemma rhe_ge: "of_int n \<le> x \<Longrightarrow> n \<le> rhe x"
  using rhe_mono [of "of_int n" x] by simp

text \<open>The exponent of the unit in the last place, and the rounding of a rational.\<close>

definition unit_exp :: "rat \<Rightarrow> int" where
  "unit_exp q = max (ilog2 q - 52) (- 1074)"

definition rne_pos :: "rat \<Rightarrow> rat" where
  "rne_pos q = (let u = 2 powi unit_exp q in of_int (rhe (q / u)) * u)"

definition rne :: "rat \<Rightarrow> rat" where
  "rne q = (if q = 0 then 0 else if 0 < q then rne_pos q else - rne_pos (- q))"

definition on_grid :: "rat \<Rightarrow> bool" where
  "on_grid q \<longleftrightarrow> (\<exists>m e. q = of_int m * 2 powi e \<and> \<bar>m\<bar> < 2 ^ 53 \<and> - 1074 \<le> e)"

lemma powi2_div: "(2::rat) powi a / 2 powi b = 2 powi (a - b)"
  by (simp add: power_int_diff)

lemma rne_pos_le_powi:
  assumes "q \<le> 2 powi k" and "unit_exp q \<le> k"
  shows "rne_pos q \<le> 2 powi k"
proof -
  let ?u = "unit_exp q"
  have int: "(2::rat) powi (k - ?u) = of_int (2 ^ nat (k - ?u))"
    using assms(2) by (intro powi2_nat) simp
  have "q / 2 powi ?u \<le> 2 powi (k - ?u)"
    using assms(1) by (simp add: divide_right_mono flip: powi2_div)
  then have "rhe (q / 2 powi ?u) \<le> 2 ^ nat (k - ?u)"
    unfolding int by (rule rhe_le)
  then have "(of_int (rhe (q / 2 powi ?u)) :: rat) \<le> 2 powi (k - ?u)"
    unfolding int by (simp only: of_int_le_iff)
  then have "of_int (rhe (q / 2 powi ?u)) * 2 powi ?u \<le> 2 powi (k - ?u) * (2 powi ?u :: rat)"
    by (rule mult_right_mono) simp
  then show ?thesis by (simp add: rne_pos_def Let_def flip: powi2_add)
qed

lemma rne_pos_ge_powi:
  assumes "2 powi k \<le> q" and "unit_exp q \<le> k"
  shows "2 powi k \<le> rne_pos q"
proof -
  let ?u = "unit_exp q"
  have int: "(2::rat) powi (k - ?u) = of_int (2 ^ nat (k - ?u))"
    using assms(2) by (intro powi2_nat) simp
  have "2 powi (k - ?u) \<le> q / 2 powi ?u"
    using assms(1) by (simp add: divide_right_mono flip: powi2_div)
  then have "2 ^ nat (k - ?u) \<le> rhe (q / 2 powi ?u)"
    unfolding int by (rule rhe_ge)
  then have "2 powi (k - ?u) \<le> (of_int (rhe (q / 2 powi ?u)) :: rat)"
    unfolding int by (simp only: of_int_le_iff)
  then have "2 powi (k - ?u) * (2 powi ?u :: rat) \<le> of_int (rhe (q / 2 powi ?u)) * 2 powi ?u"
    by (rule mult_right_mono) simp
  then show ?thesis by (simp add: rne_pos_def Let_def flip: powi2_add)
qed

lemma rne_pos_mono:
  assumes "0 < a" and "a \<le> b"
  shows "rne_pos a \<le> rne_pos b"
proof (cases "unit_exp a = unit_exp b")
  case True
  have "a / 2 powi unit_exp b \<le> b / 2 powi unit_exp b"
    using assms(2) by (simp add: divide_right_mono)
  then have "rhe (a / 2 powi unit_exp b) \<le> rhe (b / 2 powi unit_exp b)" by (rule rhe_mono)
  then show ?thesis by (simp add: rne_pos_def Let_def True mult_right_mono)
next
  case False
  have mono: "ilog2 a \<le> ilog2 b" using assms by (rule ilog2_mono)
  with False have b: "unit_exp b = ilog2 b - 52" and u: "unit_exp a < unit_exp b"
    by (auto simp: unit_exp_def)
  from False mono have "ilog2 a + 1 \<le> ilog2 b" by (auto simp: unit_exp_def)
  then have "a \<le> 2 powi ilog2 b"
    using ilog2_bounds [OF assms(1)] powi2_mono [of "ilog2 a + 1" "ilog2 b"] by linarith
  then have "rne_pos a \<le> 2 powi ilog2 b" using u b by (intro rne_pos_le_powi) auto
  also have "\<dots> \<le> rne_pos b"
    using ilog2_bounds [of b] assms b by (intro rne_pos_ge_powi) auto
  finally show ?thesis .
qed

lemma rne_pos_nonneg: "0 < q \<Longrightarrow> 0 \<le> rne_pos q"
  by (auto simp: rne_pos_def Let_def intro!: mult_nonneg_nonneg rhe_ge)

lemma rne_0 [simp]: "rne 0 = 0"
  by (simp add: rne_def)

lemma rne_minus: "rne (- q) = - rne q"
  by (simp add: rne_def)

lemma rne_mono:
  assumes "a \<le> b"
  shows "rne a \<le> rne b"
proof -
  consider "0 < a" | "a \<le> 0" "0 \<le> b" | "b < 0" by linarith
  then show ?thesis
  proof cases
    case 1
    with assms show ?thesis by (simp add: rne_def rne_pos_mono)
  next
    case 2
    have "rne a \<le> 0" using 2 rne_pos_nonneg [of "- a"] by (simp add: rne_def)
    moreover have "0 \<le> rne b" using 2 rne_pos_nonneg [of b] by (simp add: rne_def)
    ultimately show ?thesis by simp
  next
    case 3
    then have "rne_pos (- b) \<le> rne_pos (- a)" using assms by (intro rne_pos_mono) auto
    with 3 assms show ?thesis by (simp add: rne_def)
  qed
qed

lemma rne_pos_grid:
  assumes "0 < m" and "m < 2 ^ 53" and "- 1074 \<le> e"
  shows "rne_pos (of_int m * 2 powi e) = of_int m * 2 powi e"
proof -
  let ?q = "of_int m * 2 powi e :: rat"
  let ?u = "unit_exp ?q"
  have q: "0 < ?q" using assms(1) by simp
  have "2 powi ilog2 ?q < (2::rat) powi (e + 53)"
  proof -
    have "2 powi ilog2 ?q \<le> ?q" using ilog2_bounds [OF q] by simp
    also have "(of_int m :: rat) < of_int (2 ^ 53)" using assms(2) by (simp only: of_int_less_iff)
    then have "?q < of_int (2 ^ 53) * 2 powi e" by (rule mult_strict_right_mono) simp
    also have "\<dots> = 2 powi (e + 53)" by (simp add: powi2_add)
    finally show ?thesis .
  qed
  then have "?u \<le> e" using assms(3) by (simp add: powi2_less_iff unit_exp_def)
  then have "?q / 2 powi ?u = of_int (m * 2 ^ nat (e - ?u))"
    by (simp add: power_int_diff [symmetric] powi2_nat flip: times_divide_eq_right)
  then have "rhe (?q / 2 powi ?u) = m * 2 ^ nat (e - ?u)" by (simp only: rhe_of_int)
  then show ?thesis
    using \<open>?q / 2 powi ?u = of_int (m * 2 ^ nat (e - ?u))\<close>
    by (simp only: rne_pos_def Let_def) (metis nonzero_divide_eq_eq power_int_not_zero zero_neq_numeral)
qed

lemma rne_grid: "on_grid q \<Longrightarrow> rne q = q"
proof -
  assume "on_grid q"
  then obtain m e where q: "q = of_int m * 2 powi e" and m: "\<bar>m\<bar> < 2 ^ 53" and e: "- 1074 \<le> e"
    by (auto simp: on_grid_def)
  consider "m = 0" | "0 < m" | "m < 0" by linarith
  then show ?thesis
  proof cases
    case 1
    then show ?thesis by (simp add: q)
  next
    case 2
    then show ?thesis using rne_pos_grid [of m e] m e by (simp add: rne_def q)
  next
    case 3
    let ?p = "of_int (- m) * 2 powi e :: rat"
    have "0 < ?p" using 3 by (intro mult_pos_pos) simp_all
    then have "rne ?p = rne_pos ?p" by (simp only: rne_def if_True less_imp_neq [symmetric] if_False)
    also have "\<dots> = ?p" using 3 m e by (intro rne_pos_grid) auto
    finally have "rne (- ?p) = - ?p" by (simp only: rne_minus)
    moreover have "- ?p = q" by (simp add: q)
    ultimately show ?thesis by (simp only:)
  qed
qed

lemma on_grid_int: "\<bar>n\<bar> < 2 ^ 53 \<Longrightarrow> on_grid (of_int n)"
  unfolding on_grid_def by (rule exI [of _ n], rule exI [of _ 0]) simp

lemma rne_int: "\<bar>n\<bar> < 2 ^ 53 \<Longrightarrow> rne (of_int n) = of_int n"
  by (rule rne_grid) (rule on_grid_int)

lemma rne_1 [simp]: "rne 1 = 1"
  using rne_int [of 1] by simp

text \<open>A rounded value is representable, so rounding is idempotent.\<close>

lemma on_grid_rne_pos:
  assumes "0 < q"
  shows "on_grid (rne_pos q)"
proof -
  let ?u = "unit_exp q" and ?n = "rhe (q / 2 powi unit_exp q)"
  have u: "- 1074 \<le> ?u" and k: "ilog2 q + 1 \<le> 53 + ?u" by (simp_all add: unit_exp_def)
  have "q < 2 powi (ilog2 q + 1)" using ilog2_bounds [OF assms] by simp
  also have "\<dots> \<le> 2 powi (53 + ?u)" using k by (rule powi2_mono)
  finally have "q / 2 powi ?u \<le> of_int (2 ^ 53)" by (simp add: divide_le_eq powi2_add)
  then have hi: "?n \<le> 2 ^ 53" by (rule rhe_le)
  have lo: "0 \<le> ?n" using assms by (intro rhe_ge) simp
  show ?thesis
  proof (cases "?n = 2 ^ 53")
    case True
    have "rne_pos q = of_int (2 ^ 53) * 2 powi ?u" by (simp only: rne_pos_def Let_def True)
    also have "\<dots> = of_int (2 ^ 52) * (2 powi 1 * 2 powi ?u)" by simp
    also have "\<dots> = of_int (2 ^ 52) * 2 powi (1 + ?u)" by (simp only: powi2_add)
    finally have "rne_pos q = of_int (2 ^ 52) * 2 powi (1 + ?u)" .
    moreover have "\<bar>2 ^ 52 :: int\<bar> < 2 ^ 53" by simp
    moreover have "- 1074 \<le> 1 + ?u" using u by simp
    ultimately show ?thesis unfolding on_grid_def by blast
  next
    case False
    with hi lo have "\<bar>?n\<bar> < 2 ^ 53" by simp
    moreover have "rne_pos q = of_int ?n * 2 powi ?u" by (simp only: rne_pos_def Let_def)
    ultimately show ?thesis using u unfolding on_grid_def by blast
  qed
qed

lemma on_grid_minus: "on_grid (- q) = on_grid q"
proof -
  have "on_grid (- p)" if "on_grid p" for p
  proof -
    from that obtain m e where "p = of_int m * 2 powi e" "\<bar>m\<bar> < 2 ^ 53" "- 1074 \<le> e"
      by (auto simp: on_grid_def)
    then show ?thesis unfolding on_grid_def by (intro exI [of _ "- m"] exI [of _ e]) simp
  qed
  from this [of q] this [of "- q"] show ?thesis by auto
qed

lemma on_grid_rne: "on_grid (rne q)"
proof -
  have "on_grid 0" using on_grid_int [of 0] by simp
  then show ?thesis
    using on_grid_rne_pos [of q] on_grid_rne_pos [of "- q"] by (auto simp: rne_def on_grid_minus)
qed

lemma rne_idem [simp]: "rne (rne q) = rne q"
  by (rule rne_grid) (rule on_grid_rne)

lemma rne_nonneg: "0 \<le> q \<Longrightarrow> 0 \<le> rne q"
  using rne_mono [of 0 q] by simp

lemma rne_nonpos: "q \<le> 0 \<Longrightarrow> rne q \<le> 0"
  using rne_mono [of q 0] by simp

text \<open>The rounding error is at most half a unit in the last place.\<close>

lemma rne_error: "\<bar>rne q - q\<bar> \<le> 2 powi (unit_exp \<bar>q\<bar> - 1)"
proof -
  have pos: "\<bar>rne_pos p - p\<bar> \<le> 2 powi (unit_exp p - 1)" if "0 < p" for p
  proof -
    let ?u = "2 powi unit_exp p :: rat"
    have "rne_pos p - p = (of_int (rhe (p / ?u)) - p / ?u) * ?u"
      by (simp add: rne_pos_def Let_def left_diff_distrib)
    then have "\<bar>rne_pos p - p\<bar> = \<bar>of_int (rhe (p / ?u)) - p / ?u\<bar> * ?u" by (simp add: abs_mult)
    also have "\<dots> \<le> 1 / 2 * ?u" by (rule mult_right_mono [OF rhe_nearest]) simp
    also have "\<dots> = 2 powi (unit_exp p - 1)" by (simp add: power_int_diff)
    finally show ?thesis .
  qed
  consider "q = 0" | "0 < q" | "q < 0" by linarith
  then show ?thesis
  proof cases
    case 1
    then show ?thesis by simp
  next
    case 2
    then show ?thesis using pos [of q] by (simp add: rne_def)
  next
    case 3
    have "\<bar>- rne_pos (- q) - q\<bar> = \<bar>rne_pos (- q) - - q\<bar>" by simp
    with 3 pos [of "- q"] show ?thesis by (simp add: rne_def)
  qed
qed

subsection \<open>The laws of a monotone rounding\<close>

locale monotone_rounding =
  fixes rnd :: "rat \<Rightarrow> rat"
  assumes rnd_mono: "a \<le> b \<Longrightarrow> rnd a \<le> rnd b"
    and rnd_idem: "rnd (rnd a) = rnd a"
begin

lemma rnd_upper: "q \<le> hi \<Longrightarrow> rnd hi = hi \<Longrightarrow> rnd q \<le> hi"
  using rnd_mono [of q hi] by simp

lemma rnd_lower: "lo \<le> q \<Longrightarrow> rnd lo = lo \<Longrightarrow> lo \<le> rnd q"
  using rnd_mono [of lo q] by simp

lemma rnd_sum_between:
  assumes "a \<le> x" "x \<le> b" "c \<le> y" "y \<le> d" "rnd (a + c) = a + c" "rnd (b + d) = b + d"
  shows "a + c \<le> rnd (x + y) \<and> rnd (x + y) \<le> b + d"
  using assms by (intro conjI rnd_lower rnd_upper) auto

lemma rnd_product_nonneg:
  assumes "0 \<le> x" "x \<le> b" "0 \<le> y" "y \<le> d" "rnd 0 = 0" "rnd (b * d) = b * d"
  shows "0 \<le> rnd (x * y) \<and> rnd (x * y) \<le> b * d"
  using assms by (intro conjI rnd_lower rnd_upper) (auto intro: mult_mono)

lemma rnd_quotient_unit:
  assumes "0 \<le> x" "x \<le> y" "rnd 0 = 0" "rnd 1 = 1"
  shows "0 \<le> rnd (x / y) \<and> rnd (x / y) \<le> 1"
  using assms by (intro conjI rnd_lower rnd_upper) (auto simp: divide_le_eq_1)

end

interpretation rne64: monotone_rounding rne
  by unfold_locales (auto intro: rne_mono)

subsection \<open>Values, conversion and comparison\<close>

datatype float64 = NaN | PInf | NInf | Fin rat

definition f64 :: "rat \<Rightarrow> float64" where
  "f64 q =
     (let r = rne q
      in if 2 ^ 1024 \<le> r then PInf else if r \<le> - (2 ^ 1024) then NInf else Fin r)"

definition f64_of_int :: "int \<Rightarrow> float64" where
  "f64_of_int n = f64 (of_int n)"

definition f64_of_u64 :: "64 word \<Rightarrow> float64" where
  "f64_of_u64 w = f64 (of_int (uint w))"

text \<open>
  \<open>uint64(x)\<close> drops the fraction; outside the range the language leaves the result
  to the implementation, which is \<open>None\<close> here.
\<close>

fun f64_to_u64 :: "float64 \<Rightarrow> 64 word option" where
  "f64_to_u64 (Fin q) =
     (if - 1 < q \<and> q < 2 ^ 64 then Some (word_of_int (if q < 0 then 0 else \<lfloor>q\<rfloor>)) else None)"
| "f64_to_u64 _ = None"

fun is_finite :: "float64 \<Rightarrow> bool" where
  "is_finite (Fin _) = True"
| "is_finite _ = False"

fun f64_add :: "float64 \<Rightarrow> float64 \<Rightarrow> float64" where
  "f64_add NaN _ = NaN"
| "f64_add _ NaN = NaN"
| "f64_add PInf NInf = NaN"
| "f64_add NInf PInf = NaN"
| "f64_add PInf _ = PInf"
| "f64_add _ PInf = PInf"
| "f64_add NInf _ = NInf"
| "f64_add _ NInf = NInf"
| "f64_add (Fin a) (Fin b) = f64 (a + b)"

fun f64_neg :: "float64 \<Rightarrow> float64" where
  "f64_neg NaN = NaN"
| "f64_neg PInf = NInf"
| "f64_neg NInf = PInf"
| "f64_neg (Fin a) = Fin (- a)"

fun f64_sign :: "float64 \<Rightarrow> rat" where
  "f64_sign NaN = 0"
| "f64_sign PInf = 1"
| "f64_sign NInf = - 1"
| "f64_sign (Fin a) = sgn a"

definition signed_inf :: "rat \<Rightarrow> float64" where
  "signed_inf s = (if 0 < s then PInf else if s < 0 then NInf else NaN)"

fun f64_mul :: "float64 \<Rightarrow> float64 \<Rightarrow> float64" where
  "f64_mul NaN _ = NaN"
| "f64_mul _ NaN = NaN"
| "f64_mul (Fin a) (Fin b) = f64 (a * b)"
| "f64_mul x y = signed_inf (f64_sign x * f64_sign y)"

fun f64_div :: "float64 \<Rightarrow> float64 \<Rightarrow> float64" where
  "f64_div NaN _ = NaN"
| "f64_div _ NaN = NaN"
| "f64_div (Fin a) (Fin b) = (if b = 0 then signed_inf (sgn a) else f64 (a / b))"
| "f64_div (Fin a) _ = Fin 0"
| "f64_div x (Fin b) = signed_inf (f64_sign x * (if b < 0 then - 1 else 1))"
| "f64_div _ _ = NaN"

fun f64_lt :: "float64 \<Rightarrow> float64 \<Rightarrow> bool" where
  "f64_lt (Fin a) (Fin b) = (a < b)"
| "f64_lt NInf (Fin _) = True"
| "f64_lt NInf PInf = True"
| "f64_lt (Fin _) PInf = True"
| "f64_lt _ _ = False"

text \<open>Go's \<open>==\<close>, which is false on NaN, unlike equality of the model's values.\<close>

definition f64_eq :: "float64 \<Rightarrow> float64 \<Rightarrow> bool" where
  "f64_eq x y \<longleftrightarrow> x = y \<and> x \<noteq> NaN"

definition f64_le :: "float64 \<Rightarrow> float64 \<Rightarrow> bool" where
  "f64_le x y \<longleftrightarrow> f64_lt x y \<or> f64_eq x y"

instantiation float64 :: "{zero, one, plus, minus, uminus, times, inverse, ord, abs}"
begin

definition zero_float64 :: float64 where "0 = Fin 0"
definition one_float64 :: float64 where "1 = Fin 1"
definition plus_float64 :: "float64 \<Rightarrow> float64 \<Rightarrow> float64" where "x + y = f64_add x y"
definition uminus_float64 :: "float64 \<Rightarrow> float64" where "- x = f64_neg x"
definition minus_float64 :: "float64 \<Rightarrow> float64 \<Rightarrow> float64" where "x - y = f64_add x (f64_neg y)"
definition times_float64 :: "float64 \<Rightarrow> float64 \<Rightarrow> float64" where "x * y = f64_mul x y"
definition divide_float64 :: "float64 \<Rightarrow> float64 \<Rightarrow> float64" where "x div y = f64_div x y"
definition inverse_float64 :: "float64 \<Rightarrow> float64" where "inverse x = f64_div (Fin 1) x"
definition less_float64 :: "float64 \<Rightarrow> float64 \<Rightarrow> bool" where "x < y \<longleftrightarrow> f64_lt x y"
definition less_eq_float64 :: "float64 \<Rightarrow> float64 \<Rightarrow> bool" where "x \<le> y \<longleftrightarrow> f64_le x y"
definition abs_float64 :: "float64 \<Rightarrow> float64" where
  "\<bar>x\<bar> = (case x of NaN \<Rightarrow> NaN | PInf \<Rightarrow> PInf | NInf \<Rightarrow> PInf | Fin a \<Rightarrow> Fin \<bar>a\<bar>)"

instance ..

end

lemmas float64_ops =
  zero_float64_def one_float64_def plus_float64_def uminus_float64_def minus_float64_def
  times_float64_def divide_float64_def less_float64_def less_eq_float64_def f64_le_def f64_eq_def

text \<open>\<open>math.Min\<close>, and \<open>math.Sqrt\<close>, which the standard requires to be correctly rounded.\<close>

definition math_min :: "float64 \<Rightarrow> float64 \<Rightarrow> float64" where
  "math_min x y =
     (if x = NInf \<or> y = NInf then NInf
      else if x = NaN \<or> y = NaN then NaN
      else if x < y then x else y)"

function isqrt :: "int \<Rightarrow> int" where
  "isqrt n =
     (if n \<le> 0 then 0
      else let r = 2 * isqrt (n div 4) in if (r + 1) * (r + 1) \<le> n then r + 1 else r)"
  by pat_completeness auto
termination
  by (relation "measure nat") auto

declare isqrt.simps [simp del]

definition sqrt_rne :: "rat \<Rightarrow> rat" where
  "sqrt_rne q =
     (let u = ilog2 q div 2 - 52; y = q / 2 powi (2 * u); s = isqrt \<lfloor>y\<rfloor>;
          h = (of_int s + 1 / 2) * (of_int s + 1 / 2);
          m = (if y < h \<or> (y = h \<and> even s) then s else s + 1)
      in of_int m * 2 powi u)"

fun math_sqrt :: "float64 \<Rightarrow> float64" where
  "math_sqrt NaN = NaN"
| "math_sqrt PInf = PInf"
| "math_sqrt NInf = NaN"
| "math_sqrt (Fin q) = (if q < 0 then NaN else if q = 0 then Fin 0 else Fin (sqrt_rne q))"

subsection \<open>Comparison\<close>

lemma f64_less_simps [simp]:
  "Fin a < Fin b \<longleftrightarrow> a < b"
  "Fin a < 0 \<longleftrightarrow> a < 0" "0 < Fin b \<longleftrightarrow> 0 < b" "Fin a < 1 \<longleftrightarrow> a < 1" "1 < Fin b \<longleftrightarrow> 1 < b"
  "\<not> NaN < x" "\<not> x < NaN" "\<not> PInf < x" "\<not> x < NInf"
  "Fin a < PInf" "NInf < Fin a" "NInf < PInf"
  by (cases x; simp add: float64_ops)+

lemma f64_le_simps [simp]:
  "Fin a \<le> Fin b \<longleftrightarrow> a \<le> b"
  "Fin a \<le> 0 \<longleftrightarrow> a \<le> 0" "0 \<le> Fin b \<longleftrightarrow> 0 \<le> b" "Fin a \<le> 1 \<longleftrightarrow> a \<le> 1" "1 \<le> Fin b \<longleftrightarrow> 1 \<le> b"
  "\<not> NaN \<le> x" "\<not> x \<le> NaN" "x \<le> PInf \<longleftrightarrow> x \<noteq> NaN" "NInf \<le> x \<longleftrightarrow> x \<noteq> NaN"
  "PInf \<le> x \<longleftrightarrow> x = PInf" "x \<le> NInf \<longleftrightarrow> x = NInf"
  by (cases x; auto simp: float64_ops)+

lemma f64_zero_one_simps [simp]:
  "0 = Fin a \<longleftrightarrow> a = 0" "Fin a = 0 \<longleftrightarrow> a = 0" "1 = Fin a \<longleftrightarrow> a = 1" "Fin a = 1 \<longleftrightarrow> a = 1"
  "(0::float64) \<noteq> NaN" "(1::float64) \<noteq> NaN" "NaN \<noteq> 0" "NaN \<noteq> 1"
  "PInf \<noteq> 0" "PInf \<noteq> 1" "NInf \<noteq> 0" "NInf \<noteq> 1"
  by (auto simp: float64_ops)

lemma f64_eq_simps [simp]:
  "f64_eq NaN y = False" "f64_eq x NaN = False" "f64_eq (Fin a) (Fin b) = (a = b)"
  "f64_eq (Fin a) 0 = (a = 0)" "f64_eq x x = (x \<noteq> NaN)"
  by (auto simp: f64_eq_def)

lemma f64_le_trans: "(x::float64) \<le> y \<Longrightarrow> y \<le> z \<Longrightarrow> x \<le> z"
  by (cases x; cases y; cases z) auto

lemma f64_less_le_trans: "(x::float64) < y \<Longrightarrow> y \<le> z \<Longrightarrow> x < z"
  by (cases x; cases y; cases z) auto

lemma f64_le_less_trans: "(x::float64) \<le> y \<Longrightarrow> y < z \<Longrightarrow> x < z"
  by (cases x; cases y; cases z) auto

lemma f64_less_imp_le: "(x::float64) < y \<Longrightarrow> x \<le> y"
  by (cases x; cases y) auto

lemma f64_not_less: "x \<noteq> NaN \<Longrightarrow> y \<noteq> NaN \<Longrightarrow> \<not> x < y \<longleftrightarrow> y \<le> x"
  by (cases x; cases y) auto

lemma f64_le_refl: "x \<noteq> NaN \<Longrightarrow> x \<le> (x::float64)"
  by (cases x) auto

lemma f64_less_irrefl [simp]: "\<not> x < (x::float64)"
  by (cases x) auto

lemma f64_le_not_NaN: "(x::float64) \<le> y \<Longrightarrow> x \<noteq> NaN \<and> y \<noteq> NaN"
  by auto

lemma f64_less_not_le: "(x::float64) < y \<Longrightarrow> \<not> y \<le> x"
  by (cases x; cases y) auto

subsection \<open>Ranges\<close>

definition exact64 :: "rat \<Rightarrow> bool" where
  "exact64 q \<longleftrightarrow> rne q = q \<and> \<bar>q\<bar> < 2 ^ 1024"

fun frange :: "rat \<Rightarrow> rat \<Rightarrow> float64 \<Rightarrow> bool" where
  "frange lo hi (Fin q) = (lo \<le> q \<and> q \<le> hi)"
| "frange lo hi _ = False"

lemma frangeE:
  assumes "frange lo hi x"
  obtains q where "x = Fin q" "lo \<le> q" "q \<le> hi"
  using assms by (cases x) auto

lemma frange_01: "frange 0 1 x \<longleftrightarrow> 0 \<le> x \<and> x \<le> 1"
  by (cases x) auto

lemma frange_mono: "frange lo hi x \<Longrightarrow> lo' \<le> lo \<Longrightarrow> hi \<le> hi' \<Longrightarrow> frange lo' hi' x"
  by (cases x) auto

lemma exact64_int: "\<bar>n\<bar> < 2 ^ 53 \<Longrightarrow> exact64 (of_int n)"
proof -
  assume n: "\<bar>n\<bar> < 2 ^ 53"
  then have "\<bar>of_int n :: rat\<bar> < of_int (2 ^ 53)" by (simp only: of_int_abs [symmetric] of_int_less_iff)
  also have "(of_int (2 ^ 53) :: rat) < 2 ^ 1024" by simp
  finally show ?thesis using rne_int [OF n] by (simp add: exact64_def)
qed

lemma exact64_numeral [simp]: "(numeral k :: int) < 2 ^ 53 \<Longrightarrow> exact64 (numeral k)"
  using exact64_int [of "numeral k"] by simp

lemma exact64_0_1 [simp]: "exact64 0" "exact64 1"
  using exact64_int [of 0] exact64_int [of 1] by simp_all

lemma exact64_minus [simp]: "exact64 (- q) = exact64 q"
  by (auto simp: exact64_def rne_minus)

lemma exact64_nat: "n < 2 ^ 53 \<Longrightarrow> exact64 (of_nat n)"
proof -
  assume "n < 2 ^ 53"
  then have "int n < int (2 ^ 53)" by (simp only: of_nat_less_iff)
  then show ?thesis using exact64_int [of "int n"] by simp
qed

lemma exact64_powi: "- 1074 \<le> e \<Longrightarrow> e < 1024 \<Longrightarrow> exact64 (2 powi e)"
proof -
  assume e: "- 1074 \<le> e" "e < 1024"
  have "on_grid (2 powi e)" unfolding on_grid_def
    using e by (intro exI [of _ 1] exI [of _ e]) simp
  moreover have "(2::rat) powi e < 2 powi 1024" using e by (simp only: powi2_less_iff)
  ultimately show ?thesis by (simp add: exact64_def rne_grid)
qed

lemma exact64_scaled:
  assumes "\<bar>m\<bar> < 2 ^ 53" and "- 1074 \<le> e" and "e \<le> 900"
  shows "exact64 (of_int m * 2 powi e)"
proof -
  have "on_grid (of_int m * 2 powi e)" unfolding on_grid_def using assms(1,2) by blast
  moreover have "\<bar>of_int m * 2 powi e :: rat\<bar> < 2 ^ 1024"
  proof -
    have "\<bar>of_int m :: rat\<bar> \<le> of_int (2 ^ 53)"
      using assms(1) by (simp only: of_int_abs [symmetric] of_int_le_iff)
    then have "\<bar>of_int m * 2 powi e :: rat\<bar> \<le> 2 powi 53 * 2 powi 900"
      unfolding abs_mult using powi2_mono [OF assms(3)] by (intro mult_mono) simp_all
    also have "\<dots> < (2::rat) powi 1024" by (simp only: powi2_add [symmetric] powi2_less_iff)
    finally show ?thesis by simp
  qed
  ultimately show ?thesis by (simp add: exact64_def rne_grid)
qed

lemma f64_exact: "exact64 q \<Longrightarrow> f64 q = Fin q"
  by (auto simp: f64_def exact64_def Let_def abs_less_iff)

lemma f64_0_1 [simp]: "f64 0 = 0" "f64 1 = 1"
  using f64_exact [of 0] f64_exact [of 1] by (simp_all add: float64_ops)

lemma f64_not_NaN [simp]: "f64 q \<noteq> NaN"
  by (simp add: f64_def Let_def)

lemma f64_frange:
  assumes "lo \<le> q" "q \<le> hi" "exact64 lo" "exact64 hi"
  shows "frange lo hi (f64 q)"
proof -
  have "lo \<le> rne q" "rne q \<le> hi"
    using assms rne64.rnd_lower [of lo q] rne64.rnd_upper [of q hi] by (auto simp: exact64_def)
  moreover have "- (2 ^ 1024) < lo" "hi < 2 ^ 1024"
    using assms(3,4) by (simp_all add: exact64_def abs_less_iff)
  ultimately have "\<not> 2 ^ 1024 \<le> rne q" "\<not> rne q \<le> - (2 ^ 1024)" by linarith+
  with \<open>lo \<le> rne q\<close> \<open>rne q \<le> hi\<close> show ?thesis by (simp add: f64_def Let_def)
qed

lemma f64_mono: "a \<le> b \<Longrightarrow> f64 a \<le> f64 b"
  using rne_mono [of a b] by (auto simp: f64_def Let_def)

lemma f64_of_int_exact: "\<bar>n\<bar> < 2 ^ 53 \<Longrightarrow> f64_of_int n = Fin (of_int n)"
  unfolding f64_of_int_def by (rule f64_exact) (rule exact64_int)

lemma f64_of_nat_exact: "n < 2 ^ 53 \<Longrightarrow> f64_of_int (int n) = Fin (of_nat n)"
proof -
  assume "n < 2 ^ 53"
  then have "int n < int (2 ^ 53)" by (simp only: of_nat_less_iff)
  then show ?thesis using f64_of_int_exact [of "int n"] by simp
qed

lemma f64_of_nat: "m < 2 ^ 53 \<Longrightarrow> f64 (of_nat m) = Fin (of_nat m)"
  by (rule f64_exact) (rule exact64_nat)

subsection \<open>Arithmetic within ranges\<close>

lemma f64_Fin_simps:
  "Fin a + Fin b = f64 (a + b)" "Fin a - Fin b = f64 (a - b)" "Fin a * Fin b = f64 (a * b)"
  "b \<noteq> 0 \<Longrightarrow> Fin a / Fin b = f64 (a / b)" "\<bar>Fin a\<bar> = Fin \<bar>a\<bar>" "- Fin a = Fin (- a)"
  by (simp_all add: float64_ops abs_float64_def)

lemma f64_NaN_simps [simp]:
  "NaN + x = NaN" "x + NaN = NaN" "NaN - x = NaN" "x - NaN = NaN" "NaN * x = NaN" "x * NaN = NaN"
  "NaN / x = NaN" "x / NaN = NaN" "\<bar>NaN\<bar> = NaN"
  by (cases x; simp add: float64_ops abs_float64_def)+

lemma frange_add [bounds_intro]:
  assumes "frange a b x" "frange c d y" "exact64 (a + c)" "exact64 (b + d)"
  shows "frange (a + c) (b + d) (x + y)"
  using assms by (auto elim!: frangeE simp: f64_Fin_simps intro!: f64_frange)

lemma frange_sub [bounds_intro]:
  assumes "frange a b x" "frange c d y" "exact64 (a - d)" "exact64 (b - c)"
  shows "frange (a - d) (b - c) (x - y)"
  using assms by (auto elim!: frangeE simp: f64_Fin_simps intro!: f64_frange)

lemma frange_mul_nonneg:
  assumes "frange 0 b x" "frange 0 d y" "exact64 (b * d)"
  shows "frange 0 (b * d) (x * y)"
  using assms by (auto elim!: frangeE simp: f64_Fin_simps intro!: f64_frange mult_mono)

lemma frange_mul:
  assumes "frange (- b) b x" "frange (- d) d y" "exact64 (b * d)"
  shows "frange (- (b * d)) (b * d) (x * y)"
proof -
  obtain p q where x: "x = Fin p" "- b \<le> p" "p \<le> b" and y: "y = Fin q" "- d \<le> q" "q \<le> d"
    using assms(1,2) by (auto elim!: frangeE)
  have "\<bar>p * q\<bar> \<le> b * d" unfolding abs_mult using x y by (intro mult_mono) auto
  then have "- (b * d) \<le> p * q" "p * q \<le> b * d" by (simp_all add: abs_le_iff)
  with assms(3) show ?thesis unfolding x(1) y(1) by (simp add: f64_Fin_simps f64_frange)
qed

lemma frange_square:
  assumes "frange (- b) b x" "exact64 (b * b)"
  shows "frange 0 (b * b) (x * x)"
proof -
  obtain p where x: "x = Fin p" "- b \<le> p" "p \<le> b" using assms(1) by (auto elim!: frangeE)
  have "\<bar>p * p\<bar> \<le> b * b" unfolding abs_mult using x by (intro mult_mono) auto
  with assms(2) show ?thesis unfolding x(1) by (simp add: f64_Fin_simps f64_frange)
qed

lemma frange_abs: "frange (- b) b x \<Longrightarrow> frange 0 b \<bar>x\<bar>"
  by (auto elim!: frangeE simp: f64_Fin_simps)

lemma frange_div_unit: "0 \<le> a \<Longrightarrow> a \<le> b \<Longrightarrow> 0 < b \<Longrightarrow> frange 0 1 (Fin a / Fin b)"
  by (auto simp: f64_Fin_simps divide_le_eq_1 intro!: f64_frange)

lemma f64_count_ratio:
  assumes "0 \<le> h" and "h \<le> int n" and "0 < n" and "n < 2 ^ 53"
  shows "f64_of_int h / f64_of_int (int n) = f64 (of_int h / of_nat n)"
    and "frange 0 1 (f64_of_int h / f64_of_int (int n))"
proof -
  have "int n < int (2 ^ 53)" using assms(4) by (simp only: of_nat_less_iff)
  then have "\<bar>h\<bar> < 2 ^ 53" using assms(1,2) by simp
  then have e: "f64_of_int h = Fin (of_int h)" "f64_of_int (int n) = Fin (of_nat n)"
    using assms(4) by (simp_all add: f64_of_int_exact f64_of_nat_exact)
  have "(of_int h :: rat) \<le> of_int (int n)" using assms(2) by (simp only: of_int_le_iff)
  with assms show "frange 0 1 (f64_of_int h / f64_of_int (int n))"
    unfolding e by (intro frange_div_unit) simp_all
  show "f64_of_int h / f64_of_int (int n) = f64 (of_int h / of_nat n)"
    unfolding e using assms(3) by (simp add: f64_Fin_simps)
qed

lemma frange_div_ge_1:
  assumes "frange (- m) m x" "1 \<le> b" "exact64 m"
  shows "frange (- m) m (x / Fin b)"
proof -
  obtain p where x: "x = Fin p" "- m \<le> p" "p \<le> m" using assms(1) by (auto elim!: frangeE)
  have "\<bar>p / b\<bar> \<le> \<bar>p\<bar> / 1" unfolding abs_divide using assms(2) by (intro divide_left_mono) auto
  also have "\<dots> \<le> m" using x by (simp add: abs_le_iff)
  finally have "- m \<le> p / b" "p / b \<le> m" unfolding abs_le_iff by simp_all
  with assms show ?thesis unfolding x(1) by (simp add: f64_Fin_simps f64_frange)
qed

lemma frange_div_nonneg:
  assumes "frange 0 m x" "0 < b" "exact64 (m / b)"
  shows "frange 0 (m / b) (x / Fin b)"
  using assms by (auto elim!: frangeE simp: f64_Fin_simps intro!: f64_frange divide_right_mono)

lemma f64_nonneg: "0 \<le> q \<Longrightarrow> 0 \<le> f64 q"
  using f64_mono [of 0 q] by simp

lemma f64_add_nonneg: "0 \<le> x \<Longrightarrow> 0 \<le> y \<Longrightarrow> 0 \<le> x + (y::float64)"
  by (cases x; cases y) (auto simp: f64_Fin_simps f64_nonneg float64_ops(3))

lemma f64_square_nonneg: "x \<noteq> NaN \<Longrightarrow> 0 \<le> x * (x::float64)"
  by (cases x) (auto simp: f64_Fin_simps f64_nonneg float64_ops(6) signed_inf_def)

lemma f64_div_nonneg: "0 \<le> x \<Longrightarrow> 0 < y \<Longrightarrow> x \<noteq> PInf \<or> y \<noteq> PInf \<Longrightarrow> 0 \<le> x / (y::float64)"
  by (cases x; cases y) (auto simp: f64_Fin_simps f64_nonneg float64_ops(7) signed_inf_def)

lemma math_min_le: "x \<noteq> NaN \<Longrightarrow> y \<noteq> NaN \<Longrightarrow> math_min x y \<le> x \<and> math_min x y \<le> y"
  by (cases x; cases y) (auto simp: math_min_def)

lemma math_min_ge: "z \<le> x \<Longrightarrow> z \<le> y \<Longrightarrow> z \<noteq> NInf \<Longrightarrow> z \<le> math_min x y"
  by (cases x; cases y) (auto simp: math_min_def)

lemma f64_0_le_1 [simp]: "(0::float64) \<le> 1" "(1::float64) \<le> 1" "(0::float64) \<le> 0" "(0::float64) < 1"
  by (simp_all add: float64_ops(1,2))

lemma math_min_unit: "0 \<le> x \<Longrightarrow> 0 \<le> math_min x 1 \<and> math_min x 1 \<le> 1"
  by (cases x) (auto simp: math_min_def)

lemma math_min_NaN [simp]: "math_min NaN 1 = NaN"
  by (simp add: math_min_def)

subsection \<open>Square root\<close>

lemma isqrt_bounds:
  "0 \<le> n \<Longrightarrow> 0 \<le> isqrt n \<and> isqrt n * isqrt n \<le> n \<and> n < (isqrt n + 1) * (isqrt n + 1)"
proof (induction n rule: isqrt.induct)
  case (1 n)
  show ?case
  proof (cases "n = 0")
    case True
    then show ?thesis by (simp add: isqrt.simps [of 0])
  next
    case False
    define s where "s = isqrt (n div 4)"
    have ih: "0 \<le> s" "s * s \<le> n div 4" "n div 4 < (s + 1) * (s + 1)"
      using "1.IH" "1.prems" False by (simp_all add: s_def)
    have lo: "(2 * s) * (2 * s) \<le> n" using ih(2) by linarith
    have "n div 4 + 1 \<le> (s + 1) * (s + 1)" using ih(3) by simp
    then have "4 * (n div 4 + 1) \<le> (2 * s + 2) * (2 * s + 2)" by (simp add: algebra_simps)
    moreover have "n < 4 * (n div 4 + 1)" by presburger
    ultimately have hi: "n < (2 * s + 2) * (2 * s + 2)" by (rule less_le_trans [rotated])
    have "isqrt n = (if (2 * s + 1) * (2 * s + 1) \<le> n then 2 * s + 1 else 2 * s)"
      using False "1.prems" by (simp add: isqrt.simps [of n] s_def Let_def)
    with lo hi ih(1) show ?thesis by (auto simp: not_le add.assoc)
  qed
qed

text \<open>
  \<open>sqrt_rne q\<close> is \<open>m\<close> units with the root of \<open>q\<close> within half a unit of it, so no
  other multiple of the unit is closer.
\<close>

lemma sqrt_rne_nearest:
  assumes "0 < q"
  obtains m u where "sqrt_rne q = of_int m * 2 powi u" "0 < m"
    "((of_int m - 1 / 2) * 2 powi u)\<^sup>2 \<le> q" "q \<le> ((of_int m + 1 / 2) * 2 powi u)\<^sup>2"
proof -
  define u where "u = ilog2 q div 2 - 52"
  define y where "y = q / 2 powi (2 * u)"
  define s where "s = isqrt \<lfloor>y\<rfloor>"
  define h where "h = (of_int s + 1 / 2) * (of_int s + 1 / 2 :: rat)"
  define m where "m = (if y < h \<or> (y = h \<and> even s) then s else s + 1)"
  have eq: "sqrt_rne q = of_int m * 2 powi u"
    by (simp add: sqrt_rne_def Let_def u_def y_def s_def h_def m_def)
  have sq: "(2 powi u :: rat)\<^sup>2 = 2 powi (2 * u)"
    by (simp add: power2_eq_square powi2_add [symmetric])
  have q: "q = y * (2 powi u)\<^sup>2" by (simp add: y_def sq)
  have "2 powi (2 * u) \<le> (2::rat) powi ilog2 q" by (rule powi2_mono) (simp add: u_def)
  also have "\<dots> \<le> q" using ilog2_bounds [OF assms] by simp
  finally have y1: "1 \<le> y" by (simp add: y_def)
  then have fl: "1 \<le> \<lfloor>y\<rfloor>" by simp
  have b: "s * s \<le> \<lfloor>y\<rfloor>" "\<lfloor>y\<rfloor> < (s + 1) * (s + 1)" and s0: "0 \<le> s"
    using isqrt_bounds [of "\<lfloor>y\<rfloor>"] fl by (simp_all add: s_def)
  have s1: "1 \<le> s"
  proof (rule ccontr)
    assume "\<not> 1 \<le> s"
    with s0 have "s = 0" by simp
    with b fl show False by simp
  qed
  have ylo: "of_int (s * s) \<le> y" using b(1) by (simp only: le_floor_iff)
  have yhi: "y < of_int ((s + 1) * (s + 1))" using b(2) by (simp only: floor_less_iff)
  have lo: "(of_int m - 1 / 2)\<^sup>2 \<le> y"
  proof (cases "m = s")
    case True
    have "(of_int s - 1 / 2 :: rat)\<^sup>2 \<le> (of_int s)\<^sup>2" using s1 by (intro power_mono) auto
    with ylo True show ?thesis by (simp add: power2_eq_square)
  next
    case False
    then have "m = s + 1" "h \<le> y" by (auto simp: m_def split: if_splits)
    then show ?thesis by (simp add: h_def power2_eq_square algebra_simps)
  qed
  have hi: "y \<le> (of_int m + 1 / 2)\<^sup>2"
  proof (cases "m = s")
    case True
    then have "y \<le> h" by (auto simp: m_def split: if_splits)
    with True show ?thesis by (simp add: h_def power2_eq_square)
  next
    case False
    then have m: "m = s + 1" by (auto simp: m_def split: if_splits)
    have "(of_int (s + 1) :: rat)\<^sup>2 \<le> (of_int (s + 1) + 1 / 2)\<^sup>2" using s1 by (intro power_mono) auto
    with yhi m show ?thesis by (simp add: power2_eq_square)
  qed
  have "((of_int m - 1 / 2) * 2 powi u)\<^sup>2 \<le> q" "q \<le> ((of_int m + 1 / 2) * 2 powi u)\<^sup>2"
    using lo hi unfolding q power_mult_distrib by (simp_all add: mult_right_mono)
  moreover have "0 < m" using s1 by (simp add: m_def)
  ultimately show ?thesis using that eq by blast
qed

lemma math_sqrt_nonneg: "0 \<le> x \<Longrightarrow> 0 \<le> math_sqrt x"
proof (cases x)
  case (Fin q)
  assume "0 \<le> x"
  moreover have "0 \<le> sqrt_rne q" if q: "0 < q"
  proof -
    obtain m u where "sqrt_rne q = of_int m * 2 powi u" "0 < m"
      using sqrt_rne_nearest [OF q] by metis
    then show ?thesis by simp
  qed
  ultimately show ?thesis using Fin by auto
qed auto

subsection \<open>Evaluation\<close>

text \<open>Code equations that keep the evaluation of closed terms in integer arithmetic.\<close>

definition pow2 :: "int \<Rightarrow> rat" where
  "pow2 e = 2 powi e"

lemma pow2_code [code]:
  "pow2 e = (if 0 \<le> e then of_int (2 ^ nat e) else 1 / of_int (2 ^ nat (- e)))"
  by (simp add: pow2_def power_int_def power_one_over inverse_eq_divide)

lemma ilog2_code [code]:
  "ilog2 q = (case quotient_of q of (n, d) \<Rightarrow>
     let e = bitlen n - bitlen d in if pow2 e \<le> q then e else e - 1)"
  by (simp add: ilog2_def pow2_def Let_def split: prod.split)

lemma rne_pos_code [code]:
  "rne_pos q = (let u = unit_exp q; n = rhe (q * pow2 (- u)) in of_int n * pow2 u)"
  by (simp add: rne_pos_def pow2_def Let_def power_int_minus divide_inverse)

lemma f64_code [code]:
  "f64 q = (let r = rne q
      in if r \<noteq> 0 \<and> 1024 \<le> ilog2 \<bar>r\<bar> then (if 0 < r then PInf else NInf) else Fin r)"
proof -
  have iff: "1024 \<le> ilog2 p \<longleftrightarrow> 2 ^ 1024 \<le> p" if "0 < p" for p
  proof
    assume "1024 \<le> ilog2 p"
    then have "(2::rat) powi 1024 \<le> 2 powi ilog2 p" by (rule powi2_mono)
    then show "2 ^ 1024 \<le> p" using ilog2_bounds [OF that] by simp
  next
    assume "2 ^ 1024 \<le> p"
    then have "(2::rat) powi 1024 < 2 powi (ilog2 p + 1)" using ilog2_bounds [OF that] by simp
    then show "1024 \<le> ilog2 p" by (simp only: powi2_less_iff)
  qed
  consider "rne q = 0" | "0 < rne q" | "rne q < 0" by linarith
  then show ?thesis
  proof cases
    case 1
    then show ?thesis by (simp add: f64_def)
  next
    case 2
    then show ?thesis using iff [OF 2] by (simp add: f64_def Let_def)
  next
    case 3
    then have "2 ^ 1024 \<le> - rne q \<longleftrightarrow> rne q \<le> - (2 ^ 1024)" by linarith
    with 3 show ?thesis using iff [of "- rne q"] by (simp add: f64_def Let_def)
  qed
qed

lemma sqrt_rne_code [code]:
  "sqrt_rne q =
     (let u = ilog2 q div 2 - 52; y = q * pow2 (- (2 * u)); s = isqrt \<lfloor>y\<rfloor>;
          h = of_int (s * (s + 1)) + 1 / 4;
          m = (if y < h \<or> (y = h \<and> even s) then s else s + 1)
      in of_int m * pow2 u)"
proof -
  have "(of_int s + 1 / 2) * (of_int s + 1 / 2) = (of_int (s * (s + 1)) + 1 / 4 :: rat)" for s
    by (simp add: algebra_simps)
  then show ?thesis
    by (simp only: sqrt_rne_def pow2_def Let_def power_int_minus divide_inverse)
qed

end
