(* ===== verification/Strconv.thy ===== *)
theory Strconv
  imports Float64
begin

text \<open>
  What the configuration parsers use of Go's standard library: \<open>strconv.Atoi\<close>,
  \<open>strconv.ParseInt\<close> for base 10 and 64 bits, and \<open>time.ParseDuration\<close>. The loops follow
  the library's: the position of an error in the string decides which error is reported,
  and unsigned sums wrap around at 64 bits.
\<close>

subsection \<open>Integers\<close>

datatype num_error = ErrSyntax | ErrRange

definition max_uint64 :: int where "max_uint64 = 2 ^ 64 - 1"

definition digit :: "char \<Rightarrow> int" where
  "digit c = of_char c - 48"

definition is_digit :: "char \<Rightarrow> bool" where
  "is_digit c \<longleftrightarrow> 48 \<le> (of_char c :: int) \<and> (of_char c :: int) \<le> 57"

fun parseUintLoop :: "string \<Rightarrow> int \<Rightarrow> num_error + int" where
  "parseUintLoop [] n = Inr n"
| "parseUintLoop (c # s) n =
     (if \<not> is_digit c then Inl ErrSyntax
      else if max_uint64 div 10 + 1 \<le> n then Inl ErrRange
      else if max_uint64 < n * 10 + digit c then Inl ErrRange
      else parseUintLoop s (n * 10 + digit c))"

definition ParseUint :: "string \<Rightarrow> num_error + int" where
  "ParseUint s = (if s = [] then Inl ErrSyntax else parseUintLoop s 0)"

definition splitSign :: "string \<Rightarrow> bool \<times> string" where
  "splitSign s =
     (case s of [] \<Rightarrow> (False, [])
      | c # r \<Rightarrow> if c = CHR ''+'' then (False, r) else if c = CHR ''-'' then (True, r) else (False, s))"

text \<open>The value is returned together with the error: at the end of the range for \<open>ErrRange\<close>.\<close>

definition ParseInt :: "string \<Rightarrow> goint \<times> num_error option" where
  "ParseInt s =
     (if s = [] then (0, Some ErrSyntax)
      else let (neg, digits) = splitSign s
           in case ParseUint digits of
                Inl ErrSyntax \<Rightarrow> (0, Some ErrSyntax)
              | Inl ErrRange \<Rightarrow> (if neg then (- (2 ^ 63), Some ErrRange) else (2 ^ 63 - 1, Some ErrRange))
              | Inr un \<Rightarrow>
                  if \<not> neg \<and> 2 ^ 63 \<le> un then (2 ^ 63 - 1, Some ErrRange)
                  else if neg \<and> 2 ^ 63 < un then (- (2 ^ 63), Some ErrRange)
                  else (if neg then - un else un, None))"

fun atoiLoop :: "string \<Rightarrow> int \<Rightarrow> int option" where
  "atoiLoop [] n = Some n"
| "atoiLoop (c # s) n = (if is_digit c then atoiLoop s (n * 10 + digit c) else None)"

text \<open>\<open>Atoi\<close> has a fast path for strings that cannot overflow.\<close>

definition Atoi :: "string \<Rightarrow> goint \<times> num_error option" where
  "Atoi s =
     (if 0 < length s \<and> length s < 19
      then let (neg, digits) = splitSign s
           in if digits = [] then (0, Some ErrSyntax)
              else (case atoiLoop digits 0 of
                      None \<Rightarrow> (0, Some ErrSyntax)
                    | Some n \<Rightarrow> (if neg then - n else n, None))
      else ParseInt s)"

lemma digit_range: "is_digit c \<Longrightarrow> 0 \<le> digit c \<and> digit c \<le> 9"
  by (simp add: is_digit_def digit_def)

lemma parseUintLoop_small:
  assumes "0 \<le> n" and "n < 10 ^ k" and "k + length s \<le> 19"
  shows "parseUintLoop s n = (case atoiLoop s n of None \<Rightarrow> Inl ErrSyntax | Some m \<Rightarrow> Inr m) \<and>
    (\<forall>m. atoiLoop s n = Some m \<longrightarrow> 0 \<le> m \<and> m < 10 ^ (k + length s))"
  using assms
proof (induction s arbitrary: n k)
  case (Cons c s)
  show ?case
  proof (cases "is_digit c")
    case True
    let ?n = "n * 10 + digit c"
    have n: "0 \<le> ?n" "?n < 10 ^ Suc k" using Cons.prems(1,2) digit_range [OF True] by auto
    have "(10::int) ^ Suc k \<le> 10 ^ 19" using Cons.prems(3) by (intro power_increasing) auto
    then have "?n \<le> max_uint64" "\<not> max_uint64 div 10 + 1 \<le> n"
      using n Cons.prems(2) by (simp_all add: max_uint64_def)
    then show ?thesis using Cons.IH [OF n] Cons.prems(3) True by simp
  qed simp
qed simp

lemma atoi_fast_path:
  assumes "length s < 19"
  shows "ParseUint s = (if s = [] then Inl ErrSyntax
      else case atoiLoop s 0 of None \<Rightarrow> Inl ErrSyntax | Some m \<Rightarrow> Inr m)"
    and "atoiLoop s 0 = Some m \<Longrightarrow> 0 \<le> m \<and> m < 2 ^ 63"
proof -
  have l: "parseUintLoop s 0 = (case atoiLoop s 0 of None \<Rightarrow> Inl ErrSyntax | Some m \<Rightarrow> Inr m)"
    "\<And>m. atoiLoop s 0 = Some m \<Longrightarrow> 0 \<le> m \<and> m < 10 ^ length s"
    using parseUintLoop_small [of 0 0 s] assms by auto
  then show "ParseUint s = (if s = [] then Inl ErrSyntax
      else case atoiLoop s 0 of None \<Rightarrow> Inl ErrSyntax | Some m \<Rightarrow> Inr m)"
    by (simp add: ParseUint_def)
  have "(10::int) ^ length s \<le> 10 ^ 18" using assms by (intro power_increasing) auto
  then show "0 \<le> m \<and> m < 2 ^ 63" if "atoiLoop s 0 = Some m" using l(2) [OF that] by simp
qed

text \<open>The fast path is an optimisation: \<open>Atoi\<close> and \<open>ParseInt\<close> agree.\<close>

lemma Atoi_ParseInt: "Atoi s = ParseInt s"
proof (cases "0 < length s \<and> length s < 19")
  case True
  obtain neg digits where sp: "splitSign s = (neg, digits)" by (metis prod.collapse)
  then have "length digits \<le> length s" by (auto simp: splitSign_def split: list.splits if_splits)
  then have "length digits < 19" using True by linarith
  note f = atoi_fast_path [OF this]
  show ?thesis
    using True sp f(2)
    by (cases "atoiLoop digits 0") (auto simp: Atoi_def ParseInt_def f(1) split: if_splits)
next
  case False
  then show ?thesis by (simp only: Atoi_def if_False)
qed

subsection \<open>Decimal notation\<close>

fun dec :: "nat \<Rightarrow> string" where
  "dec n = (if n < 10 then [char_of (n + 48)] else dec (n div 10) @ [char_of (n mod 10 + 48)])"

declare dec.simps [simp del]

lemma of_char_digit: "n < 10 \<Longrightarrow> (of_char (char_of (n + 48 :: nat)) :: int) = int n + 48"
proof -
  assume n: "n < 10"
  have "(of_char (char_of (n + 48 :: nat)) :: int) = int (of_char (char_of (n + 48 :: nat)))"
    by (simp only: of_nat_of_char)
  also have "(of_char (char_of (n + 48 :: nat)) :: nat) = n + 48" using n by simp
  finally show ?thesis by simp
qed

lemma digit_char: "n < 10 \<Longrightarrow> is_digit (char_of (n + 48)) \<and> digit (char_of (n + 48)) = int n"
  by (simp add: is_digit_def digit_def of_char_digit)

lemma dec_digits: "list_all is_digit (dec n) \<and> dec n \<noteq> []"
proof (induction n rule: dec.induct)
  case (1 n)
  then show ?case using digit_char [of n] digit_char [of "n mod 10"] by (subst (1 2) dec.simps) simp
qed

definition decimal_value :: "string \<Rightarrow> int \<Rightarrow> int" where
  "decimal_value s n = foldl (\<lambda>a c. a * 10 + digit c) n s"

lemma decimal_value_ge: "list_all is_digit s \<Longrightarrow> 0 \<le> n \<Longrightarrow> n \<le> decimal_value s n"
proof (induction s arbitrary: n)
  case (Cons c s)
  then have "0 \<le> n * 10 + digit c" using digit_range [of c] by simp
  with Cons have "n * 10 + digit c \<le> decimal_value s (n * 10 + digit c)" by simp
  then show ?case using Cons.prems digit_range [of c] by (simp add: decimal_value_def)
qed (simp add: decimal_value_def)

lemma decimal_value_dec: "decimal_value (dec n) 0 = int n"
proof (induction n rule: dec.induct)
  case (1 n)
  show ?case
  proof (cases "n < 10")
    case True
    then show ?thesis using digit_char [of n] by (subst dec.simps) (simp add: decimal_value_def)
  next
    case False
    have "decimal_value (dec n) 0 = decimal_value (dec (n div 10)) 0 * 10 + int (n mod 10)"
      using False digit_char [of "n mod 10"] by (subst dec.simps) (simp add: decimal_value_def)
    also have "decimal_value (dec (n div 10)) 0 = int (n div 10)" using 1 False by simp
    also have "int (n div 10) * 10 + int (n mod 10) = int (n div 10 * 10 + n mod 10)"
      by (simp only: of_nat_add of_nat_mult of_nat_numeral)
    finally show ?thesis by simp
  qed
qed

lemma parseUintLoop_value:
  assumes "list_all is_digit s" and "0 \<le> n" and "decimal_value s n \<le> max_uint64"
  shows "parseUintLoop s n = Inr (decimal_value s n)"
  using assms
proof (induction s arbitrary: n)
  case (Cons c s)
  let ?n = "n * 10 + digit c"
  have d: "is_digit c" "0 \<le> ?n" using Cons.prems digit_range [of c] by auto
  have v: "decimal_value s ?n \<le> max_uint64" using Cons.prems(3) by (simp add: decimal_value_def)
  have "?n \<le> decimal_value s ?n" using Cons.prems(1) d(2) by (intro decimal_value_ge) simp_all
  then have "?n \<le> max_uint64" using v by simp
  then have "\<not> max_uint64 div 10 + 1 \<le> n" using digit_range [OF d(1)] by (simp add: max_uint64_def)
  with Cons.IH [OF _ d(2) v] Cons.prems(1) d(1) \<open>?n \<le> max_uint64\<close> show ?case
    by (simp add: decimal_value_def)
qed (simp add: decimal_value_def)

lemma parseUintLoop_large:
  assumes "list_all is_digit s" and "n \<le> max_uint64" and "max_uint64 < decimal_value s n"
  shows "parseUintLoop s n = Inl ErrRange"
  using assms
proof (induction s arbitrary: n)
  case (Cons c s)
  then show ?case by (cases "max_uint64 < n * 10 + digit c") (simp_all add: decimal_value_def)
qed (simp add: decimal_value_def)

lemma splitSign_digits: "list_all is_digit s \<Longrightarrow> splitSign s = (False, s)"
  by (cases s) (auto simp: splitSign_def is_digit_def)

lemma ParseInt_dec:
  assumes "int n < 2 ^ 63"
  shows "ParseInt (dec n) = (int n, None)"
proof -
  have "parseUintLoop (dec n) 0 = Inr (int n)"
    using parseUintLoop_value [of "dec n" 0] dec_digits [of n] assms
    by (simp add: decimal_value_dec max_uint64_def)
  then show ?thesis
    using dec_digits [of n] splitSign_digits [of "dec n"] assms by (simp add: ParseInt_def ParseUint_def)
qed

subsection \<open>Durations\<close>

datatype duration_error = InvalidDuration | MissingUnit | UnknownUnit string

definition two63 :: int where "two63 = 2 ^ 63"

fun leadingInt :: "string \<Rightarrow> int \<Rightarrow> (int \<times> string) option" where
  "leadingInt [] x = Some (x, [])"
| "leadingInt (c # s) x =
     (if \<not> is_digit c then Some (x, c # s)
      else if two63 div 10 < x then None
      else if two63 < x * 10 + digit c then None
      else leadingInt s (x * 10 + digit c))"

text \<open>Digits beyond the precision are skipped; the scale is a float64.\<close>

fun leadingFraction :: "string \<Rightarrow> int \<Rightarrow> float64 \<Rightarrow> bool \<Rightarrow> int \<times> float64 \<times> string" where
  "leadingFraction [] x scale overflow = (x, scale, [])"
| "leadingFraction (c # s) x scale overflow =
     (if \<not> is_digit c then (x, scale, c # s)
      else if overflow then leadingFraction s x scale True
      else if (two63 - 1) div 10 < x then leadingFraction s x scale True
      else if two63 < x * 10 + digit c then leadingFraction s x scale True
      else leadingFraction s (x * 10 + digit c) (scale * Fin 10) False)"

definition unitMap :: "(string \<times> int) list" where
  "unitMap =
     [(''ns'', 1), (''us'', 1000), ([char_of (194::nat), char_of (181::nat), CHR ''s''], 1000),
      ([char_of (206::nat), char_of (188::nat), CHR ''s''], 1000),
      (''ms'', 1000000), (''s'', 1000000000), (''m'', 60000000000), (''h'', 3600000000000)]"

definition is_unit_char :: "char \<Rightarrow> bool" where
  "is_unit_char c \<longleftrightarrow> \<not> (c = CHR ''.'' \<or> is_digit c)"

definition u64_of :: "float64 \<Rightarrow> int" where
  "u64_of x = (case f64_to_u64 x of Some w \<Rightarrow> uint w | None \<Rightarrow> 0)"

text \<open>The fraction after a leading period: its digits, the scale, the rest, and whether there were digits.\<close>

definition fractionPart :: "string \<Rightarrow> int \<times> float64 \<times> string \<times> bool" where
  "fractionPart s =
     (if s \<noteq> [] \<and> hd s = CHR ''.''
      then let (f, scale, r) = leadingFraction (tl s) 0 1 False in (f, scale, r, length (tl s) \<noteq> length r)
      else (0, 1, s, False))"

definition durationNumber :: "string \<Rightarrow> (int \<times> int \<times> float64 \<times> string) option" where
  "durationNumber s =
     (if \<not> (hd s = CHR ''.'' \<or> is_digit (hd s)) then None
      else case leadingInt s 0 of
        None \<Rightarrow> None
      | Some (v, s1) \<Rightarrow>
          let pre = (length s \<noteq> length s1); (f, scale, s2, post) = fractionPart s1
          in if \<not> pre \<and> \<not> post then None else Some (v, f, scale, s2))"

definition durationValue :: "int \<Rightarrow> int \<Rightarrow> int \<Rightarrow> float64 \<Rightarrow> int option" where
  "durationValue unit v f scale =
     (if two63 div unit < v then None
      else let v = v * unit
           in if 0 < f
              then let v = (v + u64_of (f64_of_int f * (f64_of_int unit / scale))) mod 2 ^ 64
                   in if two63 < v then None else Some v
              else Some v)"

text \<open>One number with its unit: its value in nanoseconds and the rest of the string.\<close>

definition durationPart :: "string \<Rightarrow> duration_error + (int \<times> string)" where
  "durationPart s =
     (case durationNumber s of
        None \<Rightarrow> Inl InvalidDuration
      | Some (v, f, scale, r) \<Rightarrow>
          let u = takeWhile is_unit_char r
          in if u = [] then Inl MissingUnit
             else (case map_of unitMap u of
                     None \<Rightarrow> Inl (UnknownUnit u)
                   | Some unit \<Rightarrow>
                       (case durationValue unit v f scale of
                          None \<Rightarrow> Inl InvalidDuration
                        | Some d \<Rightarrow> Inr (d, dropWhile is_unit_char r))))"

lemma leadingInt_length: "leadingInt s x = Some (v, r) \<Longrightarrow> length r \<le> length s"
  by (induction s arbitrary: x) (fastforce split: if_splits)+

lemma leadingFraction_length: "leadingFraction s x sc ov = (f, sc', r) \<Longrightarrow> length r \<le> length s"
  by (induction s arbitrary: x sc ov) (fastforce split: if_splits)+

lemma fractionPart_length: "fractionPart s = (f, sc, r, post) \<Longrightarrow> length r \<le> length s"
  using leadingFraction_length [of "tl s" 0 1 False]
  by (fastforce simp: fractionPart_def split: if_splits prod.splits)

lemma durationNumber_length: "durationNumber s = Some (v, f, sc, r) \<Longrightarrow> length r \<le> length s"
  by (auto simp: durationNumber_def Let_def split: if_splits option.splits prod.splits
      dest!: leadingInt_length fractionPart_length)

lemma durationPart_length:
  assumes "durationPart s = Inr (v, r)"
  shows "length r < length s"
proof -
  obtain w f sc r' where n: "durationNumber s = Some (w, f, sc, r')"
    using assms by (auto simp: durationPart_def split: option.splits)
  have "takeWhile is_unit_char r' \<noteq> []" "r = dropWhile is_unit_char r'"
    using assms n by (auto simp: durationPart_def Let_def split: option.splits if_splits)
  moreover have "length r' = length (takeWhile is_unit_char r') + length (dropWhile is_unit_char r')"
    by (metis length_append takeWhile_dropWhile_id)
  ultimately show ?thesis using durationNumber_length [OF n] by (cases "takeWhile is_unit_char r'") auto
qed

function durationLoop :: "string \<Rightarrow> int \<Rightarrow> duration_error + int" where
  "durationLoop s d =
     (if s = [] then Inr d
      else case durationPart s of
        Inl e \<Rightarrow> Inl e
      | Inr (v, s) \<Rightarrow>
          let d = (d + v) mod 2 ^ 64
          in if two63 < d then Inl InvalidDuration else durationLoop s d)"
  by pat_completeness auto
termination
  by (relation "measure (length \<circ> fst)") (auto dest: durationPart_length)

declare durationLoop.simps [simp del]

definition ParseDuration :: "string \<Rightarrow> duration_error + duration" where
  "ParseDuration s =
     (let (neg, s) = splitSign s
      in if s = ''0'' then Inr 0
         else if s = [] then Inl InvalidDuration
         else case durationLoop s 0 of
           Inl e \<Rightarrow> Inl e
         | Inr d \<Rightarrow>
             if neg then Inr (wrap64 (- wrap64 d))
             else if two63 - 1 < d then Inl InvalidDuration else Inr d)"

subsection \<open>Reading back decimal numbers and durations\<close>

lemma leadingInt_value:
  assumes "list_all is_digit s" and "0 \<le> n" and "decimal_value s n \<le> two63"
    and "r = [] \<or> \<not> is_digit (hd r)"
  shows "leadingInt (s @ r) n = Some (decimal_value s n, r)"
  using assms(1-3)
proof (induction s arbitrary: n)
  case Nil
  then show ?case using assms(4) by (cases r) (simp_all add: decimal_value_def)
next
  case (Cons c s)
  let ?n = "n * 10 + digit c"
  have d: "is_digit c" "0 \<le> ?n" using Cons.prems digit_range [of c] by auto
  have v: "decimal_value s ?n \<le> two63" using Cons.prems(3) by (simp add: decimal_value_def)
  have "?n \<le> decimal_value s ?n" using Cons.prems(1) d(2) by (intro decimal_value_ge) simp_all
  then have "?n \<le> two63" using v by simp
  then have "\<not> two63 div 10 < n" using digit_range [OF d(1)] by (simp add: two63_def)
  with Cons.IH [OF _ d(2) v] Cons.prems(1) d(1) \<open>?n \<le> two63\<close> show ?case
    by (simp add: decimal_value_def)
qed

lemma unitMap_chars:
  assumes "(u, k) \<in> set unitMap"
  shows "list_all is_unit_char u" and "u \<noteq> []" and "hd u \<noteq> CHR ''.''" and "\<not> is_digit (hd u)" and "0 < k"
    and "map_of unitMap u = Some k"
proof -
  have "list_all (\<lambda>(u, k). list_all is_unit_char u \<and> u \<noteq> [] \<and> hd u \<noteq> CHR ''.'' \<and> \<not> is_digit (hd u) \<and> 0 < k \<and>
      map_of unitMap u = Some k) unitMap"
    by code_simp
  then show "list_all is_unit_char u" "u \<noteq> []" "hd u \<noteq> CHR ''.''" "\<not> is_digit (hd u)" "0 < k"
    "map_of unitMap u = Some k"
    using assms by (auto simp: list_all_iff)
qed

lemma dec_hd: "is_digit (hd (dec n @ r))"
  using dec_digits [of n] by (cases "dec n") auto

lemma durationPart_dec:
  assumes "(u, k) \<in> set unitMap" and "int n * k \<le> two63" and "r = [] \<or> is_digit (hd r)"
  shows "durationPart (dec n @ u @ r) = Inr (int n * k, r)"
proof -
  note u = unitMap_chars [OF assms(1)]
  have le: "int n \<le> two63 div k" using zdiv_mono1 [OF assms(2) u(5)] u(5) by simp
  have "int n * 1 \<le> int n * k" using u(5) by (intro mult_left_mono) simp_all
  then have "decimal_value (dec n) 0 \<le> two63" using assms(2) by (simp add: decimal_value_dec)
  moreover have "\<not> is_digit (hd (u @ r))" using u(2,4) by (cases u) auto
  ultimately have "leadingInt (dec n @ u @ r) 0 = Some (int n, u @ r)"
    using leadingInt_value [of "dec n" 0 "u @ r"] dec_digits [of n] by (simp add: decimal_value_dec)
  moreover have "fractionPart (u @ r) = (0, 1, u @ r, False)"
    using u(2,3) by (cases u) (simp_all add: fractionPart_def)
  moreover have "length (dec n @ u @ r) \<noteq> length (u @ r)" using dec_digits [of n] by simp
  ultimately have num: "durationNumber (dec n @ u @ r) = Some (int n, 0, 1, u @ r)"
    using dec_hd [of n "u @ r"] by (simp add: durationNumber_def Let_def)
  have stop: "r = [] \<or> \<not> is_unit_char (hd r)" using assms(3) by (auto simp: is_unit_char_def)
  have "takeWhile is_unit_char (u @ r) = u" "dropWhile is_unit_char (u @ r) = r"
    using u(1) stop by (cases r; simp add: list_all_iff takeWhile_append2 dropWhile_append2)+
  then show ?thesis using num u(2,6) le by (simp add: durationPart_def durationValue_def Let_def)
qed

text \<open>A list of numbers with their units, written one after the other.\<close>

definition show_parts :: "(nat \<times> string \<times> int) list \<Rightarrow> string" where
  "show_parts ps = concat (map (\<lambda>(n, u, k). dec n @ u) ps)"

definition parts_value :: "(nat \<times> string \<times> int) list \<Rightarrow> int" where
  "parts_value ps = sum_list (map (\<lambda>(n, u, k). int n * k) ps)"

definition parts_ok :: "(nat \<times> string \<times> int) list \<Rightarrow> bool" where
  "parts_ok ps \<longleftrightarrow> (\<forall>(n, u, k) \<in> set ps. (u, k) \<in> set unitMap)"

lemma parts_value_nonneg: "parts_ok ps \<Longrightarrow> 0 \<le> parts_value ps"
  unfolding parts_value_def parts_ok_def
  by (intro sum_list_nonneg) (fastforce dest: unitMap_chars(5))

lemma durationLoop_parts:
  assumes "parts_ok ps" and "0 \<le> d" and "d + parts_value ps \<le> two63"
  shows "durationLoop (show_parts ps) d = Inr (d + parts_value ps)"
  using assms
proof (induction ps arbitrary: d)
  case Nil
  then show ?case by (simp add: show_parts_def parts_value_def durationLoop.simps [of "[]"])
next
  case (Cons p ps)
  obtain n u k where p: "p = (n, u, k)" by (metis prod_cases3)
  have uk: "(u, k) \<in> set unitMap" and ok: "parts_ok ps" using Cons.prems(1) by (simp_all add: p parts_ok_def)
  have v: "parts_value (p # ps) = int n * k + parts_value ps" by (simp add: parts_value_def p)
  have nonneg: "0 \<le> int n * k" "0 \<le> parts_value ps"
    using unitMap_chars(5) [OF uk] parts_value_nonneg [OF ok] by simp_all
  have rest: "show_parts ps = [] \<or> is_digit (hd (show_parts ps))"
    using dec_hd by (cases ps) (auto simp: show_parts_def split: prod.splits)
  have bound: "int n * k \<le> two63" using Cons.prems(2,3) v nonneg by linarith
  have part: "durationPart (show_parts (p # ps)) = Inr (int n * k, show_parts ps)"
    using durationPart_dec [OF uk bound rest] by (simp add: show_parts_def p)
  have "d + int n * k \<le> two63" using Cons.prems(3) v nonneg by linarith
  moreover from this have "(d + int n * k) mod 2 ^ 64 = d + int n * k"
    using Cons.prems(2) nonneg by (intro mod_pos_pos_trivial) (simp_all add: two63_def)
  moreover have "show_parts (p # ps) \<noteq> []" using dec_digits [of n] by (simp add: show_parts_def p)
  ultimately show ?case
    using Cons.IH [OF ok, of "d + int n * k"] Cons.prems(2,3) v nonneg part
    by (subst durationLoop.simps) (simp add: Let_def algebra_simps)
qed

lemma splitSign_parts: "ps \<noteq> [] \<Longrightarrow> splitSign (show_parts ps) = (False, show_parts ps)"
proof -
  assume "ps \<noteq> []"
  then obtain n u k qs where ps: "ps = (n, u, k) # qs" by (metis list.exhaust prod_cases3)
  then obtain c r where "show_parts ps = c # r" "is_digit c"
    using dec_digits [of n] by (cases "dec n") (auto simp: show_parts_def)
  then show ?thesis by (auto simp: splitSign_def is_digit_def)
qed

lemma ParseDuration_parts:
  assumes "parts_ok ps" and "ps \<noteq> []" and "parts_value ps < two63"
  shows "ParseDuration (show_parts ps) = Inr (parts_value ps)"
proof -
  obtain n u k qs where ps: "ps = (n, u, k) # qs" using assms(2) by (metis list.exhaust prod_cases3)
  then have uk: "(u, k) \<in> set unitMap" using assms(1) by (simp add: parts_ok_def)
  obtain c r where c: "dec n = c # r" "is_digit c" using dec_digits [of n] by (cases "dec n") auto
  have "show_parts ps \<noteq> ''0''" "show_parts ps \<noteq> []"
    using unitMap_chars(2) [OF uk] c by (auto simp: ps show_parts_def)
  then show ?thesis
    using assms splitSign_parts [OF assms(2)] durationLoop_parts [OF assms(1), of 0]
    by (simp add: ParseDuration_def)
qed

lemma parseUintLoop_stop:
  assumes "list_all is_digit s" and "0 \<le> n" and "decimal_value s n \<le> max_uint64" and "\<not> is_digit c"
  shows "parseUintLoop (s @ c # r) n = Inl ErrSyntax"
  using assms(1-3)
proof (induction s arbitrary: n)
  case (Cons b s)
  let ?n = "n * 10 + digit b"
  have d: "is_digit b" "0 \<le> ?n" using Cons.prems digit_range [of b] by auto
  have v: "decimal_value s ?n \<le> max_uint64" using Cons.prems(3) by (simp add: decimal_value_def)
  have "?n \<le> decimal_value s ?n" using Cons.prems(1) d(2) by (intro decimal_value_ge) simp_all
  then have "?n \<le> max_uint64" using v by simp
  then have "\<not> max_uint64 div 10 + 1 \<le> n" using digit_range [OF d(1)] by (simp add: max_uint64_def)
  with Cons.IH [OF _ d(2) v] Cons.prems(1) d(1) \<open>?n \<le> max_uint64\<close> show ?case by simp
qed (use assms(4) in simp)

lemma ParseInt_parts:
  assumes "parts_ok ps" and "ps \<noteq> []" and "parts_value ps < two63"
  shows "ParseInt (show_parts ps) = (0, Some ErrSyntax)"
proof -
  obtain n u k qs where ps: "ps = (n, u, k) # qs" using assms(2) by (metis list.exhaust prod_cases3)
  have uk: "(u, k) \<in> set unitMap" and qs: "parts_ok qs" using assms(1) by (simp_all add: ps parts_ok_def)
  have "int n * 1 \<le> int n * k" using unitMap_chars(5) [OF uk] by (intro mult_left_mono) simp_all
  then have "decimal_value (dec n) 0 \<le> max_uint64"
    using assms(3) parts_value_nonneg [OF qs] by (simp add: ps parts_value_def decimal_value_dec max_uint64_def two63_def)
  moreover obtain c r where "u = c # r" "\<not> is_digit c" using unitMap_chars(2,4) [OF uk] by (cases u) auto
  ultimately have "parseUintLoop (show_parts ps) 0 = Inl ErrSyntax"
    using parseUintLoop_stop [of "dec n" 0 c "r @ show_parts qs"] dec_digits [of n]
    by (simp add: ps show_parts_def)
  moreover have "show_parts ps \<noteq> []" using dec_digits [of n] by (simp add: ps show_parts_def)
  ultimately show ?thesis using splitSign_parts [OF assms(2)] by (simp add: ParseInt_def ParseUint_def)
qed

lemma parseUintLoop_nonneg: "0 \<le> n \<Longrightarrow> parseUintLoop s n = Inr m \<Longrightarrow> 0 \<le> m"
proof (induction s arbitrary: n)
  case (Cons c s)
  have "0 \<le> n * 10 + digit c" if "is_digit c" using Cons.prems(1) digit_range [OF that] by simp
  then show ?case using Cons.prems(2) by (auto split: if_splits intro: Cons.IH)
qed simp

lemma ParseInt_range: "in_int64 (fst (ParseInt s))"
proof -
  have "ParseUint t = Inr m \<Longrightarrow> 0 \<le> m" for t m
    using parseUintLoop_nonneg [of 0 t m] by (simp add: ParseUint_def split: if_splits)
  then show ?thesis
    by (fastforce simp: ParseInt_def in_int64_def Let_def split: prod.splits sum.splits num_error.splits)
qed

end
