(* ===== verification/Http.thy ===== *)
theory Http
  imports Strconv
begin

text \<open>
  src/httputil: the error writer and the response writer that records status and size, on a
  model of what the handlers use of \<open>net/http\<close>: canonical header keys, the headers of a
  request or response, and the response writer of the HTTP/1 server.

  Panics. A handler runs on a state that survives a panic (what was written, what was
  cached), so a computation returns an \<open>outcome\<close> with the state it reached.

  The interface. \<open>http.ResponseWriter\<close> is the record \<open>writer\<close> of its methods over a state
  \<open>'w\<close>; the optional methods found by type assertion are options. The locale
  \<open>response_writer\<close> states what the documentation of \<open>net/http\<close> promises; the server's writer
  and every intercepted writer provide it.
\<close>

subsection \<open>Computations that may panic\<close>

datatype 'a outcome = Done 'a | Panics string

definition then_do :: "'a outcome \<times> 's \<Rightarrow> ('a \<Rightarrow> 's \<Rightarrow> 'b outcome \<times> 's) \<Rightarrow> 'b outcome \<times> 's" where
  "then_do r f = (case r of (Done a, s) \<Rightarrow> f a s | (Panics m, s) \<Rightarrow> (Panics m, s))"

lemma then_do_simps [simp]:
  "then_do (Done a, s) f = f a s" "then_do (Panics m, s) f = (Panics m, s)"
  by (simp_all add: then_do_def)

lemma then_do_assoc: "then_do (then_do r f) g = then_do r (\<lambda>a s. then_do (f a s) g)"
  by (cases r; cases "fst r") (auto simp: then_do_def)

subsection \<open>Headers\<close>

type_synonym header = "string \<rightharpoonup> string list"

definition between :: "char \<Rightarrow> char \<Rightarrow> char \<Rightarrow> bool" where
  "between lo c hi \<longleftrightarrow> (of_char lo :: nat) \<le> of_char c \<and> (of_char c :: nat) \<le> of_char hi"

definition is_lower :: "char \<Rightarrow> bool" where "is_lower c = between (CHR ''a'') c (CHR ''z'')"

definition is_upper :: "char \<Rightarrow> bool" where "is_upper c = between (CHR ''A'') c (CHR ''Z'')"

definition is_alnum :: "char \<Rightarrow> bool" where
  "is_alnum c \<longleftrightarrow> is_lower c \<or> is_upper c \<or> between (CHR ''0'') c (CHR ''9'')"

definition to_upper :: "char \<Rightarrow> char" where
  "to_upper c = (if is_lower c then char_of (of_char c - 32 :: nat) else c)"

definition to_lower :: "char \<Rightarrow> char" where
  "to_lower c = (if is_upper c then char_of (of_char c + 32 :: nat) else c)"

definition validHeaderFieldByte :: "char \<Rightarrow> bool" where
  "validHeaderFieldByte c \<longleftrightarrow> is_alnum c \<or> c \<in> set (''!#$%&'' @ [CHR 0x27] @ ''*+-.^_`|~'')"

fun canonicalLoop :: "bool \<Rightarrow> string \<Rightarrow> string" where
  "canonicalLoop upper [] = []"
| "canonicalLoop upper (c # s) =
     (let c = (if upper then to_upper c else to_lower c) in c # canonicalLoop (c = CHR ''-'') s)"

definition CanonicalHeaderKey :: "string \<Rightarrow> string" where
  "CanonicalHeaderKey s = (if list_all validHeaderFieldByte s then canonicalLoop True s else s)"

definition header_Values :: "header \<Rightarrow> string \<Rightarrow> string list" where
  "header_Values h k = (case h (CanonicalHeaderKey k) of None \<Rightarrow> [] | Some vs \<Rightarrow> vs)"

definition header_Get :: "header \<Rightarrow> string \<Rightarrow> string" where
  "header_Get h k = (case header_Values h k of [] \<Rightarrow> [] | v # _ \<Rightarrow> v)"

definition header_Set :: "string \<Rightarrow> string \<Rightarrow> header \<Rightarrow> header" where
  "header_Set k v h = h(CanonicalHeaderKey k \<mapsto> [v])"

definition header_Add :: "string \<Rightarrow> string \<Rightarrow> header \<Rightarrow> header" where
  "header_Add k v h = h(CanonicalHeaderKey k \<mapsto> header_Values h k @ [v])"

definition header_Del :: "string \<Rightarrow> header \<Rightarrow> header" where
  "header_Del k h = h(CanonicalHeaderKey k := None)"

lemma header_Get_Set: "header_Get (header_Set k v h) k' =
    (if CanonicalHeaderKey k = CanonicalHeaderKey k' then v else header_Get h k')"
  by (simp add: header_Get_def header_Set_def header_Values_def)

lemma canonical_keys [simp]:
  "CanonicalHeaderKey ''Content-Type'' = ''Content-Type''"
  "CanonicalHeaderKey ''Content-Length'' = ''Content-Length''"
  "CanonicalHeaderKey ''X-Content-Type-Options'' = ''X-Content-Type-Options''"
  "CanonicalHeaderKey ''X-OpenFaaS-Internal'' = ''X-Openfaas-Internal''"
  "CanonicalHeaderKey ''X-Forwarded-Host'' = ''X-Forwarded-Host''"
  "CanonicalHeaderKey ''X-Forwarded-For'' = ''X-Forwarded-For''"
  "CanonicalHeaderKey ''WWW-Authenticate'' = ''Www-Authenticate''"
  "CanonicalHeaderKey ''Authorization'' = ''Authorization''"
  "CanonicalHeaderKey ''Accept'' = ''Accept''"
  "CanonicalHeaderKey ''Upgrade'' = ''Upgrade''"
  "CanonicalHeaderKey ''Connection'' = ''Connection''"
  "CanonicalHeaderKey ''Transfer-Encoding'' = ''Transfer-Encoding''"
  by code_simp+

subsection \<open>Response writers\<close>

datatype write_error = ErrHijacked | ErrBodyNotAllowed | ErrContentLength

record 'w writer =
  w_header :: "'w \<Rightarrow> header"
  w_set_header :: "header \<Rightarrow> 'w \<Rightarrow> 'w"
  w_write :: "string \<Rightarrow> 'w \<Rightarrow> (goint \<times> write_error option) outcome \<times> 'w"
  w_write_header :: "int \<Rightarrow> 'w \<Rightarrow> unit outcome \<times> 'w"
  w_flusher :: "('w \<Rightarrow> unit outcome \<times> 'w) option"
  w_hijacker :: "('w \<Rightarrow> bool outcome \<times> 'w) option"
  w_close_notifier :: "('w \<Rightarrow> bool) option"

text \<open>
  \<open>Header()\<close> returns the live map; \<open>w_set_header\<close> is a mutation of it. \<open>CloseNotify\<close> is given
  by whether the channel it returns is not nil, \<open>Hijack\<close> by whether it succeeded.
\<close>

definition bodyAllowed :: "int \<Rightarrow> bool" where
  "bodyAllowed status \<longleftrightarrow> \<not> (100 \<le> status \<and> status \<le> 199) \<and> status \<noteq> 204 \<and> status \<noteq> 304"

definition contentLimit :: "header \<Rightarrow> int option" where
  "contentLimit h =
     (let cl = header_Get h ''Content-Length''
      in if cl = [] then None
         else let (v, err) = ParseInt cl in if err = None \<and> 0 \<le> v then Some v else None)"

text \<open>
  The writer of the HTTP/1 server: the header map of the handler, the status and header as
  sent, the bytes of the body, the bytes offered so far, and whether it was hijacked.
\<close>

record server_writer =
  sw_header :: header
  sw_sent :: "(int \<times> header) option"
  sw_body :: string
  sw_written :: int
  sw_hijacked :: bool

definition newResponse :: server_writer where
  "newResponse = \<lparr>sw_header = (\<lambda>_. None), sw_sent = None, sw_body = [], sw_written = 0, sw_hijacked = False\<rparr>"

definition sw_WriteHeader :: "int \<Rightarrow> server_writer \<Rightarrow> unit outcome \<times> server_writer" where
  "sw_WriteHeader code w =
     (if sw_hijacked w \<or> sw_sent w \<noteq> None then (Done (), w)
      else if code < 100 \<or> 999 < code then (Panics ''invalid WriteHeader code'', w)
      else if code \<le> 199 \<and> code \<noteq> 101 then (Done (), w)
      else (Done (), w\<lparr>sw_sent := Some (code, sw_header w)\<rparr>))"

definition sw_WriteData :: "string \<Rightarrow> server_writer \<Rightarrow> (goint \<times> write_error option) outcome \<times> server_writer" where
  "sw_WriteData data w =
     (case sw_sent w of
        None \<Rightarrow> (Done (0, None), w)
      | Some (code, h) \<Rightarrow>
          if data = [] then (Done (0, None), w)
          else if \<not> bodyAllowed code then (Done (0, Some ErrBodyNotAllowed), w)
          else let w = w\<lparr>sw_written := sw_written w + int (length data)\<rparr>
               in case contentLimit h of
                    Some n \<Rightarrow>
                      if n < sw_written w then (Done (0, Some ErrContentLength), w)
                      else (Done (int (length data), None), w\<lparr>sw_body := sw_body w @ data\<rparr>)
                  | None \<Rightarrow> (Done (int (length data), None), w\<lparr>sw_body := sw_body w @ data\<rparr>))"

definition sw_Write :: "string \<Rightarrow> server_writer \<Rightarrow> (goint \<times> write_error option) outcome \<times> server_writer" where
  "sw_Write data w =
     (if sw_hijacked w then (Done (0, Some ErrHijacked), w)
      else then_do (sw_WriteHeader 200 w) (\<lambda>_. sw_WriteData data))"

definition sw_Flush :: "server_writer \<Rightarrow> unit outcome \<times> server_writer" where
  "sw_Flush w = sw_WriteHeader 200 w"

definition server_ops :: "server_writer writer" where
  "server_ops =
     \<lparr>w_header = sw_header, w_set_header = (\<lambda>h w. w\<lparr>sw_header := h\<rparr>), w_write = sw_Write,
      w_write_header = sw_WriteHeader, w_flusher = Some sw_Flush,
      w_hijacker = Some (\<lambda>w. (Done (\<not> sw_hijacked w), w\<lparr>sw_hijacked := True\<rparr>)),
      w_close_notifier = Some (\<lambda>w. True)\<rparr>"

subsection \<open>Strings and error responses\<close>

text \<open>\<open>strings.Cut\<close> at the first separator.\<close>

fun cut :: "char \<Rightarrow> string \<Rightarrow> (string \<times> string) option" where
  "cut sep [] = None"
| "cut sep (c # s) = (if c = sep then Some ([], s) else map_option (apfst ((#) c)) (cut sep s))"

lemma cut_Some_iff: "cut sep s = Some (a, b) \<longleftrightarrow> s = a @ sep # b \<and> sep \<notin> set a"
proof (induction s arbitrary: a)
  case (Cons c s)
  show ?case
  proof (cases a)
    case Nil
    then show ?thesis by (auto simp: apfst_def map_prod_def split: prod.splits)
  next
    case (Cons a0 a1)
    with Cons.IH [of a1] show ?thesis by (auto simp: apfst_def map_prod_def split: prod.splits)
  qed
qed simp

text \<open>\<open>fmt.Sprintf\<close> for string arguments and verbs without flags.\<close>

fun Sprintf :: "string \<Rightarrow> string list \<Rightarrow> string" where
  "Sprintf [] [] = []"
| "Sprintf [] (a # as) = ''%!(EXTRA '' @ concat (map (\<lambda>s. ''string='' @ s @ '', '') (butlast (a # as)))
     @ ''string='' @ last (a # as) @ '')''"
| "Sprintf (c # s) as =
     (if c \<noteq> CHR ''%'' then c # Sprintf s as
      else case s of
             [] \<Rightarrow> ''%!(NOVERB)'' @ Sprintf [] as
           | v # r \<Rightarrow>
               if v = CHR ''%'' then CHR ''%'' # Sprintf r as
               else case as of
                      [] \<Rightarrow> ''%!'' @ v # ''(MISSING)'' @ Sprintf r []
                    | a # bs \<Rightarrow>
                        if v = CHR ''s'' \<or> v = CHR ''v'' then a @ Sprintf r bs
                        else ''%!'' @ v # ''(string='' @ a @ '')'' @ Sprintf r bs)"

definition newline :: string where "newline = [CHR 0x0A]"

definition error_header :: "header \<Rightarrow> header" where
  "error_header h =
     header_Set ''X-Content-Type-Options'' ''nosniff''
       (header_Set ''Content-Type'' ''text/plain; charset=utf-8'' (header_Del ''Content-Length'' h))"

definition http_Error :: "'w writer \<Rightarrow> string \<Rightarrow> int \<Rightarrow> 'w \<Rightarrow> unit outcome \<times> 'w" where
  "http_Error ops msg code w =
     then_do (w_write_header ops code (w_set_header ops (error_header (w_header ops w)) w)) (\<lambda>_ w.
       then_do (w_write ops (msg @ newline) w) (\<lambda>_ w. (Done (), w)))"

definition Errorf :: "'w writer \<Rightarrow> int \<Rightarrow> string \<Rightarrow> string list \<Rightarrow> 'w \<Rightarrow> unit outcome \<times> 'w" where
  "Errorf ops statusCode msg args w = http_Error ops (Sprintf msg args) statusCode w"

text \<open>\<open>io.Copy\<close> from a buffer: one \<open>Write\<close>, none at all for an empty buffer.\<close>

definition io_Copy :: "'w writer \<Rightarrow> string \<Rightarrow> 'w \<Rightarrow> unit outcome \<times> 'w" where
  "io_Copy ops data w =
     (if data = [] then (Done (), w) else then_do (w_write ops data w) (\<lambda>_ w. (Done (), w)))"

subsection \<open>The contract of a response writer\<close>

text \<open>
  \<open>sent w\<close> is the status and header the client gets, \<open>body w\<close> the body written so far. Only
  the first final status counts, and it goes out with the header as it is at that moment.
\<close>

locale response_writer =
  fixes ops :: "'w writer" and sent :: "'w \<Rightarrow> (int \<times> header) option" and body :: "'w \<Rightarrow> string"
    and ok :: "'w \<Rightarrow> bool"
  assumes set_header:
      "w_header ops (w_set_header ops h w) = h \<and> sent (w_set_header ops h w) = sent w \<and>
       body (w_set_header ops h w) = body w \<and> ok (w_set_header ops h w) = ok w"
    and write_header_first:
      "ok w \<Longrightarrow> sent w = None \<Longrightarrow> 200 \<le> code \<Longrightarrow> code \<le> 999 \<Longrightarrow>
       \<exists>w'. w_write_header ops code w = (Done (), w') \<and> sent w' = Some (code, w_header ops w) \<and>
         w_header ops w' = w_header ops w \<and> body w' = body w \<and> ok w'"
    and write_header_again:
      "ok w \<Longrightarrow> sent w \<noteq> None \<Longrightarrow>
       \<exists>w'. w_write_header ops code w = (Done (), w') \<and> sent w' = sent w \<and>
         w_header ops w' = w_header ops w \<and> body w' = body w \<and> ok w'"
    and write_first:
      "ok w \<Longrightarrow> sent w = None \<Longrightarrow>
       \<exists>r w'. w_write ops d w = (Done r, w') \<and> sent w' = Some (200, w_header ops w) \<and>
         w_header ops w' = w_header ops w \<and> ok w' \<and>
         (contentLimit (w_header ops w) = None \<longrightarrow> body w' = body w @ d)"
    and write_more:
      "ok w \<Longrightarrow> sent w = Some (code, h) \<Longrightarrow>
       \<exists>r w'. w_write ops d w = (Done r, w') \<and> sent w' = Some (code, h) \<and>
         w_header ops w' = w_header ops w \<and> ok w' \<and>
         (bodyAllowed code \<and> contentLimit h = None \<longrightarrow> body w' = body w @ d)"
begin

lemma contentLimit_unset: "h ''Content-Length'' = None \<Longrightarrow> contentLimit h = None"
  by (simp add: contentLimit_def header_Get_def header_Values_def)

lemma contentLimit_error_header: "contentLimit (error_header h) = None"
  by (rule contentLimit_unset) (simp add: error_header_def header_Set_def header_Del_def)

lemma http_Error_response:
  assumes "ok w" and "sent w = None" and "200 \<le> code" and "code \<le> 999" and "bodyAllowed code"
  shows "\<exists>w'. http_Error ops msg code w = (Done (), w') \<and>
    sent w' = Some (code, error_header (w_header ops w)) \<and> ok w' \<and> body w' = body w @ msg @ newline"
proof -
  let ?h = "error_header (w_header ops w)"
  let ?w = "w_set_header ops ?h w"
  have "ok ?w" "sent ?w = None" and h: "w_header ops ?w = ?h" and b: "body ?w = body w"
    using set_header [of ?h w] assms by simp_all
  from write_header_first [OF this(1,2) assms(3,4)] h b obtain w1 where
    w1: "w_write_header ops code ?w = (Done (), w1)" "sent w1 = Some (code, ?h)" "body w1 = body w" "ok w1"
    by auto
  from write_more [OF w1(4,2), of "msg @ newline"] assms(5) w1(3) obtain r w2 where
    "w_write ops (msg @ newline) w1 = (Done r, w2)" "sent w2 = Some (code, ?h)" "ok w2"
    "body w2 = body w @ msg @ newline" by (auto simp: contentLimit_error_header)
  with w1(1) show ?thesis by (auto simp: http_Error_def)
qed

lemma http_Error_too_late:
  assumes "ok w" and "sent w = Some (c, h)"
  shows "\<exists>w'. http_Error ops msg code w = (Done (), w') \<and> sent w' = Some (c, h) \<and> ok w' \<and>
    (bodyAllowed c \<and> contentLimit h = None \<longrightarrow> body w' = body w @ msg @ newline)"
proof -
  let ?w = "w_set_header ops (error_header (w_header ops w)) w"
  have "ok ?w" "sent ?w = Some (c, h)" "body ?w = body w" using set_header assms by simp_all
  from write_header_again [OF this(1), of code] this(2,3) obtain w1 where
    w1: "w_write_header ops code ?w = (Done (), w1)" "sent w1 = Some (c, h)" "ok w1" "body w1 = body w"
    by auto
  from write_more [OF w1(3,2), of "msg @ newline"] w1(4) obtain r w2 where
    "w_write ops (msg @ newline) w1 = (Done r, w2)" "sent w2 = Some (c, h)" "ok w2"
    "bodyAllowed c \<and> contentLimit h = None \<longrightarrow> body w2 = body w @ msg @ newline" by auto
  with w1(1) show ?thesis by (auto simp: http_Error_def)
qed

end

lemma sw_ok_simps:
  "w_header server_ops = sw_header" "w_write server_ops = sw_Write" "w_write_header server_ops = sw_WriteHeader"
  "w_set_header server_ops = (\<lambda>h w. w\<lparr>sw_header := h\<rparr>)" "w_flusher server_ops = Some sw_Flush"
  "w_close_notifier server_ops = Some (\<lambda>w. True)"
  by (simp_all add: server_ops_def)

lemma sw_WriteData_more:
  "sw_sent w = Some (code, h) \<Longrightarrow> \<exists>r w'. sw_WriteData d w = (Done r, w') \<and> sw_sent w' = Some (code, h) \<and>
     sw_header w' = sw_header w \<and> sw_hijacked w' = sw_hijacked w \<and>
     (bodyAllowed code \<and> contentLimit h = None \<longrightarrow> sw_body w' = sw_body w @ d)"
  by (auto simp: sw_WriteData_def Let_def split: option.split)

interpretation server: response_writer server_ops sw_sent sw_body "\<lambda>w. \<not> sw_hijacked w"
proof unfold_locales
  fix d and w :: server_writer
  assume ok: "\<not> sw_hijacked w"
  show "\<exists>r w'. w_write server_ops d w = (Done r, w') \<and> sw_sent w' = Some (200, w_header server_ops w) \<and>
      w_header server_ops w' = w_header server_ops w \<and> \<not> sw_hijacked w' \<and>
      (contentLimit (w_header server_ops w) = None \<longrightarrow> sw_body w' = sw_body w @ d)" if "sw_sent w = None"
    using that ok sw_WriteData_more [of "w\<lparr>sw_sent := Some (200, sw_header w)\<rparr>" 200 "sw_header w" d]
    by (auto simp: sw_ok_simps sw_Write_def sw_WriteHeader_def bodyAllowed_def)
  show "\<exists>r w'. w_write server_ops d w = (Done r, w') \<and> sw_sent w' = Some (code, h) \<and>
      w_header server_ops w' = w_header server_ops w \<and> \<not> sw_hijacked w' \<and>
      (bodyAllowed code \<and> contentLimit h = None \<longrightarrow> sw_body w' = sw_body w @ d)"
    if "sw_sent w = Some (code, h)" for code h
    using that ok sw_WriteData_more [OF that, of d]
    by (auto simp: sw_ok_simps sw_Write_def sw_WriteHeader_def)
qed (auto simp: sw_ok_simps sw_WriteHeader_def)

subsection \<open>The intercepting writer\<close>

record 'w HttpWriteInterceptor =
  ic_writer :: 'w
  ic_status_code :: int
  ic_bytes_written :: goint

definition NewHttpWriteInterceptor :: "'w \<Rightarrow> 'w HttpWriteInterceptor" where
  "NewHttpWriteInterceptor w = \<lparr>ic_writer = w, ic_status_code = 0, ic_bytes_written = 0\<rparr>"

definition Status :: "'w HttpWriteInterceptor \<Rightarrow> int" where
  "Status c = (if ic_status_code c = 0 then 200 else ic_status_code c)"

definition BytesWritten :: "'w HttpWriteInterceptor \<Rightarrow> goint" where
  "BytesWritten c = ic_bytes_written c"

definition ic_Header :: "'w writer \<Rightarrow> 'w HttpWriteInterceptor \<Rightarrow> header" where
  "ic_Header ops c = w_header ops (ic_writer c)"

text \<open>Every method delegates to the wrapped writer, whose new state is put back.\<close>

definition put_writer :: "'w HttpWriteInterceptor \<Rightarrow> 'a \<times> 'w \<Rightarrow> 'a \<times> 'w HttpWriteInterceptor" where
  "put_writer c r = (case r of (a, w) \<Rightarrow> (a, c\<lparr>ic_writer := w\<rparr>))"

lemma put_writer_simps [simp]:
  "put_writer c (a, w) = (a, c\<lparr>ic_writer := w\<rparr>)"
  "fst (put_writer c r) = fst r" "snd (put_writer c r) = c\<lparr>ic_writer := snd r\<rparr>"
  by (simp_all add: put_writer_def split: prod.split)

definition ic_WriteHeader :: "'w writer \<Rightarrow> int \<Rightarrow> 'w HttpWriteInterceptor \<Rightarrow> unit outcome \<times> 'w HttpWriteInterceptor" where
  "ic_WriteHeader ops code c =
     (let c = c\<lparr>ic_status_code := code\<rparr> in put_writer c (w_write_header ops code (ic_writer c)))"

definition ic_Write ::
    "'w writer \<Rightarrow> string \<Rightarrow> 'w HttpWriteInterceptor \<Rightarrow>
     (goint \<times> write_error option) outcome \<times> 'w HttpWriteInterceptor" where
  "ic_Write ops data c =
     then_do (if ic_status_code c = 0 then ic_WriteHeader ops 200 c else (Done (), c)) (\<lambda>_ c.
       let c = c\<lparr>ic_bytes_written := wrap64 (ic_bytes_written c + int (length data))\<rparr>
       in put_writer c (w_write ops data (ic_writer c)))"

definition ic_Flush :: "'w writer \<Rightarrow> 'w HttpWriteInterceptor \<Rightarrow> unit outcome \<times> 'w HttpWriteInterceptor" where
  "ic_Flush ops c =
     (case w_flusher ops of
        None \<Rightarrow> (Panics ''interface conversion: not a http.Flusher'', c)
      | Some fl \<Rightarrow> put_writer c (fl (ic_writer c)))"

definition ic_Hijack :: "'w writer \<Rightarrow> 'w HttpWriteInterceptor \<Rightarrow> bool outcome \<times> 'w HttpWriteInterceptor" where
  "ic_Hijack ops c =
     (case w_hijacker ops of
        None \<Rightarrow> (Panics ''interface conversion: not a http.Hijacker'', c)
      | Some hj \<Rightarrow> put_writer c (hj (ic_writer c)))"

definition ic_CloseNotify :: "'w writer \<Rightarrow> 'w HttpWriteInterceptor \<Rightarrow> bool" where
  "ic_CloseNotify ops c =
     (case w_close_notifier ops of None \<Rightarrow> False | Some notifier \<Rightarrow> notifier (ic_writer c))"

text \<open>
  The interceptor as a response writer. Its type has all the optional methods, so the type
  assertions of a handler succeed on it whatever it wraps.
\<close>

definition interceptor_ops :: "'w writer \<Rightarrow> 'w HttpWriteInterceptor writer" where
  "interceptor_ops ops =
     \<lparr>w_header = ic_Header ops,
      w_set_header = (\<lambda>h c. c\<lparr>ic_writer := w_set_header ops h (ic_writer c)\<rparr>),
      w_write = ic_Write ops, w_write_header = ic_WriteHeader ops, w_flusher = Some (ic_Flush ops),
      w_hijacker = Some (ic_Hijack ops),
      w_close_notifier = Some (ic_CloseNotify ops)\<rparr>"

lemma interceptor_ops_simps [simp]:
  "w_header (interceptor_ops ops) = ic_Header ops"
  "w_set_header (interceptor_ops ops) = (\<lambda>h c. c\<lparr>ic_writer := w_set_header ops h (ic_writer c)\<rparr>)"
  "w_write (interceptor_ops ops) = ic_Write ops"
  "w_write_header (interceptor_ops ops) = ic_WriteHeader ops"
  "w_flusher (interceptor_ops ops) = Some (ic_Flush ops)"
  "w_close_notifier (interceptor_ops ops) = Some (ic_CloseNotify ops)"
  by (simp_all add: interceptor_ops_def)

text \<open>A writer that keeps the contract still keeps it when it is intercepted.\<close>

locale intercepted_writer = response_writer ops sent body ok
  for ops :: "'w writer" and sent :: "'w \<Rightarrow> (int \<times> header) option" and body :: "'w \<Rightarrow> string"
    and ok :: "'w \<Rightarrow> bool"
begin

lemma ic_WriteHeader_writer: "ok (ic_writer c) \<Longrightarrow> sent (ic_writer c) \<noteq> None \<or> 200 \<le> code \<and> code \<le> 999 \<Longrightarrow>
    \<exists>w'. ic_WriteHeader ops code c = (Done (), c\<lparr>ic_status_code := code, ic_writer := w'\<rparr>) \<and>
      w_write_header ops code (ic_writer c) = (Done (), w') \<and> ok w' \<and>
      w_header ops w' = w_header ops (ic_writer c) \<and> body w' = body (ic_writer c) \<and>
      sent w' = (if sent (ic_writer c) = None then Some (code, w_header ops (ic_writer c)) else sent (ic_writer c))"
  using write_header_first [of "ic_writer c" code] write_header_again [of "ic_writer c" code]
  by (cases "sent (ic_writer c)") (auto simp: ic_WriteHeader_def Let_def)

lemma ic_Write_more:
  assumes "ok (ic_writer c)" and "sent (ic_writer c) = Some (code, h)"
  shows "\<exists>r c'. ic_Write ops d c = (Done r, c') \<and> sent (ic_writer c') = Some (code, h) \<and>
    w_header ops (ic_writer c') = w_header ops (ic_writer c) \<and> ok (ic_writer c') \<and>
    (bodyAllowed code \<and> contentLimit h = None \<longrightarrow> body (ic_writer c') = body (ic_writer c) @ d)"
proof (cases "ic_status_code c = 0")
  case True
  from ic_WriteHeader_writer [OF assms(1), of 200] assms(2) obtain w1 where
    w1: "ic_WriteHeader ops 200 c = (Done (), c\<lparr>ic_status_code := 200, ic_writer := w1\<rparr>)" "ok w1"
    "sent w1 = Some (code, h)" "body w1 = body (ic_writer c)" "w_header ops w1 = w_header ops (ic_writer c)"
    by auto
  with write_more [OF w1(2,3), of d] True show ?thesis by (auto simp: ic_Write_def Let_def)
next
  case False
  with write_more [OF assms, of d] show ?thesis by (auto simp: ic_Write_def Let_def)
qed

lemma ic_Write_first:
  assumes "ok (ic_writer c)" and "sent (ic_writer c) = None"
  shows "\<exists>r c'. ic_Write ops d c = (Done r, c') \<and>
    sent (ic_writer c') = Some (200, w_header ops (ic_writer c)) \<and>
    w_header ops (ic_writer c') = w_header ops (ic_writer c) \<and> ok (ic_writer c') \<and>
    (contentLimit (w_header ops (ic_writer c)) = None \<longrightarrow> body (ic_writer c') = body (ic_writer c) @ d)"
proof (cases "ic_status_code c = 0")
  case True
  from ic_WriteHeader_writer [OF assms(1), of 200] assms(2) obtain w1 where
    w1: "ic_WriteHeader ops 200 c = (Done (), c\<lparr>ic_status_code := 200, ic_writer := w1\<rparr>)" "ok w1"
    "sent w1 = Some (200, w_header ops (ic_writer c))" "body w1 = body (ic_writer c)"
    "w_header ops w1 = w_header ops (ic_writer c)"
    by auto
  with write_more [OF w1(2,3), of d] True show ?thesis
    by (auto simp: ic_Write_def Let_def bodyAllowed_def)
next
  case False
  with write_first [OF assms, of d] show ?thesis by (auto simp: ic_Write_def Let_def)
qed

end

sublocale intercepted_writer \<subseteq> ic: response_writer "interceptor_ops ops" "\<lambda>c. sent (ic_writer c)"
  "\<lambda>c. body (ic_writer c)" "\<lambda>c. ok (ic_writer c)"
proof unfold_locales
  fix c :: "'w HttpWriteInterceptor" and code d h
  assume ok: "ok (ic_writer c)"
  show "\<exists>w'. w_write_header (interceptor_ops ops) code c = (Done (), w') \<and>
      sent (ic_writer w') = Some (code, w_header (interceptor_ops ops) c) \<and>
      w_header (interceptor_ops ops) w' = w_header (interceptor_ops ops) c \<and>
      body (ic_writer w') = body (ic_writer c) \<and> ok (ic_writer w')"
    if "sent (ic_writer c) = None" "200 \<le> code" "code \<le> 999"
    using ic_WriteHeader_writer [OF ok, of code] that by (auto simp: ic_Header_def)
  show "\<exists>w'. w_write_header (interceptor_ops ops) code c = (Done (), w') \<and>
      sent (ic_writer w') = sent (ic_writer c) \<and>
      w_header (interceptor_ops ops) w' = w_header (interceptor_ops ops) c \<and>
      body (ic_writer w') = body (ic_writer c) \<and> ok (ic_writer w')"
    if "sent (ic_writer c) \<noteq> None"
    using ic_WriteHeader_writer [OF ok, of code] that by (auto simp: ic_Header_def)
qed (use set_header ic_Write_first ic_Write_more in \<open>auto simp: ic_Header_def\<close>)

interpretation intercepted: intercepted_writer server_ops sw_sent sw_body "\<lambda>w. \<not> sw_hijacked w"
  by unfold_locales

subsection \<open>What a handler does to a writer\<close>

datatype call = SetHeader header | WriteHeaderCall int | WriteCall string | FlushCall

fun run_calls :: "'w writer \<Rightarrow> call list \<Rightarrow> 'w \<Rightarrow> unit outcome \<times> 'w" where
  "run_calls ops [] w = (Done (), w)"
| "run_calls ops (SetHeader h # cs) w = run_calls ops cs (w_set_header ops h w)"
| "run_calls ops (WriteHeaderCall code # cs) w = then_do (w_write_header ops code w) (\<lambda>_. run_calls ops cs)"
| "run_calls ops (WriteCall d # cs) w = then_do (w_write ops d w) (\<lambda>_. run_calls ops cs)"
| "run_calls ops (FlushCall # cs) w =
     (case w_flusher ops of
        None \<Rightarrow> (Panics ''not a http.Flusher'', w)
      | Some fl \<Rightarrow> then_do (fl w) (\<lambda>_. run_calls ops cs))"

fun header_once :: "bool \<Rightarrow> call list \<Rightarrow> bool" where
  "header_once s [] \<longleftrightarrow> True"
| "header_once s (SetHeader h # cs) \<longleftrightarrow> header_once s cs"
| "header_once s (WriteHeaderCall code # cs) \<longleftrightarrow> \<not> s \<and> 200 \<le> code \<and> code \<le> 999 \<and> header_once True cs"
| "header_once s (WriteCall d # cs) \<longleftrightarrow> header_once True cs"
| "header_once s (FlushCall # cs) \<longleftrightarrow> header_once True cs"

lemma ic_Write_server: "\<exists>b. ic_Write server_ops d c = put_writer (b c) (sw_Write d (ic_writer c)) \<and>
    ic_status_code (b c) = (if ic_status_code c = 0 then 200 else ic_status_code c)"
proof (cases "ic_status_code c = 0")
  case True
  define w1 where "w1 = snd (sw_WriteHeader 200 (ic_writer c))"
  have w1: "sw_WriteHeader 200 (ic_writer c) = (Done (), w1)" "sw_WriteHeader 200 w1 = (Done (), w1)"
    "sw_hijacked w1 = sw_hijacked (ic_writer c)"
    by (auto simp: w1_def sw_WriteHeader_def)
  have "sw_Write d w1 = sw_Write d (ic_writer c)"
  proof (cases "sw_hijacked (ic_writer c) \<or> sw_sent (ic_writer c) \<noteq> None")
    case True
    then have "w1 = ic_writer c" by (auto simp: w1_def sw_WriteHeader_def)
    then show ?thesis by simp
  next
    case False
    with w1 show ?thesis by (simp add: sw_Write_def)
  qed
  then have "ic_Write server_ops d c = put_writer (c\<lparr>ic_status_code := 200,
      ic_bytes_written := wrap64 (ic_bytes_written c + int (length d))\<rparr>) (sw_Write d (ic_writer c))"
    using True w1(1)
    by (simp add: ic_Write_def ic_WriteHeader_def sw_ok_simps Let_def) (simp add: put_writer_def split: prod.split)
  then show ?thesis
    using True by (intro exI [of _ "\<lambda>c. c\<lparr>ic_status_code := 200,
      ic_bytes_written := wrap64 (ic_bytes_written c + int (length d))\<rparr>"]) simp
next
  case False
  then show ?thesis
    by (intro exI [of _ "\<lambda>c. c\<lparr>ic_bytes_written := wrap64 (ic_bytes_written c + int (length d))\<rparr>"])
      (simp add: ic_Write_def sw_ok_simps Let_def)
qed

lemma then_do_cong_writer:
  assumes "fst r = fst r'" and "ic_writer (snd r) = snd r'"
    and "\<And>a c. fst (f a c) = fst (g a (ic_writer c)) \<and> ic_writer (snd (f a c)) = snd (g a (ic_writer c))"
  shows "fst (then_do r f) = fst (then_do r' g) \<and> ic_writer (snd (then_do r f)) = snd (then_do r' g)"
  using assms by (cases r; cases r'; cases "fst r") auto

lemma Status_put [simp]: "Status (c\<lparr>ic_writer := w\<rparr>) = Status c"
  by (simp add: Status_def)

lemma Status_unset: "ic_status_code c = 0 \<Longrightarrow> Status c = 200"
  by (simp add: Status_def)

lemma run_calls_transparent:
  "fst (run_calls (interceptor_ops server_ops) cs c) = fst (run_calls server_ops cs (ic_writer c)) \<and>
   ic_writer (snd (run_calls (interceptor_ops server_ops) cs c)) = snd (run_calls server_ops cs (ic_writer c))"
proof (induction cs arbitrary: c)
  case (Cons x cs)
  then show ?case
  proof (cases x)
    case (WriteCall d)
    obtain b where "ic_Write server_ops d c = put_writer (b c) (sw_Write d (ic_writer c))"
      using ic_Write_server by blast
    with WriteCall show ?thesis
      by (simp only: run_calls.simps) (rule then_do_cong_writer, simp_all add: sw_ok_simps Cons)
  next
    case (WriteHeaderCall code)
    show ?thesis unfolding WriteHeaderCall run_calls.simps
      by (rule then_do_cong_writer) (simp_all add: sw_ok_simps ic_WriteHeader_def Let_def Cons)
  next
    case FlushCall
    show ?thesis unfolding FlushCall run_calls.simps interceptor_ops_simps sw_ok_simps option.case
      by (rule then_do_cong_writer) (simp_all add: sw_ok_simps ic_Flush_def Cons)
  qed (simp add: sw_ok_simps Cons)
qed simp

text \<open>
  Property C24: intercepting a response changes nothing for the client: whatever a handler
  calls on the interceptor, the outcome and the state of the wrapped writer (status, header
  and body as sent) are those of the same calls on the writer itself.
\<close>

theorem interceptor_transparent:
  "fst (run_calls (interceptor_ops server_ops) cs c) = fst (run_calls server_ops cs (ic_writer c)) \<and>
   ic_writer (snd (run_calls (interceptor_ops server_ops) cs c)) = snd (run_calls server_ops cs (ic_writer c))"
  by (rule run_calls_transparent)

lemma ic_calls_status:
  assumes "header_once (sw_sent (ic_writer c) \<noteq> None) cs" and "\<not> sw_hijacked (ic_writer c)"
    and "case sw_sent (ic_writer c) of None \<Rightarrow> ic_status_code c = 0 | Some (code, _) \<Rightarrow> code = Status c"
  shows "\<exists>c'. run_calls (interceptor_ops server_ops) cs c = (Done (), c') \<and>
    Status c' = (case sw_sent (ic_writer c') of None \<Rightarrow> 200 | Some (code, _) \<Rightarrow> code)"
  using assms
proof (induction cs arbitrary: c)
  case Nil
  then show ?case by (auto simp: Status_def split: option.splits)
next
  case (Cons x cs)
  show ?case
  proof (cases x)
    case (SetHeader h)
    with Cons.prems Cons.IH [of "c\<lparr>ic_writer := (ic_writer c)\<lparr>sw_header := h\<rparr>\<rparr>"] show ?thesis
      by (auto simp: sw_ok_simps split: option.splits)
  next
    case (WriteHeaderCall code)
    with Cons.prems Cons.IH [of "c\<lparr>ic_status_code := code,
        ic_writer := (ic_writer c)\<lparr>sw_sent := Some (code, sw_header (ic_writer c))\<rparr>\<rparr>"]
    show ?thesis by (auto simp: sw_ok_simps Status_def ic_WriteHeader_def sw_WriteHeader_def)
  next
    case (WriteCall d)
    obtain b where b: "ic_Write server_ops d c = put_writer (b c) (sw_Write d (ic_writer c))"
      "ic_status_code (b c) = (if ic_status_code c = 0 then 200 else ic_status_code c)"
      using ic_Write_server by blast
    obtain r w' where w': "sw_Write d (ic_writer c) = (Done r, w')" "\<not> sw_hijacked w'"
      "sw_sent w' = (case sw_sent (ic_writer c) of None \<Rightarrow> Some (200, sw_header (ic_writer c)) | Some s \<Rightarrow> Some s)"
      using server.write_first [of "ic_writer c" d] server.write_more [of "ic_writer c" _ _ d] Cons.prems(2)
      by (cases "sw_sent (ic_writer c)") (auto simp: sw_ok_simps)
    have "Status (b c) = Status c" by (simp add: Status_def b(2))
    with b(1) w' WriteCall Cons.prems Cons.IH [of "(b c)\<lparr>ic_writer := w'\<rparr>"] show ?thesis
      by (auto simp: Status_unset split: option.splits)
  next
    case FlushCall
    let ?w = "(ic_writer c)\<lparr>sw_sent := (case sw_sent (ic_writer c) of
      None \<Rightarrow> Some (200, sw_header (ic_writer c)) | Some s \<Rightarrow> Some s)\<rparr>"
    have "sw_Flush (ic_writer c) = (Done (), ?w)"
      using Cons.prems(2) by (auto simp: sw_Flush_def sw_WriteHeader_def split: option.split)
    with FlushCall Cons.prems Cons.IH [of "c\<lparr>ic_writer := ?w\<rparr>"] show ?thesis
      by (auto simp: Status_unset ic_Flush_def sw_ok_simps split: option.splits)
  qed
qed

text \<open>
  Property C28: for a handler that writes at most one final status, before anything else is
  sent, the recorded status is the status the client receives (200 if nothing was sent).
\<close>

theorem Status_is_status_sent:
  assumes "header_once False cs"
  shows "\<exists>c. run_calls (interceptor_ops server_ops) cs (NewHttpWriteInterceptor newResponse) = (Done (), c) \<and>
    Status c = (case sw_sent (ic_writer c) of None \<Rightarrow> 200 | Some (code, _) \<Rightarrow> code)"
  using assms by (intro ic_calls_status) (simp_all add: NewHttpWriteInterceptor_def newResponse_def)

theorem Status_is_status_sent_witness:
  "\<exists>c. run_calls (interceptor_ops server_ops) [WriteHeaderCall 404, WriteCall ''no'']
     (NewHttpWriteInterceptor newResponse) = (Done (), c) \<and>
     Status c = (case sw_sent (ic_writer c) of None \<Rightarrow> 200 | Some (code, _) \<Rightarrow> code)"
  by (rule Status_is_status_sent) simp

text \<open>
  Outside that discipline the record is wrong: the last of several statuses is
  recorded although the first was sent, an informational status hides the status of the
  response, and bytes count as written that the server refused.
\<close>

theorem Status_diverges:
  "let run = (\<lambda>cs. snd (run_calls (interceptor_ops server_ops) cs (NewHttpWriteInterceptor newResponse)));
       sent = (\<lambda>c. map_option fst (sw_sent (ic_writer c)));
       twice = run [WriteHeaderCall 200, WriteHeaderCall 500];
       early = run [WriteHeaderCall 103, WriteCall ''x''];
       empty = run [WriteHeaderCall 204, WriteCall ''x'']
   in sent twice = Some 200 \<and> Status twice = 500 \<and>
      sent early = Some 200 \<and> Status early = 103 \<and>
      sw_body (ic_writer empty) = [] \<and> BytesWritten empty = 1"
proof -
  have "wrap64 1 = 1" by code_simp
  then show ?thesis
    by (simp add: NewHttpWriteInterceptor_def newResponse_def sw_ok_simps ic_WriteHeader_def ic_Write_def
        sw_WriteHeader_def sw_Write_def sw_WriteData_def Status_def BytesWritten_def bodyAllowed_def
        contentLimit_def header_Get_def header_Values_def put_writer_def)
qed

end
