(* ===== verification/NetUrl.thy ===== *)
theory NetUrl
  imports Http
begin

text \<open>
  What the proxy and the log handler use of \<open>net/url\<close>: percent-encoding by the part of the
  URL, printing and parsing of URLs and of query strings; and the requests themselves. The main lemma is the round trip:
  a printed URL with an ordinary host is parsed to the same parts.
\<close>

subsection \<open>Percent-encoding\<close>

datatype encoding =
  EncodePath | EncodeHost | EncodeZone | EncodeUserPassword | EncodeQueryComponent | EncodeFragment

definition hostMark :: string where
  "hostMark = ''!$&'' @ [CHR 0x27] @ ''()*+,;=:[]<>'' @ [CHR 0x22]"

definition shouldEscape :: "encoding \<Rightarrow> char \<Rightarrow> bool" where
  "shouldEscape mode c =
     (if is_alnum c then False
      else if (mode = EncodeHost \<or> mode = EncodeZone) \<and> c \<in> set hostMark then False
      else if c \<in> set ''-_.~'' then False
      else if c \<in> set ''$&+,/:;=?@'' \<and> mode \<notin> {EncodeHost, EncodeZone}
      then (case mode of
              EncodePath \<Rightarrow> c = CHR ''?''
            | EncodeUserPassword \<Rightarrow> c \<in> set ''@/?:''
            | EncodeQueryComponent \<Rightarrow> True
            | _ \<Rightarrow> False)
      else \<not> (mode = EncodeFragment \<and> c \<in> set ''!()*''))"

definition hexDigit :: "nat \<Rightarrow> char" where
  "hexDigit n = char_of (if n < 10 then n + 48 else n + 55)"

definition unhex :: "char \<Rightarrow> nat option" where
  "unhex c =
     (if between (CHR ''0'') c (CHR ''9'') then Some (of_char c - 48)
      else if between (CHR ''a'') c (CHR ''f'') then Some (of_char c - 87)
      else if between (CHR ''A'') c (CHR ''F'') then Some (of_char c - 55)
      else None)"

fun url_escape :: "encoding \<Rightarrow> string \<Rightarrow> string" where
  "url_escape mode [] = []"
| "url_escape mode (c # s) =
     (if shouldEscape mode c
      then if c = CHR '' '' \<and> mode = EncodeQueryComponent then CHR ''+'' # url_escape mode s
           else CHR ''%'' # hexDigit (of_char c div 16) # hexDigit (of_char c mod 16) # url_escape mode s
      else c # url_escape mode s)"

text \<open>
  In a host only bytes above 127 and the percent sign may be encoded; in a zone also what a
  host could contain unencoded, and the space.
\<close>

definition mayDecode :: "encoding \<Rightarrow> nat \<Rightarrow> bool" where
  "mayDecode mode v \<longleftrightarrow>
     (mode = EncodeHost \<longrightarrow> 128 \<le> v \<or> v = 37) \<and>
     (mode = EncodeZone \<longrightarrow> v = 37 \<or> v = 32 \<or> \<not> shouldEscape EncodeHost (char_of v))"

fun url_unescape :: "encoding \<Rightarrow> string \<Rightarrow> string option" where
  "url_unescape mode [] = Some []"
| "url_unescape mode (c # s) =
     (if c = CHR ''%''
      then (case s of
              a # b # r \<Rightarrow>
                (case (unhex a, unhex b) of
                   (Some i, Some j) \<Rightarrow>
                     if mayDecode mode (i * 16 + j)
                     then map_option ((#) (char_of (i * 16 + j))) (url_unescape mode r)
                     else None
                 | _ \<Rightarrow> None)
            | _ \<Rightarrow> None)
      else if c = CHR ''+'' \<and> mode = EncodeQueryComponent
      then map_option ((#) (CHR '' '')) (url_unescape mode s)
      else if (mode = EncodeHost \<or> mode = EncodeZone) \<and> (of_char c :: nat) < 128 \<and> shouldEscape mode c then None
      else map_option ((#) c) (url_unescape mode s))"

subsection \<open>URLs\<close>

record url =
  u_scheme :: string
  u_opaque :: string
  u_user :: "string option"
  u_host :: string
  u_path :: string
  u_raw_path :: string
  u_force_query :: bool
  u_raw_query :: string
  u_fragment :: string

definition no_url :: url where
  "no_url = \<lparr>u_scheme = [], u_opaque = [], u_user = None, u_host = [], u_path = [], u_raw_path = [],
     u_force_query = False, u_raw_query = [], u_fragment = []\<rparr>"

definition validOptionalPort :: "string \<Rightarrow> bool" where
  "validOptionalPort port \<longleftrightarrow> port = [] \<or> hd port = CHR '':'' \<and> list_all is_digit (tl port)"

text \<open>The text before and after the last occurrence of a separator.\<close>

definition cutLast :: "char \<Rightarrow> string \<Rightarrow> (string \<times> string) option" where
  "cutLast sep s = map_option (\<lambda>(b, a). (rev a, rev b)) (cut sep (rev s))"

definition url_Port :: "url \<Rightarrow> string" where
  "url_Port u =
     (case cutLast (CHR '':'') (u_host u) of
        None \<Rightarrow> []
      | Some (h, p) \<Rightarrow> if validOptionalPort (CHR '':'' # p) then p else [])"

text \<open>\<open>URL.String\<close> for a URL with a host, without opaque part, user, raw path and fragment.\<close>

definition url_EscapedPath :: "url \<Rightarrow> string" where
  "url_EscapedPath u = (if u_path u = ''*'' then ''*'' else url_escape EncodePath (u_path u))"

definition url_String :: "url \<Rightarrow> string" where
  "url_String u =
     (let path = url_EscapedPath u
      in (if u_scheme u \<noteq> [] then u_scheme u @ '':'' else []) @ ''//'' @ url_escape EncodeHost (u_host u) @
         (if path \<noteq> [] \<and> hd path \<noteq> CHR ''/'' then ''/'' else []) @ path @
         (if u_force_query u \<or> u_raw_query u \<noteq> [] then CHR ''?'' # u_raw_query u else []))"

fun schemeLoop :: "string \<Rightarrow> string \<Rightarrow> string \<Rightarrow> (string \<times> string) option" where
  "schemeLoop raw done [] = Some ([], raw)"
| "schemeLoop raw done (c # s) =
     (if is_lower c \<or> is_upper c then schemeLoop raw (c # done) s
      else if is_digit c \<or> c \<in> set ''+-.'' then (if done = [] then Some ([], raw) else schemeLoop raw (c # done) s)
      else if c = CHR '':'' then (if done = [] then None else Some (rev done, s))
      else Some ([], raw))"

definition getScheme :: "string \<Rightarrow> (string \<times> string) option" where
  "getScheme raw = schemeLoop raw [] raw"

definition cutOr :: "char \<Rightarrow> string \<Rightarrow> string \<times> string" where
  "cutOr sep s = (case cut sep s of None \<Rightarrow> (s, []) | Some r \<Rightarrow> r)"

fun indexOf :: "string \<Rightarrow> string \<Rightarrow> nat option" where
  "indexOf p [] = (if p = [] then Some 0 else None)"
| "indexOf p (c # s) = (if prefix p (c # s) then Some 0 else map_option Suc (indexOf p s))"

definition parseHost :: "string \<Rightarrow> string option" where
  "parseHost host =
     (if prefix ''['' host
      then (case cutLast (CHR '']'') host of
              None \<Rightarrow> None
            | Some (pre, colonPort) \<Rightarrow>
                if \<not> validOptionalPort colonPort then None
                else (case indexOf ''%25'' pre of
                        None \<Rightarrow> url_unescape EncodeHost host
                      | Some zone \<Rightarrow>
                          (case (url_unescape EncodeHost (take zone pre), url_unescape EncodeZone (drop zone pre),
                                 url_unescape EncodeHost (CHR '']'' # colonPort)) of
                             (Some a, Some b, Some c) \<Rightarrow> Some (a @ b @ c)
                           | _ \<Rightarrow> None)))
      else (case cutLast (CHR '':'') host of
              None \<Rightarrow> url_unescape EncodeHost host
            | Some (h, p) \<Rightarrow>
                if validOptionalPort (CHR '':'' # p) then url_unescape EncodeHost host else None))"

definition validUserinfo :: "string \<Rightarrow> bool" where
  "validUserinfo s \<longleftrightarrow> list_all (\<lambda>c. is_alnum c \<or> c \<in> set (''-._:~!$&()*+,;=%@'' @ [CHR 0x27])) s"

definition parseAuthority :: "string \<Rightarrow> (string option \<times> string) option" where
  "parseAuthority authority =
     (case cutLast (CHR ''@'') authority of
        None \<Rightarrow> map_option (Pair None) (parseHost authority)
      | Some (userinfo, h) \<Rightarrow>
          (case parseHost h of
             None \<Rightarrow> None
           | Some host \<Rightarrow>
               if \<not> validUserinfo userinfo \<or> url_unescape EncodeUserPassword userinfo = None then None
               else Some (Some userinfo, host)))"

definition setPath :: "string \<Rightarrow> url \<Rightarrow> url option" where
  "setPath p u =
     (case url_unescape EncodePath p of
        None \<Rightarrow> None
      | Some path \<Rightarrow>
          Some (u\<lparr>u_path := path, u_raw_path := (if url_escape EncodePath path = p then [] else p)\<rparr>))"

definition isCTL :: "char \<Rightarrow> bool" where
  "isCTL c \<longleftrightarrow> (of_char c :: nat) < 32 \<or> (of_char c :: nat) = 127"

definition parse_url :: "string \<Rightarrow> url option" where
  "parse_url raw =
     (if list_ex isCTL raw then None
      else if raw = ''*'' then Some (no_url\<lparr>u_path := ''*''\<rparr>)
      else case getScheme raw of
             None \<Rightarrow> None
           | Some (scheme, rest) \<Rightarrow>
               (let url = no_url\<lparr>u_scheme := map to_lower scheme\<rparr>;
                    (rest, url) =
                      (if rest \<noteq> [] \<and> last rest = CHR ''?'' \<and> CHR ''?'' \<notin> set (butlast rest)
                       then (butlast rest, url\<lparr>u_force_query := True\<rparr>)
                       else (case cutOr (CHR ''?'') rest of (rest, q) \<Rightarrow> (rest, url\<lparr>u_raw_query := q\<rparr>)))
                in if \<not> prefix ''/'' rest \<and> u_scheme url \<noteq> [] then Some (url\<lparr>u_opaque := rest\<rparr>)
                   else if \<not> prefix ''/'' rest \<and> CHR '':'' \<in> set (fst (cutOr (CHR ''/'') rest)) then None
                   else if (u_scheme url \<noteq> [] \<or> \<not> prefix ''///'' rest) \<and> prefix ''//'' rest
                   then (case (takeWhile (\<lambda>c. c \<noteq> CHR ''/'') (drop 2 rest), dropWhile (\<lambda>c. c \<noteq> CHR ''/'') (drop 2 rest)) of
                           (authority, rest) \<Rightarrow>
                             (case parseAuthority authority of
                                None \<Rightarrow> None
                              | Some (user, host) \<Rightarrow> setPath rest (url\<lparr>u_user := user, u_host := host\<rparr>)))
                   else setPath rest url))"

definition url_Parse :: "string \<Rightarrow> url option" where
  "url_Parse raw =
     (let (u, frag) = cutOr (CHR ''#'') raw
      in case parse_url u of
           None \<Rightarrow> None
         | Some url \<Rightarrow>
             if frag = [] then Some url
             else map_option (\<lambda>f. url\<lparr>u_fragment := f\<rparr>) (url_unescape EncodeFragment frag))"

subsection \<open>Requests and handlers\<close>

text \<open>
  A body is the bytes that can be read and the error the reading ends in (\<open>None\<close> for EOF).
  \<open>rq_vars\<close> are the variables of the matched route, as \<open>mux.Vars\<close> returns them.
\<close>

type_synonym body = "string \<times> string option"

record request =
  rq_method :: string
  rq_url :: url
  rq_header :: header
  rq_host :: string
  rq_remote_addr :: string
  rq_body :: "body option"
  rq_vars :: "string \<rightharpoonup> string"

definition path_var :: "request \<Rightarrow> string \<Rightarrow> string" where
  "path_var r k = (case rq_vars r k of None \<Rightarrow> [] | Some v \<Rightarrow> v)"

type_synonym 'w handler = "request \<Rightarrow> 'w \<Rightarrow> unit outcome \<times> 'w"

subsection \<open>Query strings\<close>

fun splitOn :: "char \<Rightarrow> string \<Rightarrow> string list" where
  "splitOn sep [] = [[]]"
| "splitOn sep (c # s) =
     (if c = sep then [] # splitOn sep s
      else case splitOn sep s of [] \<Rightarrow> [[c]] | e # es \<Rightarrow> (c # e) # es)"

text \<open>\<open>url.ParseQuery\<close> as used by \<open>URL.Query\<close>: malformed pairs are dropped.\<close>

definition queryStep :: "(string \<rightharpoonup> string list) \<Rightarrow> string \<Rightarrow> (string \<rightharpoonup> string list)" where
  "queryStep m pair =
     (if CHR '';'' \<in> set pair \<or> pair = [] then m
      else let (key, value) = cutOr (CHR ''='') pair
           in case (url_unescape EncodeQueryComponent key, url_unescape EncodeQueryComponent value) of
                (Some k, Some v) \<Rightarrow> m(k \<mapsto> (case m k of None \<Rightarrow> [] | Some vs \<Rightarrow> vs) @ [v])
              | _ \<Rightarrow> m)"

definition ParseQuery :: "string \<Rightarrow> (string \<rightharpoonup> string list)" where
  "ParseQuery query = foldl queryStep (\<lambda>_. None) (splitOn (CHR ''&'') query)"

subsection \<open>Round trips\<close>

lemma unhex_hexDigit: "n < 16 \<Longrightarrow> unhex (hexDigit n) = Some n"
  by (auto simp: unhex_def hexDigit_def between_def)

lemma unescape_hex:
  assumes "mayDecode mode (of_char c)"
  shows "url_unescape mode (CHR ''%'' # hexDigit (of_char c div 16) # hexDigit (of_char c mod 16) # s) =
    map_option ((#) c) (url_unescape mode s)"
proof -
  have "(of_char c :: nat) div 16 < 16" using less_mult_imp_div_less [of "of_char c" 16 16] by simp
  moreover have "of_char c div 16 * 16 + of_char c mod 16 = (of_char c :: nat)" by (rule div_mult_mod_eq)
  ultimately show ?thesis using assms by (simp add: unhex_hexDigit)
qed

lemma alnum_plain: "is_alnum c \<Longrightarrow> c \<noteq> CHR ''%'' \<and> c \<noteq> CHR ''+'' \<and> c \<noteq> CHR ''#'' \<and> c \<noteq> CHR ''?'' \<and>
    c \<noteq> CHR ''/'' \<and> c \<noteq> CHR ''@'' \<and> c \<noteq> CHR ''['' \<and> c \<noteq> CHR '':'' \<and> \<not> isCTL c"
  by (auto simp: is_alnum_def is_lower_def is_upper_def between_def isCTL_def)

lemma url_unescape_escape:
  assumes "mode \<noteq> EncodeHost" and "mode \<noteq> EncodeZone"
  shows "url_unescape mode (url_escape mode s) = Some s"
proof (induction s)
  case (Cons c s)
  have plain: "c \<noteq> CHR ''%'' \<and> (mode = EncodeQueryComponent \<longrightarrow> c \<noteq> CHR ''+'')" if "\<not> shouldEscape mode c"
    using that alnum_plain [of c] assms by (auto simp: shouldEscape_def split: if_splits)
  have "mayDecode mode (of_char c)" using assms by (simp add: mayDecode_def)
  note hex = unescape_hex [OF this]
  show ?case
  proof (cases "shouldEscape mode c \<and> \<not> (c = CHR '' '' \<and> mode = EncodeQueryComponent)")
    case True
    then have "url_escape mode (c # s) =
        CHR ''%'' # hexDigit (of_char c div 16) # hexDigit (of_char c mod 16) # url_escape mode s" by auto
    with hex Cons show ?thesis by (simp only: option.map)
  next
    case False
    with Cons plain assms show ?thesis by (cases "shouldEscape mode c") auto
  qed
qed simp

lemma unescaped_path_char:
  assumes "\<not> shouldEscape EncodePath c"
  shows "is_alnum c \<or> c \<in> set ''-_.~$&+,/:;=@''"
proof (cases "is_alnum c \<or> c \<in> set ''-_.~''")
  case False
  then have "c \<in> set ''$&+,/:;=?@''" using assms by (simp only: shouldEscape_def) (simp split: if_splits)
  with False assms show ?thesis by (simp add: shouldEscape_def)
qed auto

lemma escape_path_chars:
  "c \<in> set (url_escape EncodePath s) \<Longrightarrow> c \<noteq> CHR ''#'' \<and> c \<noteq> CHR ''?'' \<and> \<not> isCTL c"
proof (induction s)
  case (Cons d s)
  have plain: "d \<noteq> CHR ''#'' \<and> d \<noteq> CHR ''?'' \<and> \<not> isCTL d" if "\<not> shouldEscape EncodePath d"
    using unescaped_path_char [OF that] alnum_plain [of d] by (auto simp: isCTL_def)
  have hex: "hexDigit n \<noteq> CHR ''#'' \<and> hexDigit n \<noteq> CHR ''?'' \<and> \<not> isCTL (hexDigit n)" if "n < 16" for n
  proof -
    have "is_alnum (hexDigit n)"
      using that by (auto simp: hexDigit_def is_alnum_def is_lower_def is_upper_def between_def)
    then show ?thesis using alnum_plain by blast
  qed
  have "(of_char d :: nat) div 16 < 16" using less_mult_imp_div_less [of "of_char d" 16 16] by simp
  from hex [OF this] hex [of "of_char d mod 16"] plain Cons show ?case
    by (auto simp: isCTL_def split: if_splits)
qed simp

lemma cut_none: "sep \<notin> set s \<Longrightarrow> cut sep s = None"
  by (induction s) auto

lemma cut_append: "sep \<notin> set a \<Longrightarrow> cut sep (a @ sep # b) = Some (a, b)"
  by (simp add: cut_Some_iff)

lemma cutLast_none: "sep \<notin> set s \<Longrightarrow> cutLast sep s = None"
  by (simp add: cutLast_def cut_none)

lemma cutLast_append: "sep \<notin> set b \<Longrightarrow> cutLast sep (a @ sep # b) = Some (a, b)"
  using cut_append [of sep "rev b" "rev a"] by (simp add: cutLast_def)

lemma cutLast_Some: "cutLast sep s = Some (a, b) \<Longrightarrow> s = a @ sep # b \<and> sep \<notin> set b"
  by (auto simp: cutLast_def cut_Some_iff) (metis append.assoc append_Cons append_Nil rev.simps(2) rev_append rev_rev_ident)

text \<open>Ordinary hosts, schemes and queries.\<close>

definition host_ok :: "string \<Rightarrow> bool" where
  "host_ok h \<longleftrightarrow> h \<noteq> [] \<and> list_all (\<lambda>c. is_alnum c \<or> c \<in> set ''-._~:'') h \<and>
     (case cutLast (CHR '':'') h of None \<Rightarrow> True | Some (_, p) \<Rightarrow> validOptionalPort (CHR '':'' # p))"

definition scheme_ok :: "string \<Rightarrow> bool" where
  "scheme_ok s \<longleftrightarrow> s \<noteq> [] \<and> list_all is_lower s"

definition query_ok :: "string \<Rightarrow> bool" where
  "query_ok q \<longleftrightarrow> list_all (\<lambda>c. c \<noteq> CHR ''#'' \<and> \<not> isCTL c) q"

lemma host_chars:
  assumes "is_alnum c \<or> c \<in> set ''-._~:''"
  shows "\<not> shouldEscape EncodeHost c" "c \<noteq> CHR ''%''" "c \<noteq> CHR ''#''" "c \<noteq> CHR ''?''" "c \<noteq> CHR ''/''"
    "c \<noteq> CHR ''@''" "c \<noteq> CHR ''[''" "\<not> isCTL c"
  using assms alnum_plain [of c] by (auto simp: shouldEscape_def hostMark_def isCTL_def)

lemma host_ok_chars:
  assumes "host_ok h" and "c \<in> set h"
  shows "\<not> shouldEscape EncodeHost c" "c \<noteq> CHR ''%''" "c \<noteq> CHR ''#''" "c \<noteq> CHR ''?''" "c \<noteq> CHR ''/''"
    "c \<noteq> CHR ''@''" "c \<noteq> CHR ''[''" "\<not> isCTL c"
  using assms host_chars [of c] by (auto simp: host_ok_def list_all_iff)

lemma host_plain: "(\<And>c. c \<in> set h \<Longrightarrow> \<not> shouldEscape EncodeHost c \<and> c \<noteq> CHR ''%'') \<Longrightarrow>
    url_escape EncodeHost h = h \<and> url_unescape EncodeHost h = Some h"
  by (induction h) auto

lemma host_ok_parse:
  assumes "host_ok h"
  shows "url_escape EncodeHost h = h" and "parseAuthority h = Some (None, h)"
proof -
  note chars = host_ok_chars [OF assms]
  from chars have p: "url_escape EncodeHost h = h" "url_unescape EncodeHost h = Some h"
    using host_plain [of h] by auto
  then show "url_escape EncodeHost h = h" by simp
  have "\<not> prefix ''['' h" using chars(7) by (cases h) auto
  moreover have "cutLast (CHR ''@'') h = None" using chars(6) by (intro cutLast_none) auto
  ultimately show "parseAuthority h = Some (None, h)"
    using p assms by (auto simp: parseAuthority_def parseHost_def host_ok_def split: option.splits)
qed

lemma schemeLoop_ok:
  assumes "list_all is_lower s" and "done = [] \<longrightarrow> s \<noteq> []"
  shows "schemeLoop raw done (s @ CHR '':'' # r) = Some (rev done @ s, r)"
  using assms
proof (induction s arbitrary: "done")
  case (Cons c s)
  then show ?case by simp
qed (simp add: is_lower_def is_upper_def is_digit_def between_def)

lemma scheme_ok_facts:
  assumes "scheme_ok s"
  shows "map to_lower s = s" and "getScheme (s @ CHR '':'' # r) = Some (s, r)"
    and "c \<in> set s \<Longrightarrow> c \<noteq> CHR ''#'' \<and> \<not> isCTL c"
proof -
  have "to_lower c = c \<and> c \<noteq> CHR ''#'' \<and> \<not> isCTL c" if "is_lower c" for c
    using that by (auto simp: is_lower_def is_upper_def to_lower_def between_def isCTL_def)
  then show "map to_lower s = s" and "c \<in> set s \<Longrightarrow> c \<noteq> CHR ''#'' \<and> \<not> isCTL c"
    using assms by (auto simp: scheme_ok_def list_all_iff intro: map_idI)
  show "getScheme (s @ CHR '':'' # r) = Some (s, r)"
    using assms schemeLoop_ok [of s "[]"] by (simp add: getScheme_def scheme_ok_def)
qed

text \<open>The path as it arrives: with a leading slash, unless it is empty.\<close>

definition slashed :: "string \<Rightarrow> string" where
  "slashed p = (if p = [] \<or> hd p = CHR ''/'' then p else CHR ''/'' # p)"

definition printedPath :: "string \<Rightarrow> string" where
  "printedPath p =
     (let e = (if p = ''*'' then ''*'' else url_escape EncodePath p)
      in (if e \<noteq> [] \<and> hd e \<noteq> CHR ''/'' then ''/'' else []) @ e)"

lemma printedPath:
  shows "printedPath p = [] \<or> hd (printedPath p) = CHR ''/''"
    and "url_unescape EncodePath (printedPath p) = Some (slashed p)"
    and "c \<in> set (printedPath p) \<Longrightarrow> c \<noteq> CHR ''#'' \<and> c \<noteq> CHR ''?'' \<and> \<not> isCTL c"
proof -
  show "printedPath p = [] \<or> hd (printedPath p) = CHR ''/''" by (auto simp: printedPath_def Let_def)
  have slash: "\<not> shouldEscape EncodePath (CHR ''/'')" by code_simp
  show "url_unescape EncodePath (printedPath p) = Some (slashed p)"
  proof (cases "p = ''*''")
    case True
    then show ?thesis by (simp add: printedPath_def slashed_def)
  next
    case False
    note esc = url_unescape_escape [of EncodePath]
    show ?thesis
    proof (cases p)
      case (Cons c r)
      have "hd (url_escape EncodePath p) = CHR ''/'' \<longleftrightarrow> c = CHR ''/''"
        using slash by (auto simp: Cons)
      moreover have "url_escape EncodePath p \<noteq> []" by (auto simp: Cons)
      ultimately show ?thesis
        using False esc [of p] by (auto simp: printedPath_def slashed_def Let_def Cons simp del: url_escape.simps)
    qed (simp add: printedPath_def slashed_def)
  qed
  show "c \<in> set (printedPath p) \<Longrightarrow> c \<noteq> CHR ''#'' \<and> c \<noteq> CHR ''?'' \<and> \<not> isCTL c"
    using escape_path_chars [of c p] by (auto simp: printedPath_def Let_def isCTL_def split: if_splits)
qed

lemma takeWhile_host:
  assumes "CHR ''/'' \<notin> set h" and "P = [] \<or> hd P = CHR ''/''"
  shows "takeWhile (\<lambda>c. c \<noteq> CHR ''/'') (h @ P) = h" and "dropWhile (\<lambda>c. c \<noteq> CHR ''/'') (h @ P) = P"
  using assms by (induction h) (cases P; auto)+

lemma parse_url_ok:
  assumes s: "scheme_ok s" and h: "host_ok h" and q: "query_ok q"
  shows "\<exists>rp. parse_url (s @ ''://'' @ h @ printedPath p @ (if q = [] then [] else CHR ''?'' # q)) =
    Some (no_url\<lparr>u_scheme := s, u_host := h, u_path := slashed p, u_raw_path := rp, u_raw_query := q\<rparr>)"
proof -
  let ?P = "printedPath p" and ?Q = "if q = [] then [] else CHR ''?'' # q"
  let ?rest = "''//'' @ h @ ?P @ ?Q" and ?raw = "s @ ''://'' @ h @ printedPath p @ (if q = [] then [] else CHR ''?'' # q)"
  have ctl: "\<not> list_ex isCTL ?raw"
    using scheme_ok_facts(3) [OF s] host_ok_chars(8) [OF h] printedPath(3) [of _ p] q
    by (auto simp: list_ex_iff query_ok_def list_all_iff isCTL_def)
  have star: "?raw \<noteq> ''*''" using s by (cases s) (auto simp: scheme_ok_def)
  have scheme: "getScheme ?raw = Some (s, ?rest)" using scheme_ok_facts(2) [OF s, of ?rest] by simp
  have noq: "CHR ''?'' \<notin> set (''//'' @ h @ ?P)" using host_ok_chars(4) [OF h] printedPath(3) [of _ p] by auto
  have last: "\<not> (?rest \<noteq> [] \<and> last ?rest = CHR ''?'' \<and> CHR ''?'' \<notin> set (butlast ?rest))"
  proof (cases "q = []")
    case True
    have "last (''//'' @ h @ ?P) \<in> set (''//'' @ h @ ?P)" by (rule last_in_set) simp
    with True noq show ?thesis by (auto simp del: last_appendR)
  next
    case False
    then have "CHR ''?'' \<in> set (butlast ?rest)" by (simp add: butlast_append)
    then show ?thesis by blast
  qed
  have cut: "cutOr (CHR ''?'') ?rest = (''//'' @ h @ ?P, q)"
    using noq cut_none [OF noq] cut_append [OF noq, of q] by (auto simp: cutOr_def)
  note tw = takeWhile_host [of h ?P]
  have "CHR ''/'' \<notin> set h" using host_ok_chars(5) [OF h] by auto
  note tw = tw [OF this printedPath(1)]
  have "s \<noteq> []" using s by (simp add: scheme_ok_def)
  then show ?thesis
    unfolding parse_url_def using ctl star scheme last cut tw scheme_ok_facts(1) [OF s] host_ok_parse(2) [OF h]
    by (auto simp: Let_def setPath_def printedPath(2) no_url_def)
qed

lemma url_Parse_String:
  assumes s: "scheme_ok s" and h: "host_ok h" and q: "query_ok q"
  shows "\<exists>rp. url_Parse (url_String (no_url\<lparr>u_scheme := s, u_host := h, u_path := p, u_raw_query := q\<rparr>)) =
    Some (no_url\<lparr>u_scheme := s, u_host := h, u_path := slashed p, u_raw_path := rp, u_raw_query := q\<rparr>)"
proof -
  let ?raw = "s @ ''://'' @ h @ printedPath p @ (if q = [] then [] else CHR ''?'' # q)"
  have raw: "url_String (no_url\<lparr>u_scheme := s, u_host := h, u_path := p, u_raw_query := q\<rparr>) = ?raw"
    using s host_ok_parse(1) [OF h]
    by (simp add: url_String_def url_EscapedPath_def printedPath_def no_url_def scheme_ok_def Let_def)
  have "CHR ''#'' \<notin> set ?raw"
    using scheme_ok_facts(3) [OF s] host_ok_chars(3) [OF h] printedPath(3) [of _ p] q
    by (auto simp: query_ok_def list_all_iff)
  then have "cutOr (CHR ''#'') ?raw = (?raw, [])" by (simp add: cutOr_def cut_none del: set_append)
  then show ?thesis
    using parse_url_ok [OF assms, of p] unfolding url_Parse_def raw by (simp only: prod.case Let_def) auto
qed

end
