(* ===== verification/Metrics.thy ===== *)
theory Metrics
  imports Float64
begin

text \<open>
  pkg/adaptive/metrics.go: the metrics aggregator.

  The cache server, its client library and the clock are not part of the repository's
  own code: they are the argument \<open>env\<close>, a record of state-passing operations over an
  arbitrary world \<open>'w\<close>. \<open>env_status\<close> and \<open>env_policy\<close> are the client's \<open>Status()\<close>
  and \<open>Policy(name)\<close>, \<open>env_now\<close> is \<open>time.Now()\<close>, \<open>env_sleep\<close> is \<open>time.Sleep\<close>.
  An error of Go is a value of \<open>metrics_error\<close>, with the constructor naming the message.

  Every method of the code holds the aggregator's mutex around its accesses, and a
  pointer into \<open>policyMetrics\<close> never leaves the struct (each view copies the entries),
  so the struct is a value that the methods take and return. Logging is left out.
\<close>

subsection \<open>Data\<close>

record paper_status =
  st_max_size :: "64 word"
  st_used_size :: "64 word"
  st_num_objects :: "64 word"
  st_total_gets :: "64 word"
  st_total_sets :: "64 word"
  st_miss_ratio :: float64
  st_policies :: "string list"
  st_policy :: string

record 'w env =
  env_status :: "'w \<Rightarrow> paper_status result \<times> 'w"
  env_policy :: "string \<Rightarrow> 'w \<Rightarrow> string option \<times> 'w"
  env_now :: "'w \<Rightarrow> instant \<times> 'w"
  env_sleep :: "duration \<Rightarrow> 'w \<Rightarrow> 'w"

record policy_metrics =
  pm_name :: string
  pm_miss_ratio :: float64
  pm_hit_ratio :: float64
  pm_last_updated :: instant
  pm_sample_count :: goint

record metrics_snapshot =
  ms_timestamp :: instant
  ms_current_policy :: string
  ms_miss_ratio :: float64
  ms_cache_size :: "64 word"
  ms_used_size :: "64 word"
  ms_num_objects :: "64 word"
  ms_total_gets :: "64 word"
  ms_total_sets :: "64 word"

record aggregated_metrics =
  ag_current_policy :: string
  ag_current_policy_miss_ratio :: float64
  ag_all_policies_metrics :: "(string, policy_metrics) gomap"
  ag_cache_size :: "64 word"
  ag_history :: "metrics_snapshot list"
  ag_is_complete :: bool

record metrics_aggregator =
  ma_policy_metrics :: "(string, policy_metrics) gomap"
  ma_history :: "metrics_snapshot list"
  ma_max_history_size :: nat
  ma_configured_policies :: "string list"

datatype metrics_error =
    InitialStatusFailed string
  | NoPoliciesConfigured
  | SwitchFailed string string
  | StatusFailedFor string string
  | StatusFailed string

subsection \<open>Operations\<close>

definition NewMetricsAggregator :: metrics_aggregator where
  "NewMetricsAggregator =
     \<lparr>ma_policy_metrics = [], ma_history = [], ma_max_history_size = 10,
      ma_configured_policies = []\<rparr>"

definition ma_Initialize ::
    "'w env \<Rightarrow> metrics_aggregator \<Rightarrow> 'w \<Rightarrow> metrics_error option \<times> metrics_aggregator \<times> 'w" where
  "ma_Initialize env ma w =
     (case env_status env w of
        (Inl e, w) \<Rightarrow> (Some (InitialStatusFailed e), ma, w)
      | (Inr status, w) \<Rightarrow> (None, ma\<lparr>ma_configured_policies := st_policies status\<rparr>, w))"

text \<open>
  The update that \<open>storePolicyMetrics\<close> and \<open>CollectCurrentMetrics\<close> both spell out: an
  existing entry is changed in place (its name stays), otherwise a new one is stored.
\<close>

definition updatePolicyMetrics ::
    "string \<Rightarrow> float64 \<Rightarrow> instant \<Rightarrow> (string, policy_metrics) gomap \<Rightarrow> (string, policy_metrics) gomap" where
  "updatePolicyMetrics policyName missRatio t pms =
     (case map_of pms policyName of
        Some existing \<Rightarrow>
          AList.update policyName
            (existing\<lparr>pm_miss_ratio := missRatio, pm_hit_ratio := 1 - missRatio,
                      pm_last_updated := t,
                      pm_sample_count := wrap64 (pm_sample_count existing + 1)\<rparr>) pms
      | None \<Rightarrow>
          AList.update policyName
            \<lparr>pm_name = policyName, pm_miss_ratio = missRatio, pm_hit_ratio = 1 - missRatio,
             pm_last_updated = t, pm_sample_count = 1\<rparr> pms)"

definition storePolicyMetrics ::
    "'w env \<Rightarrow> metrics_aggregator \<Rightarrow> string \<Rightarrow> paper_status \<Rightarrow> 'w \<Rightarrow> metrics_aggregator \<times> 'w" where
  "storePolicyMetrics env ma policyName status w =
     (let (t, w) = env_now env w
      in (ma\<lparr>ma_policy_metrics :=
             updatePolicyMetrics policyName (st_miss_ratio status) t (ma_policy_metrics ma)\<rparr>, w))"

text \<open>
  The body of the profiling loop: a policy whose switch or status fails is skipped
  (\<open>continue\<close>).
\<close>

fun fastProfileLoop ::
    "'w env \<Rightarrow> string list \<Rightarrow> metrics_aggregator \<Rightarrow> 'w \<Rightarrow> metrics_aggregator \<times> 'w" where
  "fastProfileLoop env [] ma w = (ma, w)"
| "fastProfileLoop env (policyName # ps) ma w =
     (case env_policy env policyName w of
        (Some e, w) \<Rightarrow> fastProfileLoop env ps ma w
      | (None, w) \<Rightarrow>
          (case env_status env (env_sleep env (2 * second) w) of
             (Inl e, w) \<Rightarrow> fastProfileLoop env ps ma w
           | (Inr status, w) \<Rightarrow>
               (case storePolicyMetrics env ma policyName status w of
                  (ma, w) \<Rightarrow> fastProfileLoop env ps ma w)))"

definition FastProfile ::
    "'w env \<Rightarrow> metrics_aggregator \<Rightarrow> 'w \<Rightarrow> metrics_error option \<times> metrics_aggregator \<times> 'w" where
  "FastProfile env ma w =
     (if ma_configured_policies ma = [] then (Some NoPoliciesConfigured, ma, w)
      else (case fastProfileLoop env (ma_configured_policies ma) ma w of (ma, w) \<Rightarrow> (None, ma, w)))"

text \<open>\<open>SimplifiedFastProfile\<close> gives up at the first failure, keeping what it stored.\<close>

fun simplifiedProfileLoop ::
    "'w env \<Rightarrow> string list \<Rightarrow> metrics_aggregator \<Rightarrow> 'w \<Rightarrow> metrics_error option \<times> metrics_aggregator \<times> 'w" where
  "simplifiedProfileLoop env [] ma w = (None, ma, w)"
| "simplifiedProfileLoop env (policyName # ps) ma w =
     (case env_policy env policyName w of
        (Some e, w) \<Rightarrow> (Some (SwitchFailed policyName e), ma, w)
      | (None, w) \<Rightarrow>
          (case env_status env (env_sleep env 2500000000 w) of
             (Inl e, w) \<Rightarrow> (Some (StatusFailedFor policyName e), ma, w)
           | (Inr status, w) \<Rightarrow>
               (case storePolicyMetrics env ma policyName status w of
                  (ma, w) \<Rightarrow> simplifiedProfileLoop env ps ma w)))"

definition SimplifiedFastProfile ::
    "'w env \<Rightarrow> metrics_aggregator \<Rightarrow> 'w \<Rightarrow> metrics_error option \<times> metrics_aggregator \<times> 'w" where
  "SimplifiedFastProfile env ma w = simplifiedProfileLoop env [''lfu'', ''lru''] ma w"

text \<open>
  The aggregated view; the current policy and sizes are those of the latest snapshot. The
  entries are copied field by field.
\<close>

definition copyPolicyMetrics :: "policy_metrics \<Rightarrow> policy_metrics" where
  "copyPolicyMetrics v =
     \<lparr>pm_name = pm_name v, pm_miss_ratio = pm_miss_ratio v, pm_hit_ratio = pm_hit_ratio v,
      pm_last_updated = pm_last_updated v, pm_sample_count = pm_sample_count v\<rparr>"

definition buildAggregatedMetrics :: "metrics_aggregator \<Rightarrow> aggregated_metrics" where
  "buildAggregatedMetrics ma =
     (let aggregated =
        \<lparr>ag_current_policy = '''', ag_current_policy_miss_ratio = 0,
         ag_all_policies_metrics =
           map (\<lambda>(k, v). (k, copyPolicyMetrics v)) (ma_policy_metrics ma),
         ag_cache_size = 0,
         ag_history = ma_history ma,
         ag_is_complete = (length (ma_policy_metrics ma) = length (ma_configured_policies ma))\<rparr>
      in if ma_history ma = [] then aggregated
         else let latest = last (ma_history ma)
              in aggregated\<lparr>ag_current_policy := ms_current_policy latest,
                            ag_current_policy_miss_ratio := ms_miss_ratio latest,
                            ag_cache_size := ms_cache_size latest\<rparr>)"

definition appendSnapshot :: "metrics_aggregator \<Rightarrow> metrics_snapshot \<Rightarrow> metrics_aggregator" where
  "appendSnapshot ma snapshot =
     (let h = ma_history ma @ [snapshot]
      in ma\<lparr>ma_history := (if ma_max_history_size ma < length h then drop 1 h else h)\<rparr>)"

definition snapshotOf :: "paper_status \<Rightarrow> instant \<Rightarrow> metrics_snapshot" where
  "snapshotOf status t =
     \<lparr>ms_timestamp = t, ms_current_policy = st_policy status, ms_miss_ratio = st_miss_ratio status,
      ms_cache_size = st_max_size status, ms_used_size = st_used_size status,
      ms_num_objects = st_num_objects status, ms_total_gets = st_total_gets status,
      ms_total_sets = st_total_sets status\<rparr>"

definition CollectCurrentMetrics ::
    "'w env \<Rightarrow> metrics_aggregator \<Rightarrow> 'w \<Rightarrow>
     (metrics_error + aggregated_metrics) \<times> metrics_aggregator \<times> 'w" where
  "CollectCurrentMetrics env ma w =
     (case env_status env w of
        (Inl e, w) \<Rightarrow> (Inl (StatusFailed e), ma, w)
      | (Inr status, w) \<Rightarrow>
          (let (ma, w) = storePolicyMetrics env ma (st_policy status) status w;
               (t, w) = env_now env w;
               ma = appendSnapshot ma (snapshotOf status t)
           in (Inr (buildAggregatedMetrics ma), ma, w)))"

definition GetAggregatedMetrics :: "metrics_aggregator \<Rightarrow> aggregated_metrics" where
  "GetAggregatedMetrics ma = buildAggregatedMetrics ma"

definition GetPolicyMetrics :: "metrics_aggregator \<Rightarrow> string \<Rightarrow> policy_metrics option" where
  "GetPolicyMetrics ma policyName =
     (case map_of (ma_policy_metrics ma) policyName of
        Some metrics \<Rightarrow> Some (copyPolicyMetrics metrics)
      | None \<Rightarrow> None)"

definition GetHistory :: "metrics_aggregator \<Rightarrow> metrics_snapshot list" where
  "GetHistory ma = ma_history ma"

definition GetLatestSnapshot :: "metrics_aggregator \<Rightarrow> metrics_snapshot option" where
  "GetLatestSnapshot ma = (if ma_history ma = [] then None else Some (last (ma_history ma)))"

definition IsDataComplete :: "metrics_aggregator \<Rightarrow> bool" where
  "IsDataComplete ma \<longleftrightarrow> length (ma_policy_metrics ma) = length (ma_configured_policies ma)"

definition GetConfiguredPolicies :: "metrics_aggregator \<Rightarrow> string list" where
  "GetConfiguredPolicies ma = ma_configured_policies ma"

definition selectBestStep :: "string \<times> float64 \<Rightarrow> string \<times> policy_metrics \<Rightarrow> string \<times> float64" where
  "selectBestStep best entry =
     (case (best, entry) of ((bestPolicy, bestMissRatio), (policyName, metrics)) \<Rightarrow>
        if pm_miss_ratio metrics \<le> bestMissRatio then (policyName, pm_miss_ratio metrics)
        else (bestPolicy, bestMissRatio))"

definition SelectBestPolicy ::
    "(string \<times> policy_metrics) range_order \<Rightarrow> metrics_aggregator \<Rightarrow> string" where
  "SelectBestPolicy ord ma =
     (if ma_policy_metrics ma = [] then ''''
      else fst (foldl selectBestStep ('''', 1) (ord (ma_policy_metrics ma))))"

text \<open>
  \<open>StartMonitoring\<close> as a function of the events its \<open>select\<close> receives: each tick
  collects once and logs; closing the stop channel ends the loop. Indexing the history
  at \<open>len - 1\<close> panics on an empty history, which is the result \<open>None\<close>.
\<close>

datatype monitor_event = MonitorTick | MonitorStop

datatype monitor_log =
    CollectionError metrics_error
  | Current string float64 "64 word"
  | MonitoringStopped

fun StartMonitoring ::
    "'w env \<Rightarrow> monitor_event list \<Rightarrow> metrics_aggregator \<Rightarrow> 'w \<Rightarrow>
     (monitor_log list \<times> metrics_aggregator \<times> 'w) option" where
  "StartMonitoring env [] ma w = Some ([], ma, w)"
| "StartMonitoring env (MonitorStop # es) ma w = Some ([MonitoringStopped], ma, w)"
| "StartMonitoring env (MonitorTick # es) ma w =
     (case CollectCurrentMetrics env ma w of
        (Inl e, ma, w) \<Rightarrow>
          map_option (\<lambda>(l, r). (CollectionError e # l, r)) (StartMonitoring env es ma w)
      | (Inr metrics, ma, w) \<Rightarrow>
          if ag_history metrics = [] then None
          else map_option
                 (\<lambda>(l, r). (Current (ag_current_policy metrics)
                     (ag_current_policy_miss_ratio metrics)
                     (ms_num_objects (last (ag_history metrics))) # l, r))
                 (StartMonitoring env es ma w))"

subsection \<open>Invariant\<close>

text \<open>
  Every entry is stored under its own name with complementary ratios, the keys are
  distinct and the history is within its bound.
\<close>

definition pms_inv :: "(string, policy_metrics) gomap \<Rightarrow> bool" where
  "pms_inv pms \<longleftrightarrow>
     map_ok pms \<and> (\<forall>(k, v) \<in> set pms. pm_name v = k \<and> pm_hit_ratio v = 1 - pm_miss_ratio v)"

definition ma_inv :: "metrics_aggregator \<Rightarrow> bool" where
  "ma_inv ma \<longleftrightarrow>
     pms_inv (ma_policy_metrics ma) \<and> ma_max_history_size ma = 10 \<and> length (ma_history ma) \<le> 10"

lemma copyPolicyMetrics_id [simp]: "copyPolicyMetrics v = v"
  by (simp add: copyPolicyMetrics_def)

lemma map_copy_id [simp]: "map (\<lambda>(k, v). (k, copyPolicyMetrics v)) m = m"
  by (induction m) auto

lemma set_update_subset: "set (AList.update k v m) \<subseteq> insert (k, v) (set m)"
  by (induction m) auto

lemma pms_inv_update:
  assumes "pms_inv pms" and "pm_name v = k" and "pm_hit_ratio v = 1 - pm_miss_ratio v"
  shows "pms_inv (AList.update k v pms)"
  using assms set_update_subset [of k v pms] by (fastforce simp: pms_inv_def)

lemma pms_inv_updatePolicyMetrics:
  assumes "pms_inv pms"
  shows "pms_inv (updatePolicyMetrics k m t pms)"
proof (cases "map_of pms k")
  case None
  then show ?thesis using assms by (simp add: updatePolicyMetrics_def pms_inv_update)
next
  case (Some v)
  then have "pm_name v = k" using assms by (auto simp: pms_inv_def dest: map_of_SomeD)
  with Some assms show ?thesis by (simp add: updatePolicyMetrics_def pms_inv_update)
qed

lemma updatePolicyMetrics_lookup:
  "\<exists>v. map_of (updatePolicyMetrics k m t pms) k = Some v \<and>
       pm_miss_ratio v = m \<and> pm_hit_ratio v = 1 - m \<and> pm_last_updated v = t"
  "k' \<noteq> k \<Longrightarrow> map_of (updatePolicyMetrics k m t pms) k' = map_of pms k'"
  by (simp_all add: updatePolicyMetrics_def split: option.split)

lemma updatePolicyMetrics_nonempty [simp]: "updatePolicyMetrics k m t pms \<noteq> []"
  by (metis map_of.simps(1) option.distinct(1) updatePolicyMetrics_lookup(1))

lemma ma_history_append:
  "ma_history (appendSnapshot ma s) =
     (if ma_max_history_size ma < length (ma_history ma @ [s]) then tl (ma_history ma @ [s])
      else ma_history ma @ [s])"
  by (simp only: appendSnapshot_def Let_def metrics_aggregator.simps metrics_aggregator.update_convs
      One_nat_def drop_Suc drop_0) simp

lemma appendSnapshot_other [simp]:
  "ma_max_history_size (appendSnapshot ma s) = ma_max_history_size ma"
  "ma_policy_metrics (appendSnapshot ma s) = ma_policy_metrics ma"
  "ma_configured_policies (appendSnapshot ma s) = ma_configured_policies ma"
  by (simp_all add: appendSnapshot_def Let_def)

interpretation history: sliding_window appendSnapshot ma_history ma_max_history_size
  by unfold_locales (rule ma_history_append, simp)

lemma ma_inv_New: "ma_inv NewMetricsAggregator"
  by (simp add: ma_inv_def pms_inv_def NewMetricsAggregator_def)

lemma storePolicyMetrics_eq:
  "fst (storePolicyMetrics env ma k st w) =
     ma\<lparr>ma_policy_metrics :=
          updatePolicyMetrics k (st_miss_ratio st) (fst (env_now env w)) (ma_policy_metrics ma)\<rparr>"
  "snd (storePolicyMetrics env ma k st w) = snd (env_now env w)"
  by (simp_all add: storePolicyMetrics_def Let_def split_def)

lemma ma_inv_store: "ma_inv ma \<Longrightarrow> ma_inv (fst (storePolicyMetrics env ma k st w))"
  by (simp add: ma_inv_def storePolicyMetrics_eq pms_inv_updatePolicyMetrics)

lemma ma_inv_store_dest [dest]:
  "storePolicyMetrics env ma k st w = (ma', w') \<Longrightarrow> ma_inv ma \<Longrightarrow> ma_inv ma'"
  using ma_inv_store [of ma env k st w] by simp

lemma ma_inv_append: "ma_inv ma \<Longrightarrow> ma_inv (appendSnapshot ma s)"
  using history.length_push [of ma s] by (simp add: ma_inv_def)

lemma ma_inv_Initialize: "ma_inv ma \<Longrightarrow> ma_inv (fst (snd (ma_Initialize env ma w)))"
  by (simp add: ma_Initialize_def ma_inv_def split: prod.split sum.split)

lemma ma_inv_fastProfileLoop: "ma_inv ma \<Longrightarrow> ma_inv (fst (fastProfileLoop env ps ma w))"
proof (induction env ps ma w rule: fastProfileLoop.induct)
  case (2 env policyName ps ma w)
  from "2.prems" show ?case
    by (auto split: prod.split option.split sum.split intro: "2.IH")
qed simp

lemma ma_inv_FastProfile: "ma_inv ma \<Longrightarrow> ma_inv (fst (snd (FastProfile env ma w)))"
  using ma_inv_fastProfileLoop [of ma env "ma_configured_policies ma" w]
  by (simp add: FastProfile_def split: prod.split)

lemma ma_inv_simplifiedProfileLoop:
  "ma_inv ma \<Longrightarrow> ma_inv (fst (snd (simplifiedProfileLoop env ps ma w)))"
proof (induction env ps ma w rule: simplifiedProfileLoop.induct)
  case (2 env policyName ps ma w)
  from "2.prems" show ?case
    by (auto split: prod.split option.split sum.split intro: "2.IH")
qed simp

lemma ma_inv_Simplified: "ma_inv ma \<Longrightarrow> ma_inv (fst (snd (SimplifiedFastProfile env ma w)))"
  unfolding SimplifiedFastProfile_def by (rule ma_inv_simplifiedProfileLoop)

lemma CollectCurrentMetrics_cases:
  obtains (error) e w' where "env_status env w = (Inl e, w')"
      "CollectCurrentMetrics env ma w = (Inl (StatusFailed e), ma, w')"
  | (ok) status w1 ma' t w2 where "env_status env w = (Inr status, w1)"
      "ma' = appendSnapshot (fst (storePolicyMetrics env ma (st_policy status) status w1)) (snapshotOf status t)"
      "CollectCurrentMetrics env ma w = (Inr (buildAggregatedMetrics ma'), ma', w2)"
  by (cases "env_status env w"; cases "fst (env_status env w)")
    (auto simp: CollectCurrentMetrics_def Let_def split_def)

lemma ma_inv_Collect: "ma_inv ma \<Longrightarrow> ma_inv (fst (snd (CollectCurrentMetrics env ma w)))"
  by (cases rule: CollectCurrentMetrics_cases [of env w ma])
    (simp_all add: ma_inv_store ma_inv_append)

subsection \<open>Selecting the best policy\<close>

interpretation best_policy: best_scan
    selectBestStep "\<lambda>e. (fst e, pm_miss_ratio (snd e))" snd "\<lambda>e. pm_miss_ratio (snd e)"
    "\<lambda>v b. v \<le> b" "\<lambda>v b. v \<le> b" "\<lambda>v. v \<noteq> NaN"
  by unfold_locales
    (auto simp: selectBestStep_def split_def f64_le_refl intro: f64_le_trans,
     (metis f64_less_imp_le f64_not_less)+)

text \<open>
  What the scan returns: nothing usable when no miss ratio is at most 1, otherwise a measured
  policy with a minimal miss ratio.
\<close>

lemma SelectBestPolicy_cases:
  assumes "is_range_order ord" and "map_ok (ma_policy_metrics ma)"
  obtains (none) "SelectBestPolicy ord ma = ''''" "\<forall>e \<in> set (ma_policy_metrics ma). \<not> pm_miss_ratio (snd e) \<le> 1"
  | (some) b where "map_of (ma_policy_metrics ma) (SelectBestPolicy ord ma) = Some b" "pm_miss_ratio b \<le> 1"
      "\<forall>e \<in> set (ma_policy_metrics ma). pm_miss_ratio (snd e) \<noteq> NaN \<longrightarrow> pm_miss_ratio b \<le> pm_miss_ratio (snd e)"
proof (cases "\<forall>e \<in> set (ma_policy_metrics ma). \<not> pm_miss_ratio (snd e) \<le> 1")
  case True
  moreover have "set (ord (ma_policy_metrics ma)) = set (ma_policy_metrics ma)"
    using assms(1) by (rule range_order_set)
  ultimately have "foldl selectBestStep ('''', 1) (ord (ma_policy_metrics ma)) = ('''', 1)"
    by (intro best_policy.scan_none) simp
  then have "SelectBestPolicy ord ma = ''''" by (simp add: SelectBestPolicy_def)
  with True none show thesis by blast
next
  case False
  then obtain x where x: "x \<in> set (ma_policy_metrics ma)" "pm_miss_ratio (snd x) \<le> 1" by blast
  let ?es = "ord (ma_policy_metrics ma)"
  let ?r = "foldl selectBestStep ('''', 1) ?es"
  have es: "set ?es = set (ma_policy_metrics ma)" using assms(1) by (rule range_order_set)
  obtain e where e: "e \<in> set ?es" "?r = (fst e, pm_miss_ratio (snd e))" "pm_miss_ratio (snd e) \<le> 1"
    using best_policy.scan_some [of "('''', 1)" x ?es] x es by auto
  have "map_of (ma_policy_metrics ma) (fst e) = Some (snd e)"
    using e(1) es assms(2) by simp
  moreover have "SelectBestPolicy ord ma = fst e"
    using e(2) x(1) by (auto simp: SelectBestPolicy_def)
  moreover have "pm_miss_ratio (snd e) \<le> pm_miss_ratio (snd f)"
    if "f \<in> set (ma_policy_metrics ma)" "pm_miss_ratio (snd f) \<noteq> NaN" for f
    using best_policy.scan_optimal [of "('''', 1)" f ?es] that e(2) es by simp
  ultimately show thesis using e(3) by (intro some [of "snd e"]) auto
qed

text \<open>
  Property C25: if some measured policy has a miss ratio of at most 1, then whatever
  order the map is visited in, \<open>SelectBestPolicy\<close> returns a measured policy whose miss
  ratio is a number, at most 1, and no larger than the miss ratio of any measured policy.
\<close>

theorem SelectBestPolicy_optimal:
  assumes "is_range_order ord" and "map_ok (ma_policy_metrics ma)"
    and "(k, v) \<in> set (ma_policy_metrics ma)" and "pm_miss_ratio v \<le> 1"
  shows "\<exists>b. map_of (ma_policy_metrics ma) (SelectBestPolicy ord ma) = Some b \<and>
    pm_miss_ratio b \<le> 1 \<and>
    (\<forall>e \<in> set (ma_policy_metrics ma). pm_miss_ratio (snd e) \<noteq> NaN \<longrightarrow>
       pm_miss_ratio b \<le> pm_miss_ratio (snd e))"
  using assms(3,4) by (cases rule: SelectBestPolicy_cases [OF assms(1,2)]) force+

definition example_metrics :: "string \<Rightarrow> float64 \<Rightarrow> string \<times> policy_metrics" where
  "example_metrics name m =
     (name, \<lparr>pm_name = name, pm_miss_ratio = m, pm_hit_ratio = 1 - m, pm_last_updated = 0,
             pm_sample_count = 1\<rparr>)"

definition example_aggregator :: metrics_aggregator where
  "example_aggregator = NewMetricsAggregator
     \<lparr>ma_policy_metrics :=
        [example_metrics ''lfu'' (Fin (1 / 2)), example_metrics ''lru'' (Fin (1 / 4)),
         example_metrics ''sieve'' NaN]\<rparr>"

theorem SelectBestPolicy_optimal_witness:
  "SelectBestPolicy rev example_aggregator = ''lru'' \<and>
   (\<exists>b. map_of (ma_policy_metrics example_aggregator) (SelectBestPolicy rev example_aggregator) = Some b \<and>
    pm_miss_ratio b \<le> 1)"
proof (rule conjI)
  show "SelectBestPolicy rev example_aggregator = ''lru''"
    by (simp add: SelectBestPolicy_def example_aggregator_def example_metrics_def selectBestStep_def)
  show "\<exists>b. map_of (ma_policy_metrics example_aggregator) (SelectBestPolicy rev example_aggregator) = Some b \<and>
    pm_miss_ratio b \<le> 1"
  proof -
    have "map_ok (ma_policy_metrics example_aggregator)"
      and "(''lfu'', snd (example_metrics ''lfu'' (Fin (1 / 2)))) \<in> set (ma_policy_metrics example_aggregator)"
      and "pm_miss_ratio (snd (example_metrics ''lfu'' (Fin (1 / 2)))) \<le> 1"
      by (simp_all add: example_aggregator_def example_metrics_def)
    from SelectBestPolicy_optimal [OF is_range_order_rev this] show ?thesis by blast
  qed
qed

text \<open>
  When no measured policy has a miss ratio of at most 1 (each is NaN or above
  1), \<open>SelectBestPolicy\<close> returns the empty string although metrics are available.
\<close>

theorem SelectBestPolicy_none:
  assumes "is_range_order ord"
    and "\<forall>e \<in> set (ma_policy_metrics ma). \<not> pm_miss_ratio (snd e) \<le> 1"
  shows "SelectBestPolicy ord ma = ''''"
proof -
  have "set (ord (ma_policy_metrics ma)) = set (ma_policy_metrics ma)"
    using assms(1) by (rule range_order_set)
  with assms(2) have "foldl selectBestStep ('''', 1) (ord (ma_policy_metrics ma)) = ('''', 1)"
    by (intro best_policy.scan_none) simp
  then show ?thesis by (simp add: SelectBestPolicy_def)
qed

theorem SelectBestPolicy_none_witness:
  "SelectBestPolicy rev (NewMetricsAggregator\<lparr>ma_policy_metrics := [example_metrics ''lru'' NaN]\<rparr>) = ''''"
  by (rule SelectBestPolicy_none) (simp_all add: example_metrics_def)

subsection \<open>History, monitoring and profiling\<close>

text \<open>
  Appending snapshots keeps exactly the most recent ten of everything
  recorded, in order.
\<close>

theorem history_keeps_last_ten:
  assumes "ma_inv ma"
  shows "ma_history (foldl appendSnapshot ma ss) =
    drop (length (ma_history ma @ ss) - 10) (ma_history ma @ ss)"
  using history.pushes_keep_last [of ma ss] assms by (simp add: ma_inv_def)

definition example_status :: "float64 \<Rightarrow> string \<Rightarrow> paper_status" where
  "example_status m p =
     \<lparr>st_max_size = 1048576, st_used_size = 0, st_num_objects = 0, st_total_gets = 0,
      st_total_sets = 0, st_miss_ratio = m, st_policies = [''lfu'', ''lru''], st_policy = p\<rparr>"

theorem history_keeps_last_ten_witness:
  "ma_history (foldl appendSnapshot NewMetricsAggregator
      (map (\<lambda>i. snapshotOf (example_status 0 ''lru'') (int i)) [0..<12])) =
   drop 2 (map (\<lambda>i. snapshotOf (example_status 0 ''lru'') (int i)) [0..<12])"
proof -
  let ?l = "map (\<lambda>i. snapshotOf (example_status 0 ''lru'') (int i)) [0..<12]"
  have "ma_history NewMetricsAggregator @ ?l = ?l" by (simp add: NewMetricsAggregator_def)
  moreover have "length ?l - 10 = 2" by simp
  ultimately show ?thesis using history_keeps_last_ten [OF ma_inv_New, of ?l] by (simp only:)
qed

lemma Collect_history:
  assumes "CollectCurrentMetrics env ma w = (Inr metrics, ma', w')" and "0 < ma_max_history_size ma"
  shows "ag_history metrics = ma_history ma' \<and> ma_history ma' \<noteq> [] \<and>
    ma_max_history_size ma' = ma_max_history_size ma"
proof -
  let ?g = "\<lambda>k st w. fst (storePolicyMetrics env ma k st w)"
  have "ma_max_history_size (?g k st u) = ma_max_history_size ma" for k st u
    by (simp add: storePolicyMetrics_eq)
  with assms history.push_nonempty [of "?g k st u" x for k st u x] show ?thesis
    by (cases rule: CollectCurrentMetrics_cases [of env w ma])
      (fastforce simp: buildAggregatedMetrics_def Let_def)+
qed

text \<open>
  Monitoring never panics: after a successful collection the history is not
  empty, so indexing its last entry is defined, whatever the server answers.
\<close>

theorem StartMonitoring_no_panic:
  assumes "ma_inv ma"
  shows "\<exists>r. StartMonitoring env es ma w = Some r"
proof -
  have "0 < ma_max_history_size ma \<Longrightarrow> \<exists>r. StartMonitoring env es ma w = Some r"
  proof (induction env es ma w rule: StartMonitoring.induct)
    case (3 env es ma w)
    show ?case
    proof (cases rule: CollectCurrentMetrics_cases [of env w ma])
      case (error e w')
      then show ?thesis using "3.IH"(1) [OF error(2) [symmetric] refl refl] "3.prems" by auto
    next
      case (ok status w1 ma' t w2)
      then show ?thesis
        using "3.IH"(2) [OF ok(3) [symmetric] refl refl] "3.prems" Collect_history [OF ok(3) "3.prems"]
        by auto
    qed
  qed auto
  with assms show ?thesis by (simp add: ma_inv_def)
qed

text \<open>
  A small concrete world for the witnesses: a clock and the active policy of a server
  configured with \<open>lfu\<close> and \<open>lru\<close>, of which \<open>lru\<close> has the lower miss ratio.
\<close>

definition demo_env :: "(instant \<times> string) env" where
  "demo_env =
     \<lparr>env_status = (\<lambda>(t, p). (Inr (example_status (if p = ''lru'' then Fin (1 / 4) else Fin (1 / 2)) p), (t, p))),
      env_policy = (\<lambda>q (t, p). if q = ''lfu'' \<or> q = ''lru'' then (None, (t, q))
                                else (Some ''PaperError: unconfigured policy'', (t, p))),
      env_now = (\<lambda>(t, p). (t, (t, p))),
      env_sleep = (\<lambda>d (t, p). (t + d, p))\<rparr>"

theorem StartMonitoring_no_panic_witness:
  "\<exists>r. StartMonitoring demo_env [MonitorTick, MonitorStop] NewMetricsAggregator (0, ''lru'') = Some r"
  by (rule StartMonitoring_no_panic) (rule ma_inv_New)

lemma keys_updatePolicyMetrics [simp]:
  "fst ` set (updatePolicyMetrics k m t pms) = insert k (fst ` set pms)"
proof -
  have "fst ` set (AList.update k v pms) = insert k (fst ` set pms)" for v
    by (induction pms) auto
  then show ?thesis by (simp add: updatePolicyMetrics_def split: option.split)
qed

lemma keys_store:
  "storePolicyMetrics env ma k st w = (ma', w') \<Longrightarrow>
   set (map_keys (ma_policy_metrics ma')) = insert k (set (map_keys (ma_policy_metrics ma))) \<and>
   ma_configured_policies ma' = ma_configured_policies ma"
  using storePolicyMetrics_eq(1) [of env ma k st w] by simp

definition env_succeeds :: "'w env \<Rightarrow> string list \<Rightarrow> bool" where
  "env_succeeds env ps \<longleftrightarrow>
     (\<forall>p \<in> set ps. \<forall>w. fst (env_policy env p w) = None) \<and>
     (\<forall>w. \<exists>st. fst (env_status env w) = Inr st)"

lemma fastProfileLoop_configured:
  "fastProfileLoop env ps ma w = (ma', w') \<Longrightarrow> ma_configured_policies ma' = ma_configured_policies ma"
proof (induction ps arbitrary: ma w)
  case (Cons p ps)
  from Cons.prems show ?case
    by (auto split: prod.splits option.splits sum.splits dest!: keys_store Cons.IH)
qed simp

lemma fastProfileLoop_keys:
  assumes "env_succeeds env ps" and "fastProfileLoop env ps ma w = (ma', w')"
  shows "set (map_keys (ma_policy_metrics ma')) = set (map_keys (ma_policy_metrics ma)) \<union> set ps"
  using assms
proof (induction ps arbitrary: ma w)
  case Nil
  then show ?case by simp
next
  case (Cons p ps)
  obtain w1 where w1: "env_policy env p w = (None, w1)"
    using Cons.prems(1) by (metis env_succeeds_def list.set_intros(1) prod.collapse)
  obtain st w2 where w2: "env_status env (env_sleep env (2 * second) w1) = (Inr st, w2)"
    using Cons.prems(1) by (metis env_succeeds_def prod.collapse)
  obtain ma3 w3 where w3: "storePolicyMetrics env ma p st w2 = (ma3, w3)" by fastforce
  have "env_succeeds env ps" using Cons.prems(1) by (simp add: env_succeeds_def)
  moreover have "fastProfileLoop env ps ma3 w3 = (ma', w')"
    using Cons.prems(2) w1 w2 w3 by simp
  ultimately show ?case using Cons.IH keys_store [OF w3] by auto
qed

text \<open>
  When every switch and status request succeeds, fast profiling from an empty
  table measures exactly the configured policies and the data is complete.
\<close>

theorem FastProfile_complete:
  assumes "env_succeeds env (ma_configured_policies ma)"
    and "ma_inv ma" and "ma_policy_metrics ma = []"
    and "distinct (ma_configured_policies ma)" and "ma_configured_policies ma \<noteq> []"
    and "FastProfile env ma w = (err, ma', w')"
  shows "err = None \<and>
    set (map_keys (ma_policy_metrics ma')) = set (ma_configured_policies ma) \<and> IsDataComplete ma'"
proof -
  have loop: "fastProfileLoop env (ma_configured_policies ma) ma w = (ma', w')" and err: "err = None"
    using assms(5,6) by (auto simp: FastProfile_def split: prod.splits)
  have keys: "set (map_keys (ma_policy_metrics ma')) = set (ma_configured_policies ma)"
    using fastProfileLoop_keys [OF assms(1) loop] assms(3) by simp
  have "ma_inv ma'" using ma_inv_fastProfileLoop [OF assms(2), of env "ma_configured_policies ma" w] loop
    by simp
  then have "distinct (map_keys (ma_policy_metrics ma'))" by (simp add: ma_inv_def pms_inv_def)
  then have "length (ma_policy_metrics ma') = length (ma_configured_policies ma)"
    using assms(4) keys by (metis distinct_card length_map)
  then show ?thesis
    using err keys fastProfileLoop_configured [OF loop] by (simp add: IsDataComplete_def)
qed

theorem FastProfile_complete_witness:
  "IsDataComplete (fst (snd (FastProfile demo_env
      (NewMetricsAggregator\<lparr>ma_configured_policies := [''lfu'', ''lru'']\<rparr>) (0, ''lru''))))"
proof -
  let ?ma = "NewMetricsAggregator\<lparr>ma_configured_policies := [''lfu'', ''lru'']\<rparr>"
  obtain err ma' w' where r: "FastProfile demo_env ?ma (0, ''lru'') = (err, ma', w')"
    by (metis prod_cases3)
  have "env_succeeds demo_env (ma_configured_policies ?ma)"
    by (auto simp: env_succeeds_def demo_env_def)
  moreover have "ma_inv ?ma" using ma_inv_New by (simp add: ma_inv_def)
  moreover have "ma_policy_metrics ?ma = []" by (simp add: NewMetricsAggregator_def)
  ultimately have "IsDataComplete ma'"
    using FastProfile_complete [OF _ _ _ _ _ r] by simp
  then show ?thesis using r by simp
qed

text \<open>
  Fast profiling reports an error only when no policy is configured; failing
  switches and status requests are skipped, so if every switch fails it still reports
  success and has measured nothing.
\<close>

theorem FastProfile_error_only_unconfigured:
  "fst (FastProfile env ma w) = (if ma_configured_policies ma = [] then Some NoPoliciesConfigured else None)
   \<and> ((\<forall>p w. fst (env_policy env p w) \<noteq> None) \<longrightarrow> fst (snd (FastProfile env ma w)) = ma)"
proof -
  have "fst (fastProfileLoop env ps ma w) = ma" if "\<forall>p w. fst (env_policy env p w) \<noteq> None" for ps
    using that
  proof (induction ps arbitrary: w)
    case (Cons p ps)
    obtain e w1 where "env_policy env p w = (Some e, w1)"
      using Cons.prems by (metis option.exhaust prod.collapse)
    with Cons show ?case by simp
  qed simp
  then show ?thesis by (auto simp: FastProfile_def split: prod.split)
qed

theorem FastProfile_error_only_unconfigured_witness:
  "fst (snd (FastProfile (demo_env\<lparr>env_policy := (\<lambda>p w. (Some ''PaperError: internal'', w))\<rparr>)
     (NewMetricsAggregator\<lparr>ma_configured_policies := [''lfu'']\<rparr>) (0, ''lru''))) =
   NewMetricsAggregator\<lparr>ma_configured_policies := [''lfu'']\<rparr>"
  using FastProfile_error_only_unconfigured
    [of "demo_env\<lparr>env_policy := (\<lambda>p w. (Some ''PaperError: internal'', w))\<rparr>"
        "NewMetricsAggregator\<lparr>ma_configured_policies := [''lfu'']\<rparr>" "(0, ''lru'')"]
  by simp

definition partial_env :: "(instant \<times> string) env" where
  "partial_env = demo_env
     \<lparr>env_status := (\<lambda>w. (Inr (example_status (Fin (1 / 2)) ''auto''), w)),
      env_policy := (\<lambda>q w. if q = ''lfu'' then (None, w) else (Some ''PaperError: internal'', w))\<rparr>"

text \<open>
  \<open>IsDataComplete\<close> (and with it the aggregated view's \<open>IsComplete\<close>) only
  compares two counts. On a server whose switch to \<open>lru\<close> fails and which reports an active
  policy outside its configured list, profiling and one collection make it true while
  \<open>lru\<close>, a configured policy, has no metrics.
\<close>

theorem IsDataComplete_only_counts:
  "let (e1, ma, w) = ma_Initialize partial_env NewMetricsAggregator (0, ''lfu'');
       (e2, ma, w) = FastProfile partial_env ma w;
       (r, ma, w) = CollectCurrentMetrics partial_env ma w
   in e1 = None \<and> e2 = None \<and> IsDataComplete ma \<and>
      ''lru'' \<in> set (GetConfiguredPolicies ma) \<and> GetPolicyMetrics ma ''lru'' = None"
  by (simp add: ma_Initialize_def FastProfile_def CollectCurrentMetrics_def partial_env_def demo_env_def
      example_status_def NewMetricsAggregator_def storePolicyMetrics_def updatePolicyMetrics_def
      appendSnapshot_def IsDataComplete_def GetConfiguredPolicies_def GetPolicyMetrics_def Let_def)

subsection \<open>Functional behaviour of the collecting operations\<close>

text \<open>
  Storing the status of a policy makes its entry report the status's miss
  ratio, the complementary hit ratio, the time read from the clock and one sample more
  than before (1 for a new entry), and leaves every other policy's entry alone.
\<close>

theorem storePolicyMetrics_lookup:
  assumes "ma_inv ma" and "storePolicyMetrics env ma k st w = (ma', w')"
  shows "GetPolicyMetrics ma' k = Some
      \<lparr>pm_name = k, pm_miss_ratio = st_miss_ratio st, pm_hit_ratio = 1 - st_miss_ratio st,
       pm_last_updated = fst (env_now env w),
       pm_sample_count = (case GetPolicyMetrics ma k of
          None \<Rightarrow> 1 | Some v \<Rightarrow> wrap64 (pm_sample_count v + 1))\<rparr>
    \<and> (\<forall>k'. k' \<noteq> k \<longrightarrow> GetPolicyMetrics ma' k' = GetPolicyMetrics ma k')"
proof -
  have ma': "ma_policy_metrics ma' =
      updatePolicyMetrics k (st_miss_ratio st) (fst (env_now env w)) (ma_policy_metrics ma)"
    using storePolicyMetrics_eq(1) [of env ma k st w] assms(2) by simp
  have "pm_name v = k" if "map_of (ma_policy_metrics ma) k = Some v" for v
    using that assms(1) by (auto simp: ma_inv_def pms_inv_def dest: map_of_SomeD)
  then show ?thesis
    by (auto simp: GetPolicyMetrics_def ma' updatePolicyMetrics_def split: option.split)
qed

theorem storePolicyMetrics_lookup_witness:
  "\<exists>v. GetPolicyMetrics (fst (storePolicyMetrics demo_env NewMetricsAggregator ''lru''
      (example_status (Fin (1 / 4)) ''lru'') (5, ''lru''))) ''lru'' = Some v \<and> pm_sample_count v = 1"
proof -
  obtain ma' w' where r: "storePolicyMetrics demo_env NewMetricsAggregator ''lru''
      (example_status (Fin (1 / 4)) ''lru'') (5, ''lru'') = (ma', w')" by (metis prod.collapse)
  from storePolicyMetrics_lookup [OF ma_inv_New r] r show ?thesis
    by (simp add: GetPolicyMetrics_def NewMetricsAggregator_def)
qed

text \<open>
  A failed collection changes nothing and reports the server's error; a
  successful one appends the snapshot of the status, refreshes the entry of the active
  policy, and its aggregated view shows that policy, its miss ratio and the cache size.
\<close>

theorem CollectCurrentMetrics_behaviour:
  assumes "ma_inv ma"
  shows "case CollectCurrentMetrics env ma w of
      (Inl e, ma', w') \<Rightarrow> ma' = ma \<and> (\<exists>msg. fst (env_status env w) = Inl msg \<and> e = StatusFailed msg)
    | (Inr ag, ma', w') \<Rightarrow> \<exists>st t.
        fst (env_status env w) = Inr st \<and> GetLatestSnapshot ma' = Some (snapshotOf st t) \<and>
        (\<exists>v. GetPolicyMetrics ma' (st_policy st) = Some v \<and> pm_miss_ratio v = st_miss_ratio st) \<and>
        ag_current_policy ag = st_policy st \<and> ag_current_policy_miss_ratio ag = st_miss_ratio st \<and>
        ag_cache_size ag = st_max_size st \<and> ag_all_policies_metrics ag = ma_policy_metrics ma'"
proof (cases rule: CollectCurrentMetrics_cases [of env w ma])
  case (error e w')
  then show ?thesis by simp
next
  case (ok st w1 ma' t w2)
  let ?m = "fst (storePolicyMetrics env ma (st_policy st) st w1)"
  have "0 < ma_max_history_size ?m" using assms by (simp add: storePolicyMetrics_eq ma_inv_def)
  then have last: "ma_history ma' \<noteq> []" "last (ma_history ma') = snapshotOf st t"
    using history.push_nonempty [of ?m "snapshotOf st t"] ok(2) by simp_all
  moreover have "\<exists>v. map_of (ma_policy_metrics ma') (st_policy st) = Some v \<and> pm_miss_ratio v = st_miss_ratio st"
    using updatePolicyMetrics_lookup(1) by (fastforce simp: ok(2) storePolicyMetrics_eq)
  ultimately show ?thesis
    using ok(1) unfolding ok(3)
    by (auto simp: GetLatestSnapshot_def GetPolicyMetrics_def buildAggregatedMetrics_def Let_def snapshotOf_def)
qed

theorem CollectCurrentMetrics_behaviour_witness:
  "\<exists>st t. GetLatestSnapshot (fst (snd (CollectCurrentMetrics demo_env NewMetricsAggregator (7, ''lru'')))) =
      Some (snapshotOf st t) \<and> st_policy st = ''lru''"
proof -
  have "fst (env_status demo_env (7, ''lru'')) = Inr (example_status (Fin (1 / 4)) ''lru'')"
    and "st_policy (example_status (Fin (1 / 4)) ''lru'') = ''lru''"
    by (simp_all add: demo_env_def example_status_def)
  then show ?thesis
    using CollectCurrentMetrics_behaviour [OF ma_inv_New, of demo_env "(7, ''lru'')"]
    by (fastforce split: prod.splits sum.splits)
qed

datatype ma_call = CallInitialize | CallFastProfile | CallSimplifiedFastProfile | CallCollect

fun ma_exec :: "'w env \<Rightarrow> ma_call \<Rightarrow> metrics_aggregator \<times> 'w \<Rightarrow> metrics_aggregator \<times> 'w" where
  "ma_exec env CallInitialize (ma, w) = snd (ma_Initialize env ma w)"
| "ma_exec env CallFastProfile (ma, w) = snd (FastProfile env ma w)"
| "ma_exec env CallSimplifiedFastProfile (ma, w) = snd (SimplifiedFastProfile env ma w)"
| "ma_exec env CallCollect (ma, w) = snd (CollectCurrentMetrics env ma w)"

lemma ma_inv_exec: "ma_inv (fst s) \<Longrightarrow> ma_inv (fst (ma_exec env c s))"
  by (cases s; cases c)
    (simp_all add: ma_inv_Initialize ma_inv_FastProfile ma_inv_Simplified ma_inv_Collect)

text \<open>
  Property C36: the aggregator's invariant (entries under their own names with
  complementary ratios, distinct keys, at most ten snapshots) holds after every sequence
  of calls on a fresh aggregator, whatever the server answers.
\<close>

theorem metrics_invariant:
  "ma_inv (fst (foldl (\<lambda>s c. ma_exec env c s) (NewMetricsAggregator, w) calls))"
  by (induction calls rule: rev_induct) (simp_all add: ma_inv_New ma_inv_exec)

end
