(* ===== verification/Trend.thy ===== *)
theory Trend
  imports Metrics
begin

text \<open>
  pkg/adaptive/trend.go: the trend analyzer, a linear regression over the miss ratios of
  one policy in the metrics history.

  The definitions perform the code's floating-point operations in the code's order. The
  lemmas bound every intermediate value for miss ratios in [0,1] (no NaN, no overflow),
  compute the sums over the time index exactly, and relate the slope to the exact
  least-squares line.
\<close>

subsection \<open>Data and operations\<close>

record trend_score =
  ts_indicates_degradation :: bool
  ts_slope :: float64
  ts_variance :: float64
  ts_intercept :: float64
  ts_confidence :: float64
  ts_sample_size :: goint

record trend_analyzer =
  ta_degradation_threshold :: float64
  ta_variance_threshold :: float64
  ta_min_samples :: goint

datatype trend_error = InsufficientData goint goint

definition NewTrendAnalyzer :: trend_analyzer where
  "NewTrendAnalyzer =
     \<lparr>ta_degradation_threshold = f64 (1 / 100), ta_variance_threshold = f64 (5 / 100),
      ta_min_samples = 3\<rparr>"

fun extractMissRatios :: "metrics_snapshot list \<Rightarrow> string \<Rightarrow> float64 list" where
  "extractMissRatios [] policyName = []"
| "extractMissRatios (snapshot # h) policyName =
     (if ms_current_policy snapshot = policyName
      then ms_miss_ratio snapshot # extractMissRatios h policyName
      else extractMissRatios h policyName)"

definition float_mean :: "float64 list \<Rightarrow> float64" where
  "float_mean values = foldl (+) 0 values / f64_of_int (int (length values))"

text \<open>\<open>calculateRSquared\<close>: one pass accumulates both sums of squares.\<close>

definition rSquaredStep ::
    "float64 \<Rightarrow> float64 \<Rightarrow> float64 \<Rightarrow> float64 \<times> float64 \<Rightarrow> nat \<times> float64 \<Rightarrow> float64 \<times> float64" where
  "rSquaredStep slope intercept mean acc iy =
     (case (acc, iy) of ((ssTot, ssRes), (i, y)) \<Rightarrow>
        let x = f64_of_int (int i); predicted = slope * x + intercept
        in (ssTot + (y - mean) * (y - mean), ssRes + (y - predicted) * (y - predicted)))"

definition calculateRSquared :: "float64 list \<Rightarrow> float64 \<Rightarrow> float64 \<Rightarrow> float64" where
  "calculateRSquared values slope intercept =
     (if length values = 0 then 0
      else let mean = float_mean values;
               (ssTot, ssRes) =
                 foldl (rSquaredStep slope intercept mean) (0, 0) (enumerate 0 values)
           in if f64_eq ssTot 0 then 0
              else let rSquared = 1 - ssRes / ssTot
                   in if rSquared < 0 then 0 else rSquared)"

definition regressionStep ::
    "float64 \<times> float64 \<times> float64 \<times> float64 \<Rightarrow> nat \<times> float64 \<Rightarrow> float64 \<times> float64 \<times> float64 \<times> float64" where
  "regressionStep acc iy =
     (case (acc, iy) of ((sumX, sumY, sumXY, sumX2), (i, y)) \<Rightarrow>
        let x = f64_of_int (int i)
        in (sumX + x, sumY + y, sumXY + x * y, sumX2 + x * x))"

definition regressionSums :: "float64 list \<Rightarrow> float64 \<times> float64 \<times> float64 \<times> float64" where
  "regressionSums values = foldl regressionStep (0, 0, 0, 0) (enumerate 0 values)"

definition linearRegression :: "float64 list \<Rightarrow> float64 \<times> float64 \<times> float64" where
  "linearRegression values =
     (let n = f64_of_int (int (length values))
      in if n < Fin 2 then (0, 0, 0)
         else let (sumX, sumY, sumXY, sumX2) = regressionSums values;
                  meanX = sumX / n; meanY = sumY / n;
                  numerator = n * sumXY - sumX * sumY;
                  denominator = n * sumX2 - sumX * sumX
              in if f64_eq denominator 0 then (0, meanY, 0)
                 else let slope = numerator / denominator;
                          intercept = meanY - slope * meanX
                      in (slope, intercept, calculateRSquared values slope intercept))"

definition calculateVariance :: "float64 list \<Rightarrow> float64" where
  "calculateVariance values =
     (if length values = 0 then 0
      else let mean = float_mean values
           in foldl (\<lambda>variance v. let diff = v - mean in variance + diff * diff) 0 values
                / f64_of_int (int (length values)))"

definition AnalyzeTrend ::
    "trend_analyzer \<Rightarrow> metrics_snapshot list \<Rightarrow> string \<Rightarrow> trend_score" where
  "AnalyzeTrend ta h policyName =
     (if int (length h) < ta_min_samples ta
      then \<lparr>ts_indicates_degradation = False, ts_slope = 0, ts_variance = 0, ts_intercept = 0,
            ts_confidence = 0, ts_sample_size = int (length h)\<rparr>
      else let missRatios = extractMissRatios h policyName
           in if int (length missRatios) < ta_min_samples ta
              then \<lparr>ts_indicates_degradation = False, ts_slope = 0, ts_variance = 0,
                    ts_intercept = 0, ts_confidence = 0,
                    ts_sample_size = int (length missRatios)\<rparr>
              else let (slope, intercept, rSquared) = linearRegression missRatios;
                       variance = calculateVariance missRatios;
                       degrading = ta_degradation_threshold ta < slope;
                       unstable = ta_variance_threshold ta < variance
                   in \<lparr>ts_indicates_degradation = (degrading \<or> unstable), ts_slope = slope,
                       ts_variance = variance, ts_intercept = intercept,
                       ts_confidence = rSquared, ts_sample_size = int (length missRatios)\<rparr>)"

definition PredictNextValue ::
    "trend_analyzer \<Rightarrow> metrics_snapshot list \<Rightarrow> string \<Rightarrow> trend_error + (float64 \<times> float64)" where
  "PredictNextValue ta h policyName =
     (let missRatios = extractMissRatios h policyName
      in if int (length missRatios) < ta_min_samples ta
         then Inl (InsufficientData (ta_min_samples ta) (int (length missRatios)))
         else let (slope, intercept, rSquared) = linearRegression missRatios;
                  nextX = f64_of_int (int (length missRatios));
                  predicted = slope * nextX + intercept;
                  predicted = (if predicted < 0 then 0 else if 1 < predicted then 1 else predicted)
              in Inr (predicted, rSquared))"

definition SetThresholds ::
    "trend_analyzer \<Rightarrow> float64 \<Rightarrow> float64 \<Rightarrow> goint \<Rightarrow> trend_analyzer" where
  "SetThresholds ta degradationThreshold varianceThreshold minSamples =
     (let ta = (if 0 < degradationThreshold
                then ta\<lparr>ta_degradation_threshold := degradationThreshold\<rparr> else ta);
          ta = (if 0 < varianceThreshold
                then ta\<lparr>ta_variance_threshold := varianceThreshold\<rparr> else ta)
      in if 0 < minSamples then ta\<lparr>ta_min_samples := minSamples\<rparr> else ta)"

definition GetThresholds :: "trend_analyzer \<Rightarrow> float64 \<times> float64 \<times> goint" where
  "GetThresholds ta = (ta_degradation_threshold ta, ta_variance_threshold ta, ta_min_samples ta)"

definition CalculateStandardDeviation :: "float64 \<Rightarrow> float64" where
  "CalculateStandardDeviation variance = math_sqrt variance"

subsection \<open>Sums stay in range\<close>

abbreviation miss_ok :: "float64 \<Rightarrow> bool" where
  "miss_ok y \<equiv> frange 0 1 y"

lemma extractMissRatios_eq:
  "extractMissRatios h p = map ms_miss_ratio (filter (\<lambda>s. ms_current_policy s = p) h)"
  by (induction h) auto

lemma frange_sum:
  assumes "\<forall>v \<in> set vs. frange 0 (2 powi e) (g v)" and "length vs < 2 ^ 53" and "0 \<le> e" and "e \<le> 900"
  shows "frange 0 (of_nat (length vs) * 2 powi e) (foldl (\<lambda>s v. s + g v) 0 vs)"
  using assms(1,2)
proof (induction vs rule: rev_induct)
  case Nil
  then show ?case by (simp add: zero_float64_def)
next
  case (snoc v vs)
  have "int (Suc (length vs)) < int (2 ^ 53)" using snoc.prems(2) by (simp only: of_nat_less_iff) simp
  then have "exact64 (of_int (int (Suc (length vs))) * 2 powi e)"
    using assms(3,4) by (intro exact64_scaled) auto
  then have "exact64 (of_nat (length vs) * 2 powi e + 2 powi e)" by (simp add: algebra_simps)
  moreover have "frange 0 (of_nat (length vs) * 2 powi e) (foldl (\<lambda>s v. s + g v) 0 vs)"
    using snoc by simp
  ultimately have "frange (0 + 0) (of_nat (length vs) * 2 powi e + 2 powi e) (foldl (\<lambda>s v. s + g v) 0 vs + g v)"
    using snoc.prems(1) by (intro frange_add) auto
  then show ?case by (simp add: algebra_simps)
qed

lemma frange_quotient_unit:
  assumes "frange 0 (of_nat n) x" and "0 < n" and "n < 2 ^ 53"
  shows "frange 0 1 (x / f64_of_int (int n))"
  using assms by (auto simp: f64_of_nat_exact elim!: frangeE intro!: frange_div_unit)

lemma float_mean_range:
  assumes "\<forall>v \<in> set vs. miss_ok v" and "vs \<noteq> []" and "length vs < 2 ^ 53"
  shows "miss_ok (float_mean vs)"
proof -
  have "frange 0 (of_nat (length vs)) (foldl (+) 0 vs)"
    using frange_sum [of vs 0 "\<lambda>v. v"] assms(1,3) by simp
  then show ?thesis unfolding float_mean_def using assms(2,3) by (intro frange_quotient_unit) auto
qed

lemma frange_diff_square:
  assumes "miss_ok v" and "miss_ok m"
  shows "frange 0 1 ((v - m) * (v - m))"
proof -
  have "frange (0 - 1) (1 - 0) (v - m)" using assms by (intro frange_sub) auto
  then show ?thesis using frange_square [of 1 "v - m"] by simp
qed

lemma calculateVariance_range:
  assumes "\<forall>v \<in> set vs. miss_ok v" and "length vs < 2 ^ 53"
  shows "frange 0 1 (calculateVariance vs)"
proof (cases "vs = []")
  case True
  then show ?thesis by (simp add: calculateVariance_def zero_float64_def)
next
  case False
  let ?m = "float_mean vs"
  have "miss_ok ?m" using assms False by (intro float_mean_range)
  then have "frange 0 (of_nat (length vs)) (foldl (\<lambda>s v. s + (v - ?m) * (v - ?m)) 0 vs)"
    using frange_sum [of vs 0 "\<lambda>v. (v - ?m) * (v - ?m)"] assms by (simp add: frange_diff_square)
  then have "frange 0 1 (foldl (\<lambda>s v. s + (v - ?m) * (v - ?m)) 0 vs / f64_of_int (int (length vs)))"
    using False assms(2) by (intro frange_quotient_unit) auto
  then show ?thesis using False by (simp add: calculateVariance_def Let_def)
qed

subsection \<open>The regression sums\<close>

definition sum_index :: "nat \<Rightarrow> rat" where
  "sum_index n = (\<Sum>i<n. of_nat i)"

definition sum_index2 :: "nat \<Rightarrow> rat" where
  "sum_index2 n = (\<Sum>i<n. of_nat i * of_nat i)"

lemma sum_index_closed: "2 * sum_index n = of_nat n * (of_nat n - 1)"
  by (induction n) (auto simp: sum_index_def algebra_simps)

lemma sum_index2_closed: "6 * sum_index2 n = of_nat n * (of_nat n - 1) * (2 * of_nat n - 1)"
  by (induction n) (auto simp: sum_index2_def algebra_simps)

text \<open>The largest history the bounds are stated for; the code keeps ten snapshots.\<close>

abbreviation max_samples :: nat where "max_samples \<equiv> 4096"

lemma sum_index_nat: "sum_index n = of_nat (\<Sum>i<n. i)"
  by (simp add: sum_index_def)

lemma sum_index2_nat: "sum_index2 n = of_nat (\<Sum>i<n. i * i)"
  by (simp add: sum_index2_def)

lemma sum_nat_bounds: "(\<Sum>i<n. i) \<le> n * n" "(\<Sum>i<n. i * i) \<le> n * n * (n::nat)"
proof -
  have "(\<Sum>i<n. i) \<le> (\<Sum>i<n. n)" by (rule sum_mono) simp
  then show "(\<Sum>i<n. i) \<le> n * n" by simp
  have "(\<Sum>i<n. i * i) \<le> (\<Sum>i<n. n * n)" by (rule sum_mono) (simp add: mult_mono)
  then show "(\<Sum>i<n. i * i) \<le> n * n * n" by (simp add: mult.assoc)
qed

lemma max_samples_powers:
  assumes "n \<le> max_samples"
  shows "n * n < 2 ^ 53" "n * n * n < 2 ^ 53" "n * n * n * n < 2 ^ 53"
proof -
  have "n * n \<le> 4096 * 4096" using assms by (intro mult_mono) auto
  moreover from this have "n * n * n \<le> 4096 * 4096 * 4096" using assms by (intro mult_mono) auto
  moreover from this have "n * n * n * n \<le> 4096 * 4096 * 4096 * 4096" using assms by (intro mult_mono) auto
  ultimately show "n * n < 2 ^ 53" "n * n * n < 2 ^ 53" "n * n * n * n < 2 ^ 53" by simp_all
qed

lemma regressionSums_snoc:
  "regressionSums (ys @ [y]) = regressionStep (regressionSums ys) (length ys, y)"
  by (simp add: regressionSums_def enumerate_append_eq)

lemma regressionSums_range:
  assumes "\<forall>y \<in> set ys. miss_ok y" and "length ys \<le> max_samples"
  shows "\<exists>sumY sumXY. regressionSums ys = (Fin (sum_index (length ys)), sumY, sumXY, Fin (sum_index2 (length ys)))
    \<and> frange 0 (of_nat (length ys)) sumY \<and> frange 0 (of_nat (length ys * length ys)) sumXY"
  using assms
proof (induction ys rule: rev_induct)
  case Nil
  then show ?case by (simp add: regressionSums_def zero_float64_def sum_index_def sum_index2_def)
next
  case (snoc y ys)
  let ?n = "length ys"
  obtain sumY sumXY where eq: "regressionSums ys = (Fin (sum_index ?n), sumY, sumXY, Fin (sum_index2 ?n))"
    and sY: "frange 0 (of_nat ?n) sumY" and sXY: "frange 0 (of_nat (?n * ?n)) sumXY"
    using snoc by auto
  have n: "Suc ?n \<le> max_samples" using snoc.prems(2) by simp
  note pow = max_samples_powers [OF n]
  have x: "f64_of_int (int ?n) = Fin (of_nat ?n)" using n by (intro f64_of_nat_exact) simp
  have "(\<Sum>i<Suc ?n. i) < 2 ^ 53" "(\<Sum>i<Suc ?n. i * i) < 2 ^ 53"
    using sum_nat_bounds [of "Suc ?n"] pow by linarith+
  then have X: "Fin (sum_index ?n) + Fin (of_nat ?n) = Fin (sum_index (Suc ?n))"
    and X2: "Fin (sum_index2 ?n) + Fin (of_nat ?n) * Fin (of_nat ?n) = Fin (sum_index2 (Suc ?n))"
    using f64_of_nat [of "?n * ?n"] f64_of_nat [of "\<Sum>i<Suc ?n. i"] f64_of_nat [of "\<Sum>i<Suc ?n. i * i"]
      max_samples_powers(1) [of ?n] n
    by (simp_all add: f64_Fin_simps sum_index_nat sum_index2_nat)
  have y: "miss_ok y" using snoc.prems(1) by simp
  have "frange 0 (of_nat ?n + 1) (sumY + y)"
    using frange_add [OF sY y] exact64_nat [of "Suc ?n"] n by (simp add: add.commute)
  moreover have "frange 0 (of_nat (Suc ?n * Suc ?n)) (sumXY + Fin (of_nat ?n) * y)"
  proof -
    have "frange 0 (of_nat ?n * 1) (Fin (of_nat ?n) * y)"
      using y exact64_nat [of ?n] n by (intro frange_mul_nonneg) auto
    moreover have "exact64 (of_nat (?n * ?n) + of_nat ?n)"
      using exact64_nat [of "?n * ?n + ?n"] pow(1) by simp
    ultimately have "frange 0 (of_nat (?n * ?n) + of_nat ?n) (sumXY + Fin (of_nat ?n) * y)"
      using frange_add [OF sXY, of 0 "of_nat ?n"] by simp
    then show ?thesis by (rule frange_mono) (simp_all add: algebra_simps)
  qed
  ultimately show ?case
    using X X2 by (simp add: regressionSums_snoc eq regressionStep_def Let_def x add.commute)
qed

definition reg_denom :: "nat \<Rightarrow> rat" where
  "reg_denom n = of_nat n * sum_index2 n - sum_index n * sum_index n"

lemma reg_denom_closed: "12 * reg_denom n = of_nat n * of_nat n * (of_nat n * of_nat n - 1)"
proof -
  have "12 * reg_denom n = 2 * of_nat n * (6 * sum_index2 n) - 3 * (2 * sum_index n) * (2 * sum_index n)"
    by (simp add: reg_denom_def)
  also have "\<dots> = of_nat n * of_nat n * (of_nat n * of_nat n - 1)"
    unfolding sum_index2_closed sum_index_closed by (simp add: algebra_simps)
  finally show ?thesis .
qed

lemma reg_denom_ge_1:
  assumes "2 \<le> n"
  shows "1 \<le> reg_denom n"
proof -
  have "(2::rat) \<le> of_nat n" using assms by simp
  then have "(2::rat) * 2 \<le> of_nat n * of_nat n" by (intro mult_mono) auto
  then have "(4::rat) * (4 - 1) \<le> of_nat n * of_nat n * (of_nat n * of_nat n - 1)"
    by (intro mult_mono) auto
  then show ?thesis unfolding reg_denom_closed [symmetric] by simp
qed

lemma float_denominator:
  assumes "n \<le> max_samples"
  shows "Fin (of_nat n) * Fin (sum_index2 n) - Fin (sum_index n) * Fin (sum_index n) = Fin (reg_denom n)"
proof -
  let ?a = "n * (\<Sum>i<n. i * i)" and ?b = "(\<Sum>i<n. i) * (\<Sum>i<n. i)"
  note pow = max_samples_powers [OF assms]
  have "?a \<le> n * (n * n * n)" using sum_nat_bounds(2) by (rule mult_left_mono) simp
  moreover have "?b \<le> (n * n) * (n * n)" using sum_nat_bounds(1) by (intro mult_mono) auto
  ultimately have ab: "?a < 2 ^ 53" "?b < 2 ^ 53"
    using pow(3) by (simp_all only: mult.assoc)
  have "\<And>a b :: nat. a < 2 ^ 53 \<Longrightarrow> b < 2 ^ 53 \<Longrightarrow> \<bar>int a - int b\<bar> < 2 ^ 53" by auto
  from this [OF ab] have "\<bar>int ?a - int ?b\<bar> < 2 ^ 53" .
  then have "exact64 (of_int (int ?a - int ?b))" by (rule exact64_int)
  then have "f64 (of_nat ?a - of_nat ?b) = Fin (of_nat ?a - of_nat ?b)"
    by (intro f64_exact) simp
  then show ?thesis
    using f64_of_nat [OF ab(1)] f64_of_nat [OF ab(2)]
    by (simp add: f64_Fin_simps sum_index_nat sum_index2_nat reg_denom_def del: of_nat_sum)
qed

text \<open>
  Everything \<open>linearRegression\<close> computes for two or more miss ratios, with the exact
  denominator: the guard against a zero denominator is never taken.
\<close>

lemma linearRegression_eq:
  assumes "regressionSums ys = (sumX, sumY, sumXY, sumX2)"
    and "\<forall>y \<in> set ys. miss_ok y" and "2 \<le> length ys" and "length ys \<le> max_samples"
  shows "linearRegression ys =
    (let n = Fin (of_nat (length ys)); slope = (n * sumXY - sumX * sumY) / Fin (reg_denom (length ys));
         intercept = sumY / n - slope * (sumX / n)
     in (slope, intercept, calculateRSquared ys slope intercept))"
proof -
  have n: "f64_of_int (int (length ys)) = Fin (of_nat (length ys))"
    using assms(4) by (intro f64_of_nat_exact) simp
  have "\<not> Fin (of_nat (length ys)) < Fin 2" using assms(3) by simp
  moreover have "sumX = Fin (sum_index (length ys))" "sumX2 = Fin (sum_index2 (length ys))"
    using regressionSums_range [OF assms(2,4)] assms(1) by auto
  ultimately show ?thesis
    using reg_denom_ge_1 [OF assms(3)] float_denominator [OF assms(4)]
    by (simp add: linearRegression_def n assms(1) Let_def)
qed

lemma exact64_powi_nat: "k \<le> 900 \<Longrightarrow> exact64 (2 ^ k)"
  using exact64_powi [of "int k"] by simp

lemma linearRegression_range:
  assumes "\<forall>y \<in> set ys. miss_ok y" and "2 \<le> length ys" and "length ys \<le> max_samples"
    and "linearRegression ys = (slope, intercept, r2)"
  shows "frange (- (2 ^ 36)) (2 ^ 36) slope \<and> frange (- (2 ^ 49)) (2 ^ 49) intercept \<and>
    r2 = calculateRSquared ys slope intercept"
proof -
  let ?n = "length ys"
  obtain sumY sumXY where eq: "regressionSums ys = (Fin (sum_index ?n), sumY, sumXY, Fin (sum_index2 ?n))"
    and sY: "frange 0 (of_nat ?n) sumY" and sXY: "frange 0 (of_nat (?n * ?n)) sumXY"
    using regressionSums_range [OF assms(1,3)] by auto
  have res: "slope = (Fin (of_nat ?n) * sumXY - Fin (sum_index ?n) * sumY) / Fin (reg_denom ?n)"
    "intercept = sumY / Fin (of_nat ?n) - slope * (Fin (sum_index ?n) / Fin (of_nat ?n))"
    "r2 = calculateRSquared ys slope intercept"
    using linearRegression_eq [OF eq assms(1-3)] assms(4) by (auto simp: Let_def)
  have n4: "(of_nat ?n :: rat) \<le> 4096" using assms(3) by (metis of_nat_le_iff of_nat_numeral)
  have s0: "0 \<le> sum_index ?n" by (simp add: sum_index_def sum_nonneg)
  have sn: "sum_index ?n \<le> of_nat ?n * of_nat ?n"
  proof -
    have "(of_nat (\<Sum>i<?n. i) :: rat) \<le> of_nat (?n * ?n)"
      using sum_nat_bounds(1) by (simp only: of_nat_le_iff)
    then show ?thesis by (simp add: sum_index_nat)
  qed
  have n2: "(of_nat ?n * of_nat ?n :: rat) \<le> 2 ^ 24" using mult_mono [OF n4 n4] by simp
  have "frange 0 (2 ^ 12) (Fin (of_nat ?n))" "frange 0 (2 ^ 24) (Fin (sum_index ?n))"
    using n4 sn n2 s0 by simp_all
  moreover have "frange 0 (2 ^ 24) sumXY" "frange 0 (2 ^ 12) sumY"
    using sXY sY n2 n4 by (auto elim!: frange_mono)
  ultimately have "frange 0 (2 ^ 12 * 2 ^ 24) (Fin (of_nat ?n) * sumXY)"
    "frange 0 (2 ^ 24 * 2 ^ 12) (Fin (sum_index ?n) * sumY)"
    by (intro frange_mul_nonneg; simp)+
  then have "frange (0 - 2 ^ 36) (2 ^ 36 - 0) (Fin (of_nat ?n) * sumXY - Fin (sum_index ?n) * sumY)"
    by (intro frange_sub) auto
  then have slope: "frange (- (2 ^ 36)) (2 ^ 36) slope"
    unfolding res(1) using reg_denom_ge_1 [OF assms(2)] by (intro frange_div_ge_1) auto
  have npos: "(0::rat) < of_nat ?n" using assms(2) by (simp only: of_nat_0_less_iff)
  have mX: "frange 0 (2 ^ 12) (Fin (sum_index ?n) / Fin (of_nat ?n))"
  proof -
    have "sum_index ?n / of_nat ?n \<le> of_nat ?n" using sn npos by (simp add: divide_le_eq)
    then have "sum_index ?n / of_nat ?n \<le> 2 ^ 12" using n4 by simp
    then show ?thesis using s0 npos by (simp add: f64_Fin_simps f64_frange)
  qed
  have "frange (- (2 ^ 36 * 2 ^ 12)) (2 ^ 36 * 2 ^ 12) (slope * (Fin (sum_index ?n) / Fin (of_nat ?n)))"
    using slope mX by (intro frange_mul) (auto elim: frange_mono)
  moreover have "frange 0 1 (sumY / Fin (of_nat ?n))"
    using sY npos by (auto elim!: frangeE intro!: frange_div_unit)
  ultimately have "frange (0 - 2 ^ 48) (1 - - (2 ^ 48)) intercept"
    unfolding res(2) by (intro frange_sub) auto
  then have "frange (- (2 ^ 49)) (2 ^ 49) intercept" by (rule frange_mono) auto
  with slope res(3) show ?thesis by blast
qed

subsection \<open>The coefficient of determination\<close>

definition residual2 :: "float64 \<Rightarrow> float64 \<Rightarrow> nat \<times> float64 \<Rightarrow> float64" where
  "residual2 slope intercept iy =
     (let predicted = slope * f64_of_int (int (fst iy)) + intercept
      in (snd iy - predicted) * (snd iy - predicted))"

lemma rSquared_fold:
  "foldl (rSquaredStep slope intercept mean) (t, r) es =
    (foldl (\<lambda>s e. s + (snd e - mean) * (snd e - mean)) t es,
     foldl (\<lambda>s e. s + residual2 slope intercept e) r es)"
  by (induction es arbitrary: t r) (auto simp: rSquaredStep_def residual2_def Let_def)

lemma residual2_range:
  assumes "frange (- (2 ^ 36)) (2 ^ 36) slope" and "frange (- (2 ^ 49)) (2 ^ 49) intercept"
    and "miss_ok y" and "i \<le> max_samples"
  shows "frange 0 (2 ^ 102) (residual2 slope intercept (i, y))"
proof -
  have x: "f64_of_int (int i) = Fin (of_nat i)" using assms(4) by (intro f64_of_nat_exact) simp
  have "(of_nat i :: rat) \<le> of_nat 4096" using assms(4) by (simp only: of_nat_le_iff)
  then have "frange (- (2 ^ 12)) (2 ^ 12) (Fin (of_nat i))" by simp
  then have "frange (- (2 ^ 36 * 2 ^ 12)) (2 ^ 36 * 2 ^ 12) (slope * Fin (of_nat i))"
    using assms(1) by (intro frange_mul) auto
  then have "frange (- (2 ^ 49)) (2 ^ 49) (slope * Fin (of_nat i))" by (rule frange_mono) auto
  then have "frange (- (2 ^ 49) + - (2 ^ 49)) (2 ^ 49 + 2 ^ 49) (slope * Fin (of_nat i) + intercept)"
    using assms(2) exact64_minus [of "2 ^ 50"] by (intro frange_add) auto
  then have "frange (- (2 ^ 50)) (2 ^ 50) (slope * Fin (of_nat i) + intercept)"
    by (rule frange_mono) auto
  then have "frange (0 - 2 ^ 50) (1 - - (2 ^ 50)) (y - (slope * Fin (of_nat i) + intercept))"
    using assms(3) by (intro frange_sub) auto
  then have "frange (- (2 ^ 51)) (2 ^ 51) (y - (slope * Fin (of_nat i) + intercept))"
    by (rule frange_mono) auto
  then have "frange 0 (2 ^ 51 * 2 ^ 51)
      ((y - (slope * Fin (of_nat i) + intercept)) * (y - (slope * Fin (of_nat i) + intercept)))"
    using exact64_powi_nat [of 102] by (intro frange_square) auto
  then show ?thesis by (simp add: residual2_def x Let_def)
qed

lemma one_minus_clamped:
  assumes "0 \<le> (q::float64)"
  shows "frange 0 1 (let r = 1 - q in if r < 0 then 0 else r)"
proof (cases q)
  case (Fin a)
  have "1 - q = f64 (1 - a)" using Fin by (simp add: f64_Fin_simps one_float64_def)
  moreover have "f64 (1 - a) \<le> f64 1" using assms Fin by (intro f64_mono) simp
  ultimately show ?thesis
    by (cases "1 - q < 0") (auto simp: Let_def frange_01 f64_not_less f64_le_refl)
qed (use assms in \<open>auto simp: minus_float64_def one_float64_def zero_float64_def\<close>)

lemma calculateRSquared_range:
  assumes "\<forall>y \<in> set ys. miss_ok y" and "length ys \<le> max_samples"
    and "frange (- (2 ^ 36)) (2 ^ 36) slope" and "frange (- (2 ^ 49)) (2 ^ 49) intercept"
  shows "frange 0 1 (calculateRSquared ys slope intercept)"
proof (cases "ys = []")
  case True
  then show ?thesis by (simp add: calculateRSquared_def zero_float64_def)
next
  case False
  let ?m = "float_mean ys" and ?es = "enumerate 0 ys"
  define tot where "tot = foldl (\<lambda>s e. s + (snd e - ?m) * (snd e - ?m)) 0 ?es"
  define res where "res = foldl (\<lambda>s e. s + residual2 slope intercept e) 0 ?es"
  have es: "snd e \<in> set ys \<and> fst e \<le> max_samples" if "e \<in> set ?es" for e
    using that assms(2) nth_mem [of "fst e" ys] by (auto simp: in_set_enumerate_eq)
  have l: "length ?es < 2 ^ 53" using assms(2) by simp
  have m: "miss_ok ?m" using assms(1,2) False by (intro float_mean_range) auto
  have tot: "frange 0 (of_nat (length ?es) * 2 powi 0) tot" unfolding tot_def
    using es assms(1) m l frange_diff_square by (intro frange_sum) auto
  have "frange 0 (of_nat (length ?es) * 2 powi 102) res" unfolding res_def
    using es assms l residual2_range [OF assms(3,4)] by (intro frange_sum) (auto simp: split_paired_all)
  then have res: "0 \<le> res" "res \<noteq> PInf" by (auto elim!: frangeE simp: zero_float64_def)
  show ?thesis
  proof (cases "f64_eq tot 0")
    case True
    then show ?thesis using False
      by (simp add: calculateRSquared_def Let_def rSquared_fold tot_def res_def)
        (simp add: zero_float64_def)
  next
    case ne: False
    then have "0 < tot" using tot by (auto elim!: frangeE simp: zero_float64_def)
    then have "0 \<le> res / tot" using res by (intro f64_div_nonneg) auto
    from one_minus_clamped [OF this] show ?thesis using False ne
      by (simp add: calculateRSquared_def Let_def rSquared_fold tot_def res_def)
  qed
qed

subsection \<open>Exact arithmetic on a binary grid\<close>

text \<open>
  Miss ratios that are multiples of \<open>2 ^ -k\<close>, few enough for every sum of the regression to
  fit in 53 bits: then only the final division rounds.
\<close>

definition grid_point :: "nat \<Rightarrow> int \<Rightarrow> rat" where
  "grid_point k m = of_int m * 2 powi (- int k)"

definition grid_ok :: "nat \<Rightarrow> int list \<Rightarrow> bool" where
  "grid_ok k ms \<longleftrightarrow> k \<le> 1000 \<and> length ms \<le> max_samples \<and>
     length ms * length ms * length ms * 2 ^ k < 2 ^ 53 \<and>
     (\<forall>m \<in> set ms. 0 \<le> m \<and> m \<le> 2 ^ k)"

definition grid_values :: "nat \<Rightarrow> int list \<Rightarrow> float64 list" where
  "grid_values k ms = map (\<lambda>m. Fin (grid_point k m)) ms"

definition isum_y :: "int list \<Rightarrow> int" where
  "isum_y ms = (\<Sum>i<length ms. ms ! i)"

definition isum_xy :: "int list \<Rightarrow> int" where
  "isum_xy ms = (\<Sum>i<length ms. int i * ms ! i)"

lemma grid_point_add: "grid_point k a + grid_point k b = grid_point k (a + b)"
  by (simp add: grid_point_def algebra_simps)

lemma grid_point_mult_nat: "of_nat n * grid_point k a = grid_point k (int n * a)"
  by (simp add: grid_point_def)

lemma f64_grid: "\<bar>m\<bar> < 2 ^ 53 \<Longrightarrow> k \<le> 1000 \<Longrightarrow> f64 (grid_point k m) = Fin (grid_point k m)"
  unfolding grid_point_def by (intro f64_exact exact64_scaled) auto

lemma isum_snoc:
  "isum_y (ms @ [m]) = isum_y ms + m" "isum_xy (ms @ [m]) = isum_xy ms + int (length ms) * m"
  by (simp_all add: isum_y_def isum_xy_def nth_append)

lemma isum_bounds:
  assumes "\<forall>m \<in> set ms. 0 \<le> m \<and> m \<le> b"
  shows "0 \<le> isum_y ms \<and> isum_y ms \<le> int (length ms) * b"
    and "0 \<le> isum_xy ms \<and> isum_xy ms \<le> int (length ms) * int (length ms) * b"
proof -
  have el: "0 \<le> ms ! i \<and> ms ! i \<le> b" if "i < length ms" for i using that assms by simp
  have "(\<Sum>i<length ms. ms ! i) \<le> (\<Sum>i<length ms. b)" using el by (intro sum_mono) auto
  then show "0 \<le> isum_y ms \<and> isum_y ms \<le> int (length ms) * b"
    using el by (auto simp: isum_y_def intro!: sum_nonneg)
  have "(\<Sum>i<length ms. int i * ms ! i) \<le> (\<Sum>i<length ms. int (length ms) * b)"
    using el by (intro sum_mono mult_mono) auto
  then show "0 \<le> isum_xy ms \<and> isum_xy ms \<le> int (length ms) * int (length ms) * b"
    using el by (auto simp: isum_xy_def algebra_simps intro!: sum_nonneg)
qed

lemma grid_ok_snoc: "grid_ok k (ms @ [m]) \<Longrightarrow> grid_ok k ms"
proof -
  assume g: "grid_ok k (ms @ [m])"
  have "length ms * length ms * length ms * 2 ^ k
      \<le> Suc (length ms) * Suc (length ms) * Suc (length ms) * 2 ^ k"
    by (intro mult_mono) auto
  with g show ?thesis by (auto simp: grid_ok_def)
qed

lemma grid_ok_bounds:
  assumes "grid_ok k ms"
  shows "int (length ms) * 2 ^ k < 2 ^ 53"
    and "int (length ms) * int (length ms) * 2 ^ k < 2 ^ 53"
    and "int (length ms) * int (length ms) * int (length ms) * 2 ^ k < 2 ^ 53"
proof -
  let ?n = "length ms"
  have c: "int (?n * ?n * ?n * 2 ^ k) < int (2 ^ 53)"
    using assms by (simp only: of_nat_less_iff grid_ok_def)
  then show c3: "int ?n * int ?n * int ?n * 2 ^ k < 2 ^ 53" by simp
  have sq: "int ?n \<le> int ?n * int ?n" by (cases ms) auto
  then have "int ?n * int ?n \<le> int ?n * int ?n * int ?n"
    using mult_right_mono [of "int ?n" "int ?n * int ?n" "int ?n"] by simp
  then have "int ?n * int ?n * 2 ^ k \<le> int ?n * int ?n * int ?n * 2 ^ k" by (rule mult_right_mono) simp
  with c3 show c2: "int ?n * int ?n * 2 ^ k < 2 ^ 53" by linarith
  have "int ?n * 2 ^ k \<le> int ?n * int ?n * 2 ^ k" using sq by (rule mult_right_mono) simp
  with c2 show "int ?n * 2 ^ k < 2 ^ 53" by linarith
qed

lemma regressionSums_grid:
  assumes "grid_ok k ms"
  shows "regressionSums (grid_values k ms) =
    (Fin (sum_index (length ms)), Fin (grid_point k (isum_y ms)),
     Fin (grid_point k (isum_xy ms)), Fin (sum_index2 (length ms)))"
  using assms
proof (induction ms rule: rev_induct)
  case Nil
  then show ?case
    by (simp add: regressionSums_def grid_values_def zero_float64_def sum_index_def sum_index2_def
        grid_point_def isum_y_def isum_xy_def)
next
  case (snoc m ms)
  let ?n = "length ms"
  have g: "grid_ok k ms" using snoc.prems by (rule grid_ok_snoc)
  have k: "k \<le> 1000" and mb: "0 \<le> m" "m \<le> 2 ^ k" and n: "Suc ?n \<le> max_samples"
    and all: "\<forall>m \<in> set (ms @ [m]). 0 \<le> m \<and> m \<le> 2 ^ k"
    using snoc.prems by (auto simp: grid_ok_def)
  note pow = max_samples_powers [OF n] and gb = grid_ok_bounds [OF snoc.prems]
  note ib = isum_bounds [OF all]
  have x: "f64_of_int (int ?n) = Fin (of_nat ?n)" using n by (intro f64_of_nat_exact) simp
  have "(\<Sum>i<Suc ?n. i) < 2 ^ 53" "(\<Sum>i<Suc ?n. i * i) < 2 ^ 53"
    using sum_nat_bounds [of "Suc ?n"] pow by linarith+
  then have X: "Fin (sum_index ?n) + Fin (of_nat ?n) = Fin (sum_index (Suc ?n))"
    and X2: "Fin (sum_index2 ?n) + Fin (of_nat ?n) * Fin (of_nat ?n) = Fin (sum_index2 (Suc ?n))"
    using f64_of_nat [of "?n * ?n"] f64_of_nat [of "\<Sum>i<Suc ?n. i"] f64_of_nat [of "\<Sum>i<Suc ?n. i * i"]
      max_samples_powers(1) [of ?n] n
    by (simp_all add: f64_Fin_simps sum_index_nat sum_index2_nat)
  have "\<bar>isum_y (ms @ [m])\<bar> < 2 ^ 53" using ib(1) gb(1) by linarith
  then have Y: "Fin (grid_point k (isum_y ms)) + Fin (grid_point k m) = Fin (grid_point k (isum_y (ms @ [m])))"
    by (simp add: f64_Fin_simps grid_point_add isum_snoc f64_grid k)
  have "int ?n * m \<le> isum_xy (ms @ [m])"
    using isum_bounds(2) [of ms "2 ^ k"] all by (simp add: isum_snoc)
  moreover have "0 \<le> int ?n * m" using mb by simp
  ultimately have "\<bar>isum_xy (ms @ [m])\<bar> < 2 ^ 53" "\<bar>int ?n * m\<bar> < 2 ^ 53"
    using ib(2) gb(2) by linarith+
  then have XY: "Fin (grid_point k (isum_xy ms)) + Fin (of_nat ?n) * Fin (grid_point k m)
      = Fin (grid_point k (isum_xy (ms @ [m])))"
    by (simp add: f64_Fin_simps grid_point_add grid_point_mult_nat isum_snoc f64_grid k)
  show ?case
    using snoc.IH [OF g] X X2 Y XY
    by (simp add: grid_values_def regressionSums_snoc regressionStep_def Let_def x)
qed

subsection \<open>Exact least squares\<close>

definition lsq_slope :: "rat list \<Rightarrow> rat" where
  "lsq_slope qs =
     (of_nat (length qs) * (\<Sum>i<length qs. of_nat i * qs ! i)
        - sum_index (length qs) * (\<Sum>i<length qs. qs ! i)) / reg_denom (length qs)"

definition lsq_intercept :: "rat list \<Rightarrow> rat" where
  "lsq_intercept qs =
     ((\<Sum>i<length qs. qs ! i) - lsq_slope qs * sum_index (length qs)) / of_nat (length qs)"

definition lsq_error :: "rat list \<Rightarrow> rat \<Rightarrow> rat \<Rightarrow> rat" where
  "lsq_error qs a b = (\<Sum>i<length qs. (qs ! i - (a + b * of_nat i)) * (qs ! i - (a + b * of_nat i)))"

lemma lsq_normal_equations:
  assumes "2 \<le> length qs"
  shows "(\<Sum>i<length qs. qs ! i - (lsq_intercept qs + lsq_slope qs * of_nat i)) = 0"
    and "(\<Sum>i<length qs. of_nat i * (qs ! i - (lsq_intercept qs + lsq_slope qs * of_nat i))) = 0"
proof -
  let ?n = "length qs" and ?a = "lsq_intercept qs" and ?b = "lsq_slope qs"
  let ?Y = "\<Sum>i<?n. qs ! i" and ?XY = "\<Sum>i<?n. of_nat i * qs ! i"
  have n: "of_nat ?n \<noteq> (0::rat)" using assms by auto
  have d: "reg_denom ?n \<noteq> 0" using reg_denom_ge_1 [OF assms] by simp
  have a: "of_nat ?n * ?a = ?Y - ?b * sum_index ?n" using n by (simp add: lsq_intercept_def)
  have "(\<Sum>i<?n. qs ! i - (?a + ?b * of_nat i)) = ?Y - of_nat ?n * ?a - ?b * sum_index ?n"
    by (simp add: sum_subtractf sum.distrib sum_distrib_left sum_index_def)
  then show "(\<Sum>i<?n. qs ! i - (?a + ?b * of_nat i)) = 0" using a by simp
  have b: "?b * reg_denom ?n = of_nat ?n * ?XY - sum_index ?n * ?Y"
    using d by (simp add: lsq_slope_def)
  have "(\<Sum>i<?n. of_nat i * (qs ! i - (?a + ?b * of_nat i))) = ?XY - ?a * sum_index ?n - ?b * sum_index2 ?n"
    by (simp add: sum_subtractf sum.distrib sum_distrib_left sum_index_def sum_index2_def algebra_simps)
  moreover have "of_nat ?n * (?XY - ?a * sum_index ?n - ?b * sum_index2 ?n) =
      of_nat ?n * ?XY - (of_nat ?n * ?a) * sum_index ?n - ?b * (of_nat ?n * sum_index2 ?n)"
    by (simp add: algebra_simps)
  moreover have "\<dots> = 0"
    unfolding a using b by (simp add: reg_denom_def algebra_simps)
  ultimately show "(\<Sum>i<?n. of_nat i * (qs ! i - (?a + ?b * of_nat i))) = 0" using n by simp
qed

lemma lsq_optimal:
  assumes "2 \<le> length qs"
  shows "lsq_error qs (lsq_intercept qs) (lsq_slope qs) \<le> lsq_error qs a b"
proof -
  let ?n = "length qs" and ?a = "lsq_intercept qs" and ?b = "lsq_slope qs"
  define r where "r i = qs ! i - (?a + ?b * of_nat i)" for i
  define d where "d i = (?a - a) + (?b - b) * of_nat i" for i :: nat
  have ne: "(\<Sum>i<?n. r i) = 0" "(\<Sum>i<?n. of_nat i * r i) = 0"
    using lsq_normal_equations [OF assms] by (simp_all add: r_def)
  have "lsq_error qs a b = (\<Sum>i<?n. (r i + d i) * (r i + d i))"
    by (simp add: lsq_error_def r_def d_def algebra_simps)
  also have "\<dots> = (\<Sum>i<?n. r i * r i + d i * d i + 2 * (?a - a) * r i + 2 * (?b - b) * (of_nat i * r i))"
    by (intro sum.cong) (simp_all add: d_def algebra_simps)
  also have "\<dots> = (\<Sum>i<?n. r i * r i) + (\<Sum>i<?n. d i * d i)
      + 2 * (?a - a) * (\<Sum>i<?n. r i) + 2 * (?b - b) * (\<Sum>i<?n. of_nat i * r i)"
    by (simp add: sum.distrib sum_distrib_left)
  also have "\<dots> = lsq_error qs ?a ?b + (\<Sum>i<?n. d i * d i)"
    unfolding ne by (simp add: lsq_error_def r_def)
  finally show ?thesis by (simp add: sum_nonneg)
qed

lemma sum_grid: "(\<Sum>i<n. grid_point k (f i)) = grid_point k (\<Sum>i<n. f i)"
  by (simp add: grid_point_def sum_distrib_right)

lemma float_slope_grid:
  assumes "grid_ok k ms" and "2 \<le> length ms"
  shows "(Fin (of_nat (length ms)) * Fin (grid_point k (isum_xy ms))
      - Fin (sum_index (length ms)) * Fin (grid_point k (isum_y ms))) / Fin (reg_denom (length ms))
    = f64 (lsq_slope (map (grid_point k) ms))"
proof -
  let ?n = "length ms" and ?S = "\<Sum>i<length ms. i"
  have k: "k \<le> 1000" and all: "\<forall>m \<in> set ms. 0 \<le> m \<and> m \<le> 2 ^ k"
    using assms(1) by (auto simp: grid_ok_def)
  note ib = isum_bounds [OF all] and gb = grid_ok_bounds [OF assms(1)]
  have SS: "int ?S \<le> int ?n * int ?n"
    using sum_nat_bounds(1) [of ?n] by (simp only: of_nat_mult [symmetric] of_nat_le_iff)
  have "int ?n * isum_xy ms \<le> int ?n * (int ?n * int ?n * 2 ^ k)" using ib(2) by (intro mult_left_mono) auto
  moreover have "0 \<le> int ?n * isum_xy ms" using ib(2) by simp
  moreover have "int ?S * isum_y ms \<le> (int ?n * int ?n) * (int ?n * 2 ^ k)"
    using ib(1) SS by (intro mult_mono) (simp_all del: of_nat_sum)
  moreover have "0 \<le> int ?S * isum_y ms"
    by (rule mult_nonneg_nonneg [OF of_nat_0_le_iff conjunct1 [OF ib(1)]])
  ultimately have lt: "\<bar>int ?n * isum_xy ms\<bar> < 2 ^ 53" "\<bar>int ?S * isum_y ms\<bar> < 2 ^ 53"
    "\<bar>int ?n * isum_xy ms - int ?S * isum_y ms\<bar> < 2 ^ 53"
    using gb(3) by (simp_all only: mult.assoc)
  have S: "sum_index ?n * grid_point k m = grid_point k (int ?S * m)" for m
    by (simp only: sum_index_nat grid_point_mult_nat)
  have minus: "grid_point k a - grid_point k b = grid_point k (a - b)" for a b
    by (simp add: grid_point_def algebra_simps)
  have "lsq_slope (map (grid_point k) ms) = grid_point k (int ?n * isum_xy ms - int ?S * isum_y ms) / reg_denom ?n"
    by (simp add: lsq_slope_def grid_point_mult_nat sum_grid isum_xy_def isum_y_def S minus del: of_nat_sum)
  then show ?thesis
    using f64_grid [OF lt(1) k] f64_grid [OF lt(2) k] f64_grid [OF lt(3) k] reg_denom_ge_1 [OF assms(2)]
    by (simp add: f64_Fin_simps grid_point_mult_nat S minus del: of_nat_sum)
qed

lemma grid_values_ok:
  assumes "grid_ok k ms"
  shows "\<forall>y \<in> set (grid_values k ms). miss_ok y" and "length (grid_values k ms) = length ms"
proof -
  have "frange 0 1 (Fin (grid_point k m))" if "m \<in> set ms" for m
  proof -
    have m: "0 \<le> m" "m \<le> 2 ^ k" using assms that by (auto simp: grid_ok_def)
    have "grid_point k m = of_int m / 2 ^ k" by (simp add: grid_point_def power_int_minus divide_inverse)
    moreover have "(of_int m :: rat) \<le> of_int (2 ^ k)" using m by (simp only: of_int_le_iff)
    ultimately show ?thesis using m by (simp add: divide_le_eq_1)
  qed
  then show "\<forall>y \<in> set (grid_values k ms). miss_ok y" by (auto simp: grid_values_def)
qed (simp add: grid_values_def)

lemma linearRegression_grid:
  assumes "grid_ok k ms" and "2 \<le> length ms"
  shows "fst (linearRegression (grid_values k ms)) = f64 (lsq_slope (map (grid_point k) ms))"
  using linearRegression_eq [OF regressionSums_grid [OF assms(1)] grid_values_ok(1) [OF assms(1)]]
    grid_values_ok(2) [OF assms(1)] assms float_slope_grid [OF assms]
  by (simp add: Let_def grid_ok_def)

lemma regressionSums_y: "fst (snd (regressionSums ys)) = foldl (+) 0 ys"
proof (induction ys rule: rev_induct)
  case (snoc y ys)
  then show ?case
    by (cases "regressionSums ys") (simp add: regressionSums_snoc regressionStep_def Let_def)
qed (simp add: regressionSums_def)

lemma float_mean_constant:
  assumes "grid_ok k (replicate n m)" and "0 < n"
  shows "float_mean (grid_values k (replicate n m)) = Fin (grid_point k m)"
proof -
  have "isum_y (replicate n m) = int n * m" by (simp add: isum_y_def)
  moreover have "n \<le> max_samples" "k \<le> 1000" "0 \<le> m" "m \<le> 2 ^ k"
    using assms by (auto simp: grid_ok_def)
  moreover have "int n * 2 ^ k < 2 ^ 53" using grid_ok_bounds(1) [OF assms(1)] by simp
  moreover have "m \<le> int n * 2 ^ k"
    using mult_mono [of 1 "int n" m "2 ^ k"] \<open>0 \<le> m\<close> \<open>m \<le> 2 ^ k\<close> assms(2) by simp
  ultimately have "foldl (+) 0 (grid_values k (replicate n m)) = Fin (grid_point k (int n * m))"
    and "f64_of_int (int n) = Fin (of_nat n)" and "\<bar>m\<bar> < 2 ^ 53" and "k \<le> 1000"
    using regressionSums_y [of "grid_values k (replicate n m)"] regressionSums_grid [OF assms(1)]
    by (simp_all add: f64_of_nat_exact)
  moreover have "grid_point k (int n * m) / of_nat n = grid_point k m"
    using assms(2) by (simp add: grid_point_def)
  ultimately show ?thesis
    using assms(2) by (simp add: float_mean_def grid_values_def f64_Fin_simps f64_grid)
qed

lemma calculateVariance_constant:
  assumes "grid_ok k (replicate n m)" and "0 < n"
  shows "calculateVariance (grid_values k (replicate n m)) = 0"
proof -
  have "foldl (\<lambda>s v. s + (v - Fin q) * (v - Fin q)) 0 (replicate j (Fin q)) = 0" for q j
    by (induction j) (simp_all add: zero_float64_def f64_Fin_simps f64_exact)
  moreover have "n \<le> max_samples" using assms by (simp add: grid_ok_def)
  ultimately show ?thesis
    using assms float_mean_constant [OF assms]
    by (simp add: calculateVariance_def Let_def grid_values_def f64_of_nat_exact)
      (simp add: zero_float64_def f64_Fin_simps f64_exact)
qed

definition rising :: "int \<Rightarrow> int \<Rightarrow> nat \<Rightarrow> int list" where
  "rising m d n = map (\<lambda>i. m + d * int i) [0..<n]"

lemma lsq_slope_rising:
  assumes "2 \<le> n"
  shows "lsq_slope (map (grid_point k) (rising m d n)) = grid_point k d"
proof -
  let ?qs = "map (grid_point k) (rising m d n)"
  have d: "reg_denom n \<noteq> 0" using reg_denom_ge_1 [OF assms] by simp
  have q: "?qs ! i = grid_point k m + grid_point k d * of_nat i" if "i < n" for i
    using that by (simp add: rising_def grid_point_def algebra_simps)
  have l: "length ?qs = n" by (simp add: rising_def)
  have "(\<Sum>i<n. ?qs ! i) = of_nat n * grid_point k m + grid_point k d * sum_index n"
    using q by (simp add: sum.distrib sum_distrib_left sum_index_def)
  moreover have "(\<Sum>i<n. of_nat i * ?qs ! i) = grid_point k m * sum_index n + grid_point k d * sum_index2 n"
    using q by (simp add: sum.distrib sum_distrib_left sum_index_def sum_index2_def algebra_simps)
  ultimately have "of_nat n * (\<Sum>i<n. of_nat i * ?qs ! i) - sum_index n * (\<Sum>i<n. ?qs ! i) =
      grid_point k d * reg_denom n"
    by (simp add: reg_denom_def algebra_simps)
  then show ?thesis unfolding lsq_slope_def l using d by simp
qed

lemma replicate_rising: "replicate n m = rising m 0 n"
  by (simp add: rising_def map_replicate_const)

lemma AnalyzeTrend_enough:
  assumes "ta_min_samples ta \<le> int (length (extractMissRatios h p))"
  shows "AnalyzeTrend ta h p =
    (let missRatios = extractMissRatios h p; (slope, intercept, rSquared) = linearRegression missRatios;
         variance = calculateVariance missRatios
     in \<lparr>ts_indicates_degradation = (ta_degradation_threshold ta < slope \<or> ta_variance_threshold ta < variance),
         ts_slope = slope, ts_variance = variance, ts_intercept = intercept,
         ts_confidence = rSquared, ts_sample_size = int (length missRatios)\<rparr>)"
proof -
  have "length (extractMissRatios h p) \<le> length h" by (simp add: extractMissRatios_eq)
  with assms have "\<not> int (length h) < ta_min_samples ta" by linarith
  with assms show ?thesis by (simp add: AnalyzeTrend_def Let_def)
qed

subsection \<open>Properties\<close>

lemma linearRegression_bounds:
  assumes "\<forall>y \<in> set ys. miss_ok y" and "length ys \<le> max_samples"
    and "linearRegression ys = (slope, intercept, r2)"
  shows "frange (- (2 ^ 36)) (2 ^ 36) slope \<and> frange (- (2 ^ 49)) (2 ^ 49) intercept \<and> frange 0 1 r2"
proof (cases "2 \<le> length ys")
  case True
  then show ?thesis
    using linearRegression_range [OF assms(1) True assms(2,3)] calculateRSquared_range [OF assms(1,2)] by auto
next
  case False
  then have "length ys \<in> {0, 1}" by (simp add: not_le less_2_cases_iff)
  moreover have "f64_of_int 1 < Fin 2" by (simp add: f64_of_int_exact)
  moreover have "f64_of_int 0 < Fin 2" by (simp add: f64_of_int_exact)
  ultimately have "linearRegression ys = (0, 0, 0)" by (auto simp: linearRegression_def)
  with assms(3) show ?thesis by (auto simp: zero_float64_def)
qed

definition history_ok :: "metrics_snapshot list \<Rightarrow> bool" where
  "history_ok h \<longleftrightarrow> (\<forall>s \<in> set h. 0 \<le> ms_miss_ratio s \<and> ms_miss_ratio s \<le> 1) \<and> length h \<le> max_samples"

lemma history_ok_ratios:
  assumes "history_ok h"
  shows "\<forall>y \<in> set (extractMissRatios h p). miss_ok y" and "length (extractMissRatios h p) \<le> max_samples"
proof -
  show "\<forall>y \<in> set (extractMissRatios h p). miss_ok y"
    using assms by (auto simp: history_ok_def extractMissRatios_eq frange_01)
  have "length (extractMissRatios h p) \<le> length h" by (simp add: extractMissRatios_eq)
  then show "length (extractMissRatios h p) \<le> max_samples"
    using assms unfolding history_ok_def by linarith
qed

definition example_history :: "metrics_snapshot list" where
  "example_history =
     [snapshotOf (example_status (Fin (1 / 4)) ''lru'') 0, snapshotOf (example_status (Fin (1 / 2)) ''lru'') 1,
      snapshotOf (example_status (Fin (1 / 8)) ''lfu'') 2, snapshotOf (example_status (Fin (3 / 4)) ''lru'') 3]"

lemma example_history_ok: "history_ok example_history"
  by (simp add: history_ok_def example_history_def snapshotOf_def example_status_def)

lemma grid_values_example: "grid_values 2 [1, 2, 3] = [Fin (1 / 4), Fin (1 / 2), Fin (3 / 4)]"
  by (simp add: grid_values_def grid_point_def power_int_minus)

lemma example_ratios: "extractMissRatios example_history ''lru'' = grid_values 2 [1, 2, 3]"
  unfolding grid_values_example by (simp add: example_history_def snapshotOf_def example_status_def)

text \<open>
  Property C26: for a history of miss ratios in [0,1] (at most 4096 snapshots; the code keeps
  ten), the analysis of any policy is free of NaN and overflow: slope and intercept are
  finite, the variance and the confidence lie in [0,1]; the sample size is the number of
  the policy's snapshots, and degradation is reported exactly when there are enough of
  them and the slope or the variance exceeds its threshold.
\<close>

theorem AnalyzeTrend_bounds:
  assumes "history_ok h"
  shows "is_finite (ts_slope (AnalyzeTrend ta h p)) \<and> is_finite (ts_intercept (AnalyzeTrend ta h p)) \<and>
    0 \<le> ts_variance (AnalyzeTrend ta h p) \<and> ts_variance (AnalyzeTrend ta h p) \<le> 1 \<and>
    0 \<le> ts_confidence (AnalyzeTrend ta h p) \<and> ts_confidence (AnalyzeTrend ta h p) \<le> 1 \<and>
    (ts_indicates_degradation (AnalyzeTrend ta h p) \<longleftrightarrow>
       ta_min_samples ta \<le> int (length (filter (\<lambda>s. ms_current_policy s = p) h)) \<and>
       (ta_degradation_threshold ta < ts_slope (AnalyzeTrend ta h p) \<or>
        ta_variance_threshold ta < ts_variance (AnalyzeTrend ta h p)))"
proof (cases "int (length (extractMissRatios h p)) < ta_min_samples ta")
  case True
  then show ?thesis
    by (auto simp: AnalyzeTrend_def Let_def extractMissRatios_eq zero_float64_def)
next
  case False
  obtain slope intercept r2 where lr: "linearRegression (extractMissRatios h p) = (slope, intercept, r2)"
    by (metis prod_cases3)
  note hist = history_ok_ratios [OF assms, of p]
  have "frange 0 1 (calculateVariance (extractMissRatios h p))"
    using calculateVariance_range [OF hist(1)] hist(2) by simp
  then show ?thesis
    using False linearRegression_bounds [OF hist lr] AnalyzeTrend_enough [of ta h p] lr
    by (auto simp: Let_def frange_01 extractMissRatios_eq elim!: frangeE)
qed

theorem AnalyzeTrend_bounds_witness:
  "0 \<le> ts_confidence (AnalyzeTrend NewTrendAnalyzer example_history ''lru'') \<and>
   ts_confidence (AnalyzeTrend NewTrendAnalyzer example_history ''lru'') \<le> 1"
  using AnalyzeTrend_bounds [OF example_history_ok, of NewTrendAnalyzer "''lru''"] by simp

text \<open>
  Property C11: on miss ratios that are multiples of \<open>2 ^ -k\<close> (few enough for the sums to be
  exact), the slope the code computes in floating point is the correctly rounded slope of
  the exact least-squares line: no line has a smaller sum of squared residuals.
\<close>

theorem linearRegression_least_squares:
  assumes "grid_ok k ms" and "2 \<le> length ms"
  shows "\<exists>a b. fst (linearRegression (grid_values k ms)) = f64 b \<and>
    (\<forall>a' b'. lsq_error (map (grid_point k) ms) a b \<le> lsq_error (map (grid_point k) ms) a' b')"
  using linearRegression_grid [OF assms] lsq_optimal [of "map (grid_point k) ms"] assms(2) by auto

theorem linearRegression_least_squares_witness:
  "\<exists>a b. fst (linearRegression (grid_values 2 [1, 2, 3])) = f64 b \<and>
     (\<forall>a' b'. lsq_error (map (grid_point 2) [1, 2, 3]) a b \<le> lsq_error (map (grid_point 2) [1, 2, 3]) a' b')"
  by (rule linearRegression_least_squares) (simp_all add: grid_ok_def)

text \<open>
  A miss ratio that rises by the same amount at every snapshot of the policy is
  measured exactly: the slope is that amount, and degradation is indicated as soon as it
  exceeds the threshold.
\<close>

theorem AnalyzeTrend_linear_rise:
  assumes "extractMissRatios h p = grid_values k (rising m d n)" and "grid_ok k (rising m d n)"
    and "2 \<le> n" and "ta_min_samples ta \<le> int n" and "\<bar>d\<bar> < 2 ^ 53"
  shows "ts_slope (AnalyzeTrend ta h p) = Fin (grid_point k d) \<and>
    (ta_degradation_threshold ta < Fin (grid_point k d) \<longrightarrow> ts_indicates_degradation (AnalyzeTrend ta h p))"
proof -
  have l: "length (rising m d n) = n" by (simp add: rising_def)
  have "k \<le> 1000" using assms(2) by (simp add: grid_ok_def)
  then have "fst (linearRegression (grid_values k (rising m d n))) = Fin (grid_point k d)"
    using linearRegression_grid [OF assms(2)] assms(3,5) l by (simp add: lsq_slope_rising f64_grid)
  moreover have "ta_min_samples ta \<le> int (length (extractMissRatios h p))"
    using assms(1,4) grid_values_ok(2) [OF assms(2)] l by simp
  ultimately show ?thesis using assms(1) by (auto simp: AnalyzeTrend_enough Let_def split_def)
qed

theorem AnalyzeTrend_linear_rise_witness:
  "ts_slope (AnalyzeTrend NewTrendAnalyzer example_history ''lru'') = Fin (grid_point 2 1)"
proof -
  have r: "[1, 2, 3] = rising 1 1 3" by code_simp
  show ?thesis
    using AnalyzeTrend_linear_rise [of example_history "''lru''" 2 1 1 3 NewTrendAnalyzer]
      example_ratios [unfolded r]
    by (simp add: grid_ok_def NewTrendAnalyzer_def rising_def)
qed

text \<open>
  A constant miss ratio is never reported as degradation: its slope and its
  variance are computed as exactly 0, which no positive threshold is below.
\<close>

theorem AnalyzeTrend_constant:
  assumes "extractMissRatios h p = grid_values k (replicate n m)" and "grid_ok k (replicate n m)"
    and "0 < ta_degradation_threshold ta" and "0 < ta_variance_threshold ta"
  shows "\<not> ts_indicates_degradation (AnalyzeTrend ta h p)"
proof (cases "int n < ta_min_samples ta \<or> n = 0")
  case True
  then show ?thesis
  proof (cases "n = 0 \<and> \<not> int n < ta_min_samples ta")
    case True
    then have "AnalyzeTrend ta h p = (let (slope, intercept, r) = linearRegression [] in
        \<lparr>ts_indicates_degradation = (ta_degradation_threshold ta < slope \<or> ta_variance_threshold ta < 0),
         ts_slope = slope, ts_variance = 0, ts_intercept = intercept, ts_confidence = r, ts_sample_size = 0\<rparr>)"
      using assms(1) by (subst AnalyzeTrend_enough) (simp_all add: grid_values_def calculateVariance_def Let_def)
    then show ?thesis
      using assms(3,4) by (auto simp: linearRegression_def f64_of_int_exact dest: f64_less_imp_le f64_less_not_le)
  next
    case False
    with True have "int (length (extractMissRatios h p)) < ta_min_samples ta"
      using assms(1) by (auto simp: grid_values_def)
    then show ?thesis by (simp add: AnalyzeTrend_def Let_def)
  qed
next
  case False
  then have n: "0 < n" "ta_min_samples ta \<le> int (length (extractMissRatios h p))"
    using assms(1) by (auto simp: grid_values_def)
  have "fst (linearRegression (grid_values k (replicate n m))) = 0"
  proof (cases "2 \<le> n")
    case True
    with linearRegression_grid [OF assms(2)] show ?thesis
      by (simp add: lsq_slope_rising replicate_rising grid_point_def)
        (simp add: rising_def)
  next
    case False
    with n have "n = 1" by simp
    then show ?thesis by (simp add: linearRegression_def grid_values_def f64_of_int_exact)
  qed
  then show ?thesis
    using assms n calculateVariance_constant [OF assms(2)]
    by (auto simp: AnalyzeTrend_enough Let_def split_def dest: f64_less_imp_le f64_less_not_le)
qed

theorem AnalyzeTrend_constant_witness:
  "\<not> ts_indicates_degradation (AnalyzeTrend NewTrendAnalyzer
      (replicate 4 (snapshotOf (example_status (Fin (1 / 4)) ''lru'') 0)) ''lru'')"
proof (rule AnalyzeTrend_constant)
  show "extractMissRatios (replicate 4 (snapshotOf (example_status (Fin (1 / 4)) ''lru'') 0)) ''lru'' =
      grid_values 2 (replicate 4 1)"
    by (simp add: extractMissRatios_eq snapshotOf_def example_status_def grid_values_def grid_point_def
        power_int_minus)
  show "grid_ok 2 (replicate 4 1)" by (simp add: grid_ok_def)
  show "0 < ta_degradation_threshold NewTrendAnalyzer" "0 < ta_variance_threshold NewTrendAnalyzer"
    by code_simp+
qed

text \<open>
  \<open>PredictNextValue\<close> fails exactly when the policy has fewer snapshots than
  required, and otherwise predicts a miss ratio in [0,1] with a confidence in [0,1].
\<close>

theorem PredictNextValue_range:
  assumes "history_ok h"
  shows "case PredictNextValue ta h p of
      Inl e \<Rightarrow> int (length (extractMissRatios h p)) < ta_min_samples ta \<and>
        e = InsufficientData (ta_min_samples ta) (int (length (extractMissRatios h p)))
    | Inr (predicted, confidence) \<Rightarrow> ta_min_samples ta \<le> int (length (extractMissRatios h p)) \<and>
        0 \<le> predicted \<and> predicted \<le> 1 \<and> 0 \<le> confidence \<and> confidence \<le> 1"
proof (cases "int (length (extractMissRatios h p)) < ta_min_samples ta")
  case True
  then show ?thesis by (simp add: PredictNextValue_def)
next
  case False
  let ?n = "length (extractMissRatios h p)"
  obtain slope intercept r2 where lr: "linearRegression (extractMissRatios h p) = (slope, intercept, r2)"
    by (metis prod_cases3)
  note hist = history_ok_ratios [OF assms, of p]
  note b = linearRegression_bounds [OF hist lr]
  have "(of_nat ?n :: rat) \<le> of_nat 4096" using hist(2) by (simp only: of_nat_le_iff)
  then have "frange (- (2 ^ 12)) (2 ^ 12) (f64_of_int (int ?n))"
    using hist(2) by (simp add: f64_of_nat_exact)
  then have "frange (- (2 ^ 36 * 2 ^ 12)) (2 ^ 36 * 2 ^ 12) (slope * f64_of_int (int ?n))"
    using b by (intro frange_mul) auto
  then have "frange (- (2 ^ 49)) (2 ^ 49) (slope * f64_of_int (int ?n))" by (rule frange_mono) auto
  then have "frange (- (2 ^ 49) + - (2 ^ 49)) (2 ^ 49 + 2 ^ 49) (slope * f64_of_int (int ?n) + intercept)"
    using b exact64_minus [of "2 ^ 50"] by (intro frange_add) auto
  then show ?thesis
    using False b lr
    by (auto simp: PredictNextValue_def Let_def frange_01 zero_float64_def one_float64_def elim!: frangeE)
qed

theorem PredictNextValue_range_witness:
  "case PredictNextValue NewTrendAnalyzer example_history ''lru'' of
     Inl e \<Rightarrow> False | Inr (predicted, confidence) \<Rightarrow> 0 \<le> predicted \<and> predicted \<le> 1"
  using PredictNextValue_range [OF example_history_ok, of "''lru''" NewTrendAnalyzer] example_ratios
  by (auto simp: grid_values_def NewTrendAnalyzer_def split: sum.splits)

definition ta_inv :: "trend_analyzer \<Rightarrow> bool" where
  "ta_inv ta \<longleftrightarrow> 0 < ta_degradation_threshold ta \<and> 0 < ta_variance_threshold ta \<and> 0 < ta_min_samples ta"

lemma ta_inv_New: "ta_inv NewTrendAnalyzer"
  unfolding ta_inv_def by code_simp

text \<open>
  No sequence of \<open>SetThresholds\<close> calls, with whatever arguments (NaN, zero and
  negative ones included), makes a threshold or the sample minimum non-positive; a
  positive argument is what \<open>GetThresholds\<close> returns next.
\<close>

theorem SetThresholds_positive:
  "ta_inv (foldl (\<lambda>ta (d, v, m). SetThresholds ta d v m) NewTrendAnalyzer args) \<and>
   (0 < d \<and> 0 < v \<and> 0 < m \<longrightarrow> GetThresholds (SetThresholds ta d v m) = (d, v, m))"
proof -
  have "ta_inv ta \<Longrightarrow> ta_inv (SetThresholds ta d v m)" for ta d v m
    by (simp add: SetThresholds_def ta_inv_def Let_def)
  then have "ta_inv (foldl (\<lambda>ta (d, v, m). SetThresholds ta d v m) NewTrendAnalyzer args)"
    by (induction args rule: rev_induct) (auto simp: ta_inv_New)
  then show ?thesis by (simp add: SetThresholds_def GetThresholds_def Let_def)
qed

theorem SetThresholds_positive_witness:
  "GetThresholds (SetThresholds NewTrendAnalyzer (Fin (1 / 2)) 1 5) = (Fin (1 / 2), 1, 5)"
  using SetThresholds_positive [of "[]" "Fin (1 / 2)" 1 5 NewTrendAnalyzer] by simp

end
