(* ===== verification/Pattern.thy ===== *)
theory Pattern
  imports Float64
begin

text \<open>
  pkg/adaptive/pattern.go: the workload pattern detector, a sliding window of cache accesses
  and the recency and frequency scores of its two halves.

  The loop over the frequency map visits the keys in the map's iteration order, which is an
  argument of the definitions (floating-point addition is not associative, so the order can
  show in the last bits of the score). Counts of accesses are bounded by the length of a
  slice and cannot overflow an \<open>int\<close>. \<open>time.Now()\<close> is the argument \<open>now\<close>.
\<close>

subsection \<open>Data and operations\<close>

record cache_access =
  ca_key :: string
  ca_timestamp :: instant
  ca_is_hit :: bool

record workload_pattern =
  wp_recency_score :: float64
  wp_frequency_score :: float64
  wp_unique_key_ratio :: float64
  wp_total_accesses :: goint
  wp_unique_keys :: goint
  wp_hit_rate :: float64

record pattern_shift =
  sh_detected :: bool
  sh_temporal_shift :: float64
  sh_frequency_shift :: float64
  sh_recent_pattern :: "workload_pattern option"
  sh_current_pattern :: "workload_pattern option"

record pattern_detector =
  pd_access_log :: "cache_access list"
  pd_window_size :: goint

definition zero_pattern :: workload_pattern where
  "zero_pattern =
     \<lparr>wp_recency_score = 0, wp_frequency_score = 0, wp_unique_key_ratio = 0,
      wp_total_accesses = 0, wp_unique_keys = 0, wp_hit_rate = 0\<rparr>"

definition NewPatternDetector :: "goint \<Rightarrow> pattern_detector" where
  "NewPatternDetector windowSize =
     (let windowSize = (if windowSize \<le> 0 then 1000 else windowSize)
      in \<lparr>pd_access_log = [], pd_window_size = windowSize\<rparr>)"

definition RecordAccess :: "pattern_detector \<Rightarrow> string \<Rightarrow> bool \<Rightarrow> instant \<Rightarrow> pattern_detector" where
  "RecordAccess pd key isHit now =
     (let access = \<lparr>ca_key = key, ca_timestamp = now, ca_is_hit = isHit\<rparr>;
          accessLog = pd_access_log pd @ [access]
      in pd\<lparr>pd_access_log :=
            (if pd_window_size pd < int (length accessLog) then drop 1 accessLog else accessLog)\<rparr>)"

fun countHits :: "cache_access list \<Rightarrow> goint" where
  "countHits [] = 0"
| "countHits (access # as) = (if ca_is_hit access then 1 + countHits as else countHits as)"

definition calculateRecencyScore :: "cache_access list \<Rightarrow> float64" where
  "calculateRecencyScore accesses =
     (if length accesses < 4 then 0
      else let recentSize = length accesses div 4;
               recentSize = (if recentSize < 1 then 1 else recentSize);
               recentAccesses = drop (length accesses - recentSize) accesses;
               recentHits = countHits recentAccesses
           in f64_of_int recentHits / f64_of_int (int (length recentAccesses)))"

definition calculateFrequencyScore ::
    "(string \<times> goint) range_order \<Rightarrow> (string, goint) gomap \<Rightarrow> nat \<Rightarrow> float64" where
  "calculateFrequencyScore ord frequencyMap totalAccesses =
     (if length frequencyMap < 2 then 0
      else let mean = f64_of_int (int totalAccesses) / f64_of_int (int (length frequencyMap));
               variance = foldl (\<lambda>variance (key, count).
                   let diff = f64_of_int count - mean in variance + diff * diff) 0 (ord frequencyMap);
               variance = variance / f64_of_int (int (length frequencyMap));
               stddev = math_sqrt variance;
               cv = stddev / mean
           in math_min (cv / Fin 2) 1)"

text \<open>One step of the loop that fills the frequency map and counts the hits.\<close>

definition countAccess :: "(string, goint) gomap \<times> goint \<Rightarrow> cache_access \<Rightarrow> (string, goint) gomap \<times> goint" where
  "countAccess acc access =
     (let (frequencyMap, hitCount) = acc;
          old = (case map_of frequencyMap (ca_key access) of None \<Rightarrow> 0 | Some c \<Rightarrow> c)
      in (AList.update (ca_key access) (old + 1) frequencyMap,
          if ca_is_hit access then hitCount + 1 else hitCount))"

definition extractPattern ::
    "(string \<times> goint) range_order \<Rightarrow> cache_access list \<Rightarrow> workload_pattern" where
  "extractPattern ord accesses =
     (if length accesses = 0 then zero_pattern
      else let recencyScore = calculateRecencyScore accesses;
               (frequencyMap, hitCount) = foldl countAccess ([], 0) accesses;
               frequencyScore = calculateFrequencyScore ord frequencyMap (length accesses);
               uniqueKeys = int (length frequencyMap);
               uniqueKeyRatio = f64_of_int uniqueKeys / f64_of_int (int (length accesses));
               hitRate = f64_of_int hitCount / f64_of_int (int (length accesses))
           in \<lparr>wp_recency_score = recencyScore, wp_frequency_score = frequencyScore,
               wp_unique_key_ratio = uniqueKeyRatio, wp_total_accesses = int (length accesses),
               wp_unique_keys = uniqueKeys, wp_hit_rate = hitRate\<rparr>)"

definition DetectShift ::
    "(string \<times> goint) range_order \<Rightarrow> (string \<times> goint) range_order \<Rightarrow> pattern_detector \<Rightarrow> pattern_shift" where
  "DetectShift ord1 ord2 pd =
     (if int (length (pd_access_log pd)) < pd_window_size pd
      then \<lparr>sh_detected = False, sh_temporal_shift = 0, sh_frequency_shift = 0,
            sh_recent_pattern = None, sh_current_pattern = None\<rparr>
      else let midpoint = length (pd_access_log pd) div 2;
               recentPattern = extractPattern ord1 (take midpoint (pd_access_log pd));
               currentPattern = extractPattern ord2 (drop midpoint (pd_access_log pd));
               temporalShift = \<bar>wp_recency_score recentPattern - wp_recency_score currentPattern\<bar>;
               frequencyShift = \<bar>wp_frequency_score recentPattern - wp_frequency_score currentPattern\<bar>;
               shiftThreshold = f64 (1 / 10);
               detected = (shiftThreshold < temporalShift \<or> shiftThreshold < frequencyShift)
           in \<lparr>sh_detected = detected, sh_temporal_shift = temporalShift,
               sh_frequency_shift = frequencyShift, sh_recent_pattern = Some recentPattern,
               sh_current_pattern = Some currentPattern\<rparr>)"

definition GetCurrentPattern :: "(string \<times> goint) range_order \<Rightarrow> pattern_detector \<Rightarrow> workload_pattern" where
  "GetCurrentPattern ord pd =
     (if length (pd_access_log pd) = 0 then zero_pattern else extractPattern ord (pd_access_log pd))"

definition GetAccessLogSize :: "pattern_detector \<Rightarrow> goint" where
  "GetAccessLogSize pd = int (length (pd_access_log pd))"

definition Clear :: "pattern_detector \<Rightarrow> pattern_detector" where
  "Clear pd = pd\<lparr>pd_access_log := []\<rparr>"

subsection \<open>The window\<close>

type_synonym access_event = "string \<times> bool \<times> instant"

definition record_event :: "pattern_detector \<Rightarrow> cache_access \<Rightarrow> pattern_detector" where
  "record_event pd a = RecordAccess pd (ca_key a) (ca_is_hit a) (ca_timestamp a)"

definition pd_inv :: "pattern_detector \<Rightarrow> bool" where
  "pd_inv pd \<longleftrightarrow> 0 < pd_window_size pd \<and> int (length (pd_access_log pd)) \<le> pd_window_size pd"

abbreviation pd_cap :: "pattern_detector \<Rightarrow> nat" where
  "pd_cap pd \<equiv> nat (pd_window_size pd)"

lemma RecordAccess_log:
  "pd_access_log (record_event pd a) =
    (if pd_cap pd < length (pd_access_log pd @ [a]) then tl (pd_access_log pd @ [a])
     else pd_access_log pd @ [a])"
proof -
  have "nat w < Suc n \<longleftrightarrow> w < int (Suc n)" for w n by auto
  then show ?thesis
    unfolding record_event_def RecordAccess_def Let_def
    by (cases a) (simp add: drop_Suc del: drop_append)
qed

lemma pd_window_RecordAccess [simp]:
  "pd_window_size (RecordAccess pd k h t) = pd_window_size pd"
  "pd_window_size (record_event pd a) = pd_window_size pd"
  by (simp_all add: RecordAccess_def record_event_def Let_def)

interpretation access_log: sliding_window record_event pd_access_log "\<lambda>pd. nat (pd_window_size pd)"
  by unfold_locales (rule RecordAccess_log, simp)

lemma pd_inv_length: "pd_inv pd \<longleftrightarrow> 0 < pd_window_size pd \<and> length (pd_access_log pd) \<le> pd_cap pd"
  by (auto simp: pd_inv_def)

lemma pd_inv_New: "pd_inv (NewPatternDetector n)"
  by (simp add: pd_inv_def NewPatternDetector_def Let_def)

lemma pd_inv_record: "pd_inv pd \<Longrightarrow> pd_inv (record_event pd a)"
  using access_log.length_push [of pd a] by (simp add: pd_inv_length)

lemma pd_inv_RecordAccess: "pd_inv pd \<Longrightarrow> pd_inv (RecordAccess pd k h t)"
  using pd_inv_record [of pd "\<lparr>ca_key = k, ca_timestamp = t, ca_is_hit = h\<rparr>"] by (simp add: record_event_def)

lemma pd_inv_Clear: "pd_inv pd \<Longrightarrow> pd_inv (Clear pd)"
  by (simp add: pd_inv_def Clear_def)

lemma pd_inv_records: "pd_inv pd \<Longrightarrow> pd_inv (foldl record_event pd as)"
  by (induction as arbitrary: pd) (simp_all add: pd_inv_record)

lemma pd_window_records: "pd_window_size (foldl record_event pd as) = pd_window_size pd"
  by (induction as arbitrary: pd) simp_all

lemma pd_log_records:
  "pd_inv pd \<Longrightarrow> pd_access_log (foldl record_event pd as) =
    drop (length (pd_access_log pd @ as) - pd_cap pd) (pd_access_log pd @ as)"
  by (rule access_log.pushes_keep_last) (simp add: pd_inv_length)

subsection \<open>Frequency counts\<close>

definition key_count :: "cache_access list \<Rightarrow> string \<Rightarrow> nat" where
  "key_count as k = length (filter (\<lambda>a. ca_key a = k) as)"

definition frequency_map :: "cache_access list \<Rightarrow> (string, goint) gomap" where
  "frequency_map as = fst (foldl countAccess ([], 0) as)"

lemma countHits_eq: "countHits as = int (length (filter ca_is_hit as))"
  by (induction as) auto

lemma countAccess_hits: "snd (foldl countAccess (fm, n) as) = n + countHits as"
  by (induction as arbitrary: fm n) (auto simp: countAccess_def Let_def)

lemma frequency_map_snoc:
  "frequency_map (as @ [a]) = AList.update (ca_key a)
     ((case map_of (frequency_map as) (ca_key a) of None \<Rightarrow> 0 | Some c \<Rightarrow> c) + 1) (frequency_map as)"
  by (simp add: frequency_map_def countAccess_def Let_def split_def)

lemma frequency_map_lookup:
  "map_of (frequency_map as) k = (if k \<in> ca_key ` set as then Some (int (key_count as k)) else None)"
proof (induction as arbitrary: k rule: rev_induct)
  case Nil
  then show ?case by (simp add: frequency_map_def)
next
  case (snoc a as)
  have "key_count as k = 0" if "k \<notin> ca_key ` set as" for k
    using that by (force simp: key_count_def filter_empty_conv)
  then show ?case by (auto simp: frequency_map_snoc snoc.IH key_count_def)
qed

lemma frequency_map_ok: "map_ok (frequency_map as)"
  by (induction as rule: rev_induct) (simp_all add: frequency_map_snoc map_ok_update, simp add: frequency_map_def)

lemma frequency_map_keys: "set (map_keys (frequency_map as)) = ca_key ` set as"
proof -
  have "k \<in> set (map_keys (frequency_map as)) \<longleftrightarrow> map_of (frequency_map as) k \<noteq> None" for k
    by (simp add: map_of_eq_None_iff)
  then have "k \<in> set (map_keys (frequency_map as)) \<longleftrightarrow> k \<in> ca_key ` set as" for k
    by (simp only: frequency_map_lookup) simp
  then show ?thesis by blast
qed

lemma frequency_map_length: "length (frequency_map as) = card (ca_key ` set as)"
  using frequency_map_ok [of as] frequency_map_keys [of as]
  by (metis distinct_card length_map)

lemma extractPattern_eq:
  assumes "as \<noteq> []"
  shows "extractPattern ord as =
    \<lparr>wp_recency_score = calculateRecencyScore as,
     wp_frequency_score = calculateFrequencyScore ord (frequency_map as) (length as),
     wp_unique_key_ratio = f64_of_int (int (card (ca_key ` set as))) / f64_of_int (int (length as)),
     wp_total_accesses = int (length as), wp_unique_keys = int (card (ca_key ` set as)),
     wp_hit_rate = f64_of_int (countHits as) / f64_of_int (int (length as))\<rparr>"
  using assms countAccess_hits [of "[]" 0 as]
  by (simp add: extractPattern_def Let_def split_def frequency_map_def [symmetric] frequency_map_length)

subsection \<open>The scores are fractions\<close>

lemma countHits_bounds: "0 \<le> countHits as \<and> countHits as \<le> int (length as)"
  by (simp add: countHits_eq)

lemma calculateRecencyScore_eq:
  assumes "4 \<le> length as" and "length as < 2 ^ 53"
  shows "calculateRecencyScore as =
    f64 (of_int (countHits (drop (length as - length as div 4) as)) / of_nat (length as div 4))"
proof -
  let ?r = "drop (length as - length as div 4) as"
  have "length ?r = length as div 4" "\<not> length as div 4 < 1" using assms(1) by auto
  moreover have "f64_of_int (countHits ?r) / f64_of_int (int (length as div 4)) =
      f64 (of_int (countHits ?r) / of_nat (length as div 4))"
    using countHits_bounds [of ?r] assms calculation by (intro f64_count_ratio(1)) auto
  ultimately show ?thesis using assms(1) by (simp add: calculateRecencyScore_def Let_def)
qed

lemma calculateRecencyScore_range:
  assumes "length as < 2 ^ 53"
  shows "frange 0 1 (calculateRecencyScore as)"
proof (cases "length as < 4")
  case True
  then show ?thesis by (simp add: calculateRecencyScore_def zero_float64_def)
next
  case False
  let ?r = "drop (length as - length as div 4) as"
  have "length ?r = length as div 4" "1 \<le> length as div 4" using False by auto
  then have "of_int (countHits ?r) \<le> (of_int (int (length as div 4)) :: rat)" "0 < (of_nat (length as div 4) :: rat)"
    using countHits_bounds [of ?r] by (simp_all only: of_int_le_iff of_nat_0_less_iff)
  then show ?thesis
    using False assms countHits_bounds [of ?r]
    by (simp add: calculateRecencyScore_eq) (intro f64_frange, auto simp: divide_le_eq_1)
qed

lemma float_deviation_nonneg:
  assumes "is_finite mean" and "0 \<le> v"
  shows "0 \<le> foldl (\<lambda>variance (key, count). let diff = f64_of_int count - mean in variance + diff * diff) v es"
  using assms(2)
proof (induction es arbitrary: v)
  case (Cons e es)
  obtain q where "mean = Fin q" using assms(1) by (cases mean) auto
  then have "f64_of_int (snd e) - mean \<noteq> NaN"
    by (cases "f64_of_int (snd e)") (simp_all add: float64_ops f64_not_NaN, (simp add: f64_of_int_def)?)
  then have "0 \<le> v + (f64_of_int (snd e) - mean) * (f64_of_int (snd e) - mean)"
    using Cons.prems by (intro f64_add_nonneg f64_square_nonneg)
  from Cons.IH [OF this] show ?case by (simp add: split_def Let_def)
qed simp

lemma calculateFrequencyScore_range:
  assumes "length fm \<le> n" and "n < 2 ^ 53"
  shows "0 \<le> calculateFrequencyScore ord fm n \<and> calculateFrequencyScore ord fm n \<le> 1"
proof (cases "length fm < 2")
  case True
  then show ?thesis by (simp add: calculateFrequencyScore_def)
next
  case False
  let ?mean = "f64_of_int (int n) / f64_of_int (int (length fm))"
  let ?var = "foldl (\<lambda>variance (key, count). let diff = f64_of_int count - ?mean in variance + diff * diff) 0 (ord fm)"
  have k: "f64_of_int (int (length fm)) = Fin (of_nat (length fm))" using assms by (intro f64_of_nat_exact) simp
  have kpos: "0 < (of_nat (length fm) :: rat)" using False by (simp only: of_nat_0_less_iff)
  have m: "frange 1 (of_nat n) ?mean"
  proof -
    have "(1::rat) \<le> of_nat n / of_nat (length fm)" using kpos assms(1) by (simp add: le_divide_eq)
    moreover have "(of_nat n :: rat) / of_nat (length fm) \<le> of_nat n / 1"
      using False by (intro divide_left_mono) auto
    ultimately show ?thesis
      using assms(2) kpos exact64_nat [OF assms(2)] by (simp add: k f64_of_nat_exact f64_Fin_simps f64_frange)
  qed
  then have "0 \<le> ?var" by (intro float_deviation_nonneg) (auto elim!: frangeE)
  then have "0 \<le> ?var / f64_of_int (int (length fm))" unfolding k using kpos by (intro f64_div_nonneg) auto
  then have "0 \<le> math_sqrt (?var / f64_of_int (int (length fm)))" by (rule math_sqrt_nonneg)
  then have "0 \<le> math_sqrt (?var / f64_of_int (int (length fm))) / ?mean"
    using m by (intro f64_div_nonneg) (auto elim!: frangeE)
  then have "0 \<le> math_sqrt (?var / f64_of_int (int (length fm))) / ?mean / Fin 2"
    by (rule f64_div_nonneg) auto
  from math_min_unit [OF this] show ?thesis
    using False by (simp add: calculateFrequencyScore_def Let_def)
qed

subsection \<open>Uniform and shifted workloads\<close>

lemma key_count_list: "key_count as k = count_list (map ca_key as) k"
  by (induction as) (auto simp: key_count_def)

lemma sum_key_count: "(\<Sum>k \<in> ca_key ` set as. key_count as k) = length as"
  using sum_count_set [of "map ca_key as" "ca_key ` set as"] by (simp add: key_count_list)

text \<open>Every key that occurs, occurs the same number of times.\<close>

definition uniform_keys :: "cache_access list \<Rightarrow> bool" where
  "uniform_keys as \<longleftrightarrow> (\<forall>a \<in> set as. \<forall>b \<in> set as. key_count as (ca_key a) = key_count as (ca_key b))"

lemma uniform_keys_length:
  assumes "uniform_keys as" and "a \<in> set as"
  shows "length as = card (ca_key ` set as) * key_count as (ca_key a)"
proof -
  have "(\<Sum>k \<in> ca_key ` set as. key_count as k) = (\<Sum>k \<in> ca_key ` set as. key_count as (ca_key a))"
  proof (rule sum.cong [OF refl])
    fix k assume "k \<in> ca_key ` set as"
    then obtain b where "b \<in> set as" "k = ca_key b" by blast
    then show "key_count as k = key_count as (ca_key a)"
      using assms unfolding uniform_keys_def by blast
  qed
  then show ?thesis by (simp add: sum_key_count)
qed

lemma float_deviation_uniform:
  assumes "\<forall>e \<in> set es. snd e = int c" and "c < 2 ^ 53"
  shows "foldl (\<lambda>variance (key, count). let diff = f64_of_int count - Fin (of_nat c) in variance + diff * diff) 0 es = 0"
  using assms(1)
proof (induction es)
  case (Cons e es)
  have "f64_of_int (snd e) - Fin (of_nat c) = Fin 0"
    using Cons.prems assms(2) by (simp add: f64_of_nat_exact f64_Fin_simps zero_float64_def)
  then have "0 + (f64_of_int (snd e) - Fin (of_nat c)) * (f64_of_int (snd e) - Fin (of_nat c)) = 0"
    by (simp add: f64_Fin_simps zero_float64_def)
  with Cons show ?case by (simp add: split_def Let_def)
qed simp

lemma calculateFrequencyScore_uniform:
  assumes "is_range_order ord" and "\<forall>e \<in> set fm. snd e = int c" and "0 < c"
    and "n = length fm * c" and "n < 2 ^ 53"
  shows "calculateFrequencyScore ord fm n = 0"
proof (cases "length fm < 2")
  case True
  then show ?thesis by (simp add: calculateFrequencyScore_def)
next
  case False
  then have "1 \<le> c" "1 \<le> length fm" using assms(3) by linarith+
  from mult_le_mono2 [OF this(1), of "length fm"] mult_le_mono1 [OF this(2), of c]
  have "length fm \<le> n" "c \<le> n" unfolding assms(4) by (simp_all only: mult_1_left mult_1_right)
  then have lt: "length fm < 2 ^ 53" "c < 2 ^ 53" using assms(5) by linarith+
  have "length fm \<noteq> 0" using False by linarith
  then have pos: "(of_nat (length fm) :: rat) \<noteq> 0" by (simp only: of_nat_eq_0_iff not_False_eq_True)
  have cpos: "(0::rat) < of_nat c" using assms(3) by (simp only: of_nat_0_less_iff)
  have mean: "f64_of_int (int n) / f64_of_int (int (length fm)) = Fin (of_nat c)"
  proof -
    have "of_nat n / of_nat (length fm) = (of_nat c :: rat)" using pos assms(4) by simp
    with f64_Fin_simps(4) [OF pos, of "of_nat n"] show ?thesis
      using assms(5) lt by (simp only: f64_of_nat_exact f64_of_nat)
  qed
  have "\<forall>e \<in> set (ord fm). snd e = int c" using assms(1,2) by (simp add: range_order_set)
  note var = float_deviation_uniform [OF this lt(2)]
  have "0 / f64_of_int (int (length fm)) = Fin 0" "math_sqrt (Fin 0) / Fin (of_nat c) / Fin 2 = Fin 0"
    using lt pos cpos by (simp_all add: f64_of_nat_exact zero_float64_def f64_Fin_simps)
  then show ?thesis
    using False
    by (simp add: calculateFrequencyScore_def mean var [unfolded Let_def] Let_def)
      (simp add: zero_float64_def one_float64_def math_min_def)
qed

lemma frequencyScore_uniform_keys:
  assumes "is_range_order ord" and "uniform_keys as" and "length as < 2 ^ 53"
  shows "calculateFrequencyScore ord (frequency_map as) (length as) = 0"
proof (cases as)
  case Nil
  then show ?thesis by (simp add: calculateFrequencyScore_def frequency_map_def)
next
  case (Cons a as')
  then have a: "a \<in> set as" by simp
  have "snd e = int (key_count as (ca_key a))" if "e \<in> set (frequency_map as)" for e
  proof -
    have "map_of (frequency_map as) (fst e) = Some (snd e)"
      using that frequency_map_ok [of as] by simp
    then obtain b where "b \<in> set as" "snd e = int (key_count as (ca_key b))"
      by (auto simp: frequency_map_lookup split: if_splits)
    then show ?thesis using assms(2) a unfolding uniform_keys_def by metis
  qed
  moreover have "0 < key_count as (ca_key a)" using a by (auto simp: key_count_def filter_empty_conv)
  ultimately show ?thesis
    using uniform_keys_length [OF assms(2) a] assms(1,3)
    by (intro calculateFrequencyScore_uniform) (auto simp: frequency_map_length)
qed

lemma recencyScore_all:
  assumes "4 \<le> length as" and "length as < 2 ^ 53"
  shows "\<forall>a \<in> set as. ca_is_hit a \<Longrightarrow> calculateRecencyScore as = 1"
    and "\<forall>a \<in> set as. \<not> ca_is_hit a \<Longrightarrow> calculateRecencyScore as = 0"
proof -
  let ?r = "drop (length as - length as div 4) as"
  have l: "length ?r = length as div 4" by simp
  have pos: "(of_nat (length as div 4) :: rat) \<noteq> 0" using assms(1) by (simp only: of_nat_eq_0_iff)
  show "calculateRecencyScore as = 1" if "\<forall>a \<in> set as. ca_is_hit a"
  proof -
    have "filter ca_is_hit ?r = ?r" using that by (auto simp: filter_id_conv dest: in_set_dropD)
    with l pos show ?thesis
      unfolding calculateRecencyScore_eq [OF assms] by (simp add: countHits_eq)
  qed
  show "calculateRecencyScore as = 0" if "\<forall>a \<in> set as. \<not> ca_is_hit a"
  proof -
    have "filter ca_is_hit ?r = []" using that by (auto simp: filter_empty_conv dest: in_set_dropD)
    then show ?thesis unfolding calculateRecencyScore_eq [OF assms] by (simp add: countHits_eq)
  qed
qed

lemma DetectShift_full:
  assumes "pd_window_size pd \<le> int (length (pd_access_log pd))"
  shows "DetectShift ord1 ord2 pd =
    (let m = length (pd_access_log pd) div 2;
         r = extractPattern ord1 (take m (pd_access_log pd));
         c = extractPattern ord2 (drop m (pd_access_log pd));
         t = \<bar>wp_recency_score r - wp_recency_score c\<bar>;
         f = \<bar>wp_frequency_score r - wp_frequency_score c\<bar>
     in \<lparr>sh_detected = (f64 (1 / 10) < t \<or> f64 (1 / 10) < f), sh_temporal_shift = t,
         sh_frequency_shift = f, sh_recent_pattern = Some r, sh_current_pattern = Some c\<rparr>)"
  using assms by (simp add: DetectShift_def Let_def)

lemma extractPattern_scores_eq:
  "wp_recency_score (extractPattern ord as) = calculateRecencyScore as"
  "wp_frequency_score (extractPattern ord as) = calculateFrequencyScore ord (frequency_map as) (length as)"
  by (cases "as = []";
      simp add: extractPattern_eq extractPattern_def [of _ "[]"] zero_pattern_def calculateRecencyScore_def
        calculateFrequencyScore_def frequency_map_def)+

lemma extractPattern_scores:
  assumes "length as < 2 ^ 53"
  shows "frange 0 1 (wp_recency_score (extractPattern ord as))"
    and "frange 0 1 (wp_frequency_score (extractPattern ord as))"
    and "frange 0 1 (wp_unique_key_ratio (extractPattern ord as))"
    and "frange 0 1 (wp_hit_rate (extractPattern ord as))"
proof -
  have card: "card (ca_key ` set as) \<le> length as"
    using card_image_le [of "set as" ca_key] card_length [of as] by simp
  show "frange 0 1 (wp_recency_score (extractPattern ord as))"
    and "frange 0 1 (wp_frequency_score (extractPattern ord as))"
    and "frange 0 1 (wp_unique_key_ratio (extractPattern ord as))"
    and "frange 0 1 (wp_hit_rate (extractPattern ord as))"
    using assms card countHits_bounds [of as] f64_count_ratio(2) [of "int (card (ca_key ` set as))" "length as"]
      f64_count_ratio(2) [of "countHits as" "length as"] calculateRecencyScore_range [OF assms]
      calculateFrequencyScore_range [of "frequency_map as" "length as" ord]
    by (cases "as = []"; simp add: extractPattern_eq extractPattern_def [of _ "[]"] zero_pattern_def frange_01
        frequency_map_length)+
qed

lemma frange_abs_diff:
  assumes "frange 0 1 x" and "frange 0 1 y"
  shows "0 \<le> \<bar>x - y\<bar> \<and> \<bar>x - y\<bar> \<le> 1"
proof -
  have "frange (0 - 1) (1 - 0) (x - y)" using assms by (intro frange_sub) auto
  then show ?thesis using frange_abs [of 1 "x - y"] by (simp add: frange_01)
qed

lemma f64_tenth: "0 < f64 (1 / 10)" "f64 (1 / 10) < 1"
  by code_simp+

subsection \<open>Properties\<close>

text \<open>
  Property C35: whatever is recorded on a new detector, its log holds exactly the most recent
  accesses, in order, up to the window size; a window size that is not positive means 1000.
\<close>

theorem access_window:
  "pd_access_log (foldl record_event (NewPatternDetector w) as) =
     drop (length as - (if w \<le> 0 then 1000 else nat w)) as"
  using pd_log_records [OF pd_inv_New, of w as] by (simp add: NewPatternDetector_def Let_def)

text \<open>
  The scores of any sequence of accesses are fractions between 0 and 1 (never
  NaN), whatever order the frequency map is visited in, and the totals count the accesses
  and the distinct keys.
\<close>

theorem extractPattern_range:
  assumes "length as < 2 ^ 53"
  shows "(\<forall>s \<in> {wp_recency_score, wp_frequency_score, wp_unique_key_ratio, wp_hit_rate}.
      0 \<le> s (extractPattern ord as) \<and> s (extractPattern ord as) \<le> 1) \<and>
    wp_total_accesses (extractPattern ord as) = int (length as) \<and>
    wp_unique_keys (extractPattern ord as) = int (card (ca_key ` set as))"
  using extractPattern_scores [OF assms, of ord]
  by (simp add: frange_01)
    (cases "as = []"; simp add: extractPattern_eq extractPattern_def [of _ "[]"] zero_pattern_def)

definition access :: "string \<Rightarrow> bool \<Rightarrow> cache_access" where
  "access k h = \<lparr>ca_key = k, ca_timestamp = 0, ca_is_hit = h\<rparr>"

theorem extractPattern_range_witness:
  "0 \<le> wp_frequency_score (extractPattern rev [access ''a'' True, access ''b'' False, access ''a'' True]) \<and>
   wp_frequency_score (extractPattern rev [access ''a'' True, access ''b'' False, access ''a'' True]) \<le> 1"
  using extractPattern_range [of "[access ''a'' True, access ''b'' False, access ''a'' True]" rev] by simp

text \<open>The share of hits in the last quarter of some accesses, and what a frequency map holds.\<close>

definition hit_share :: "cache_access list \<Rightarrow> rat" where
  "hit_share as = of_nat (length (filter ca_is_hit (drop (length as - length as div 4) as))) / of_nat (length as div 4)"

definition counts_keys :: "(string, goint) gomap \<Rightarrow> cache_access list \<Rightarrow> bool" where
  "counts_keys fm as \<longleftrightarrow> map_ok fm \<and> (\<forall>k. map_of fm k = (if k \<in> ca_key ` set as then Some (int (key_count as k)) else None))"

lemma recency_hit_share: "4 \<le> length as \<Longrightarrow> length as < 2 ^ 53 \<Longrightarrow> calculateRecencyScore as = f64 (hit_share as)"
  by (simp add: calculateRecencyScore_eq hit_share_def countHits_eq)

lemma recorded_log:
  assumes "0 < n"
  shows "pd_access_log (foldl record_event (NewPatternDetector (int n)) as) = drop (length as - n) as"
    and "pd_window_size (foldl record_event (NewPatternDetector (int n)) as) = int n"
  using assms pd_log_records [OF pd_inv_New, of "int n" as]
  by (simp_all add: pd_window_records) (simp_all add: NewPatternDetector_def Let_def)

text \<open>
  Property C34: what a detector with a window of \<open>n\<close> accesses reports. Before \<open>n\<close> accesses there
  is no shift. Then the last \<open>n\<close> accesses are split in the middle: the temporal shift is the
  distance between the shares of hits in the last quarters of the two halves, as float64; the
  frequency shift is the distance between the scores of their key counts; a shift is detected
  exactly when one of them exceeds 0.1. Both lie in [0,1].
\<close>

theorem DetectShift_full_window:
  assumes "8 \<le> n" and "n < 2 ^ 53"
  shows "let shift = DetectShift ord1 ord2 (foldl record_event (NewPatternDetector (int n)) as);
      window = drop (length as - n) as; older = take (n div 2) window; newer = drop (n div 2) window
    in if length as < n then \<not> sh_detected shift \<and> sh_recent_pattern shift = None
       else sh_temporal_shift shift = \<bar>f64 (hit_share older) - f64 (hit_share newer)\<bar> \<and>
         (\<exists>fm1 fm2. counts_keys fm1 older \<and> counts_keys fm2 newer \<and>
            sh_frequency_shift shift =
              \<bar>calculateFrequencyScore ord1 fm1 (n div 2) - calculateFrequencyScore ord2 fm2 (n - n div 2)\<bar>) \<and>
         (sh_detected shift \<longleftrightarrow> f64 (1 / 10) < sh_temporal_shift shift \<or> f64 (1 / 10) < sh_frequency_shift shift) \<and>
         0 \<le> sh_temporal_shift shift \<and> sh_temporal_shift shift \<le> 1 \<and>
         0 \<le> sh_frequency_shift shift \<and> sh_frequency_shift shift \<le> 1"
proof (cases "length as < n")
  case True
  then show ?thesis using assms(1) recorded_log [of n as] by (simp add: DetectShift_def Let_def)
next
  case False
  define older newer where "older = take (n div 2) (drop (length as - n) as)"
    and "newer = drop (n div 2) (drop (length as - n) as)"
  have len: "length older = n div 2" "length newer = n - n div 2" using False by (simp_all add: older_def newer_def)
  have range: "length older < 2 ^ 53" "length newer < 2 ^ 53" "4 \<le> length older" "4 \<le> length newer"
    using assms unfolding len by auto
  have counts: "counts_keys (frequency_map l) l" for l
    by (simp add: counts_keys_def frequency_map_lookup frequency_map_ok)
  let ?t = "\<bar>calculateRecencyScore older - calculateRecencyScore newer\<bar>"
  let ?f = "\<bar>calculateFrequencyScore ord1 (frequency_map older) (n div 2) -
    calculateFrequencyScore ord2 (frequency_map newer) (n - n div 2)\<bar>"
  have eq: "DetectShift ord1 ord2 (foldl record_event (NewPatternDetector (int n)) as) =
      \<lparr>sh_detected = (f64 (1 / 10) < ?t \<or> f64 (1 / 10) < ?f), sh_temporal_shift = ?t, sh_frequency_shift = ?f,
       sh_recent_pattern = Some (extractPattern ord1 older), sh_current_pattern = Some (extractPattern ord2 newer)\<rparr>"
    using False assms(1) recorded_log [of n as] len
    by (simp add: DetectShift_full extractPattern_scores_eq Let_def del: drop_drop flip: older_def newer_def)
  note s = extractPattern_scores [OF range(1), of ord1] extractPattern_scores [OF range(2), of ord2]
  note shifts = frange_abs_diff [OF s(1,5)] frange_abs_diff [OF s(2,6)]
  show ?thesis
    unfolding Let_def eq older_def [symmetric] newer_def [symmetric] if_not_P [OF False] pattern_shift.simps
    using shifts [unfolded extractPattern_scores_eq len] counts recency_hit_share [OF range(3,1)] recency_hit_share [OF range(4,2)]
    by metis
qed

definition example_detector :: pattern_detector where
  "example_detector = foldl record_event (NewPatternDetector 8)
     (replicate 4 (access ''a'' True) @ replicate 4 (access ''a'' False))"

lemma example_detector_eq:
  "pd_inv example_detector" "pd_window_size example_detector = 8"
  "pd_access_log example_detector = replicate 4 (access ''a'' True) @ replicate 4 (access ''a'' False)"
  using pd_inv_New [of 8] pd_log_records [OF pd_inv_New [of 8],
      of "replicate 4 (access ''a'' True) @ replicate 4 (access ''a'' False)"]
  by (simp_all add: example_detector_def pd_inv_records pd_window_records del: foldl_append)
    (simp_all add: NewPatternDetector_def del: foldl_append)

theorem DetectShift_full_window_witness:
  "sh_temporal_shift (DetectShift rev rev example_detector) = \<bar>f64 1 - f64 0\<bar>"
  using DetectShift_full_window [of 8 rev rev "replicate 4 (access ''a'' True) @ replicate 4 (access ''a'' False)"]
  by (simp add: example_detector_def hit_share_def access_def Let_def del: foldl_append)

lemma recencyScore_cong:
  assumes "length as = length bs"
    and "countHits (drop (length as - length as div 4) as) = countHits (drop (length bs - length bs div 4) bs)"
  shows "calculateRecencyScore as = calculateRecencyScore bs"
proof (cases "length as < 4")
  case False
  then have "\<not> length as div 4 < 1" "\<not> length bs div 4 < 1" using assms(1) by auto
  with assms show ?thesis by (simp add: calculateRecencyScore_def Let_def)
qed (use assms in \<open>simp add: calculateRecencyScore_def\<close>)

text \<open>
  A stationary workload is not a shift: if the halves of the window are equally
  long, have equally many hits in their last quarter, and within each half every key is
  accessed equally often, then the detector reports nothing and both shifts are exactly 0.
\<close>

theorem DetectShift_stationary:
  assumes "is_range_order ord1" and "is_range_order ord2"
    and "pd_access_log pd = older @ newer" and "length older = length newer"
    and "length older < 2 ^ 53" and "uniform_keys older" and "uniform_keys newer"
    and "countHits (drop (length older - length older div 4) older) =
         countHits (drop (length newer - length newer div 4) newer)"
  shows "\<not> sh_detected (DetectShift ord1 ord2 pd) \<and>
    f64_eq (sh_temporal_shift (DetectShift ord1 ord2 pd)) 0 \<and>
    f64_eq (sh_frequency_shift (DetectShift ord1 ord2 pd)) 0"
proof (cases "int (length (pd_access_log pd)) < pd_window_size pd")
  case True
  then show ?thesis by (simp add: DetectShift_def f64_eq_def zero_float64_def)
next
  case False
  have halves: "take (length (pd_access_log pd) div 2) (pd_access_log pd) = older"
    "drop (length (pd_access_log pd) div 2) (pd_access_log pd) = newer"
    using assms(3,4) by simp_all
  have f: "wp_frequency_score (extractPattern ord1 older) = 0" "wp_frequency_score (extractPattern ord2 newer) = 0"
    using frequencyScore_uniform_keys [OF assms(1,6,5)] frequencyScore_uniform_keys [OF assms(2,7)] assms(4,5)
    by (simp_all only: extractPattern_scores_eq)
  have r: "wp_recency_score (extractPattern ord1 older) = wp_recency_score (extractPattern ord2 newer)"
    unfolding extractPattern_scores_eq using assms(4,8) by (rule recencyScore_cong)
  obtain q where q: "wp_recency_score (extractPattern ord2 newer) = Fin q"
    using extractPattern_scores(1) [of newer ord2] assms(4,5) by (auto elim!: frangeE)
  have "\<bar>Fin a - Fin a\<bar> = Fin 0" for a by (simp add: f64_Fin_simps zero_float64_def)
  moreover have "\<not> f64 (1 / 10) < Fin 0"
    using f64_tenth(1) by (auto simp: zero_float64_def dest: f64_less_imp_le f64_less_not_le)
  ultimately show ?thesis
    using False by (simp add: DetectShift_full halves Let_def f r q) (simp add: zero_float64_def f64_eq_def)
qed

theorem DetectShift_stationary_witness:
  "\<not> sh_detected (DetectShift rev rev
     \<lparr>pd_access_log = [access ''a'' True, access ''b'' True] @ [access ''b'' False, access ''c'' False],
      pd_window_size = 4\<rparr>)"
  using DetectShift_stationary [OF is_range_order_rev is_range_order_rev,
      of "\<lparr>pd_access_log = [access ''a'' True, access ''b'' True] @ [access ''b'' False, access ''c'' False],
      pd_window_size = 4\<rparr>" "[access ''a'' True, access ''b'' True]" "[access ''b'' False, access ''c'' False]"]
  by (simp add: uniform_keys_def key_count_def access_def)

lemma turning_detected:
  assumes "pd_access_log pd = older @ newer" and "length older = length newer"
    and "4 \<le> length older" and "length older < 2 ^ 53"
    and "pd_window_size pd \<le> int (length (pd_access_log pd))"
    and "(\<forall>a \<in> set older. ca_is_hit a = h) \<and> (\<forall>a \<in> set newer. ca_is_hit a = (\<not> h))"
  shows "sh_detected (DetectShift ord1 ord2 pd) \<and> sh_temporal_shift (DetectShift ord1 ord2 pd) = 1"
proof -
  have halves: "take (length (pd_access_log pd) div 2) (pd_access_log pd) = older"
    "drop (length (pd_access_log pd) div 2) (pd_access_log pd) = newer"
    using assms(1,2) by simp_all

  have "\<bar>calculateRecencyScore older - calculateRecencyScore newer\<bar> = 1"
    using assms recencyScore_all [of older] recencyScore_all [of newer]
    by (cases h) (simp_all add: zero_float64_def one_float64_def f64_Fin_simps f64_exact)
  then show ?thesis
    using assms(5) f64_tenth(2) by (simp add: DetectShift_full halves Let_def extractPattern_scores_eq)
qed

text \<open>
  A workload that turns from hits to misses (or back) within a full window of at
  least eight accesses is reported as a shift, with a temporal shift of exactly 1.
\<close>

theorem DetectShift_turning:
  assumes "pd_access_log pd = older @ newer" and "length older = length newer"
    and "4 \<le> length older" and "length older < 2 ^ 53"
    and "pd_window_size pd \<le> int (length (pd_access_log pd))"
    and "(\<forall>a \<in> set older. ca_is_hit a = h) \<and> (\<forall>a \<in> set newer. ca_is_hit a = (\<not> h))"
  shows "sh_detected (DetectShift ord1 ord2 pd) \<and> sh_temporal_shift (DetectShift ord1 ord2 pd) = 1"
  using assms by (rule turning_detected)

theorem DetectShift_turning_witness:
  "sh_detected (DetectShift rev rev example_detector)"
  using DetectShift_turning [of example_detector "replicate 4 (access ''a'' True)"
      "replicate 4 (access ''a'' False)" True rev rev]
  by (simp add: example_detector_eq access_def)

lemma example_detector_shift: "sh_detected (DetectShift ord1 ord2 example_detector)"
  using turning_detected [of example_detector "replicate 4 (access ''a'' True)"
      "replicate 4 (access ''a'' False)" True ord1 ord2]
  by (simp add: example_detector_eq access_def)

end
