(* ===== verification/CostBenefit.thy ===== *)
theory CostBenefit
  imports Float64
begin

text \<open>
  pkg/adaptive/cost_benefit.go: the cost-benefit analyzer, which weighs the relative
  improvement of a candidate policy against the estimated cost of switching to it.

  The floating-point expressions are evaluated in the code's order; constants such as 0.05
  are the nearest binary64 numbers. The loop of \<open>CompareMultipleCandidates\<close> visits the
  candidates in the map's iteration order, an argument. \<open>Analyze\<close> takes the mutex twice; the
  model reads the weights and the threshold of one state. Logging is left out.
\<close>

subsection \<open>Data and operations\<close>

record switching_cost =
  sc_time_cost :: float64
  sc_memory_cost :: float64
  sc_degradation_cost :: float64
  sc_total_cost :: float64

record cost_benefit_analysis =
  cb_current_policy :: string
  cb_candidate_policy :: string
  cb_current_miss_ratio :: float64
  cb_candidate_miss_ratio :: float64
  cb_potential_gain :: float64
  cb_switching_cost :: switching_cost
  cb_net_benefit :: float64
  cb_should_switch :: bool

record cost_benefit_analyzer =
  ca_max_memory :: "64 word"
  ca_switch_threshold :: float64
  ca_weight_time :: float64
  ca_weight_memory :: float64
  ca_weight_degradation :: float64

datatype weights_error = WeightsMustSumToOne float64

definition NewCostBenefitAnalyzer :: "64 word \<Rightarrow> cost_benefit_analyzer" where
  "NewCostBenefitAnalyzer maxMemory =
     \<lparr>ca_max_memory = maxMemory, ca_switch_threshold = f64 (5 / 100),
      ca_weight_time = f64 (4 / 10), ca_weight_memory = f64 (2 / 10),
      ca_weight_degradation = f64 (4 / 10)\<rparr>"

definition EstimateSwitchingCost ::
    "cost_benefit_analyzer \<Rightarrow> string \<Rightarrow> string \<Rightarrow> 64 word \<Rightarrow> switching_cost" where
  "EstimateSwitchingCost ca fromPolicy toPolicy cacheSize =
     (let cacheSizeMB = f64_of_u64 cacheSize / Fin (1024 * 1024);
          estimatedSeconds = cacheSizeMB * f64 (1 / 100);
          timeCost = math_min (estimatedSeconds / Fin 10) 1;
          overheadBytes = f64_of_u64 cacheSize * f64 (1 / 10);
          memoryCost = math_min (overheadBytes / f64_of_u64 (ca_max_memory ca)) 1;
          degradationCost = f64 (2 / 100);
          totalCost = (ca_weight_time ca * timeCost) + (ca_weight_memory ca * memoryCost)
                      + (ca_weight_degradation ca * degradationCost)
      in \<lparr>sc_time_cost = timeCost, sc_memory_cost = memoryCost,
          sc_degradation_cost = degradationCost, sc_total_cost = totalCost\<rparr>)"

definition CalculatePotentialGain :: "float64 \<Rightarrow> float64 \<Rightarrow> float64" where
  "CalculatePotentialGain currentMissRatio candidateMissRatio =
     (if f64_eq currentMissRatio 0 then 0
      else if currentMissRatio \<le> candidateMissRatio then 0
      else (currentMissRatio - candidateMissRatio) / currentMissRatio)"

definition CalculateNetBenefit :: "float64 \<Rightarrow> switching_cost \<Rightarrow> float64" where
  "CalculateNetBenefit potentialGain switchingCost = potentialGain - sc_total_cost switchingCost"

definition Analyze ::
    "cost_benefit_analyzer \<Rightarrow> string \<Rightarrow> string \<Rightarrow> float64 \<Rightarrow> float64 \<Rightarrow> 64 word \<Rightarrow> cost_benefit_analysis" where
  "Analyze ca currentPolicy candidatePolicy currentMissRatio candidateMissRatio cacheSize =
     (let potentialGain = CalculatePotentialGain currentMissRatio candidateMissRatio;
          switchingCost = EstimateSwitchingCost ca currentPolicy candidatePolicy cacheSize;
          netBenefit = CalculateNetBenefit potentialGain switchingCost;
          shouldSwitch = (ca_switch_threshold ca < netBenefit)
      in \<lparr>cb_current_policy = currentPolicy, cb_candidate_policy = candidatePolicy,
          cb_current_miss_ratio = currentMissRatio, cb_candidate_miss_ratio = candidateMissRatio,
          cb_potential_gain = potentialGain, cb_switching_cost = switchingCost,
          cb_net_benefit = netBenefit, cb_should_switch = shouldSwitch\<rparr>)"

definition SetThreshold :: "cost_benefit_analyzer \<Rightarrow> float64 \<Rightarrow> cost_benefit_analyzer" where
  "SetThreshold ca threshold =
     (if 0 \<le> threshold \<and> threshold \<le> 1 then ca\<lparr>ca_switch_threshold := threshold\<rparr> else ca)"

definition GetThreshold :: "cost_benefit_analyzer \<Rightarrow> float64" where
  "GetThreshold ca = ca_switch_threshold ca"

definition SetWeights ::
    "cost_benefit_analyzer \<Rightarrow> float64 \<Rightarrow> float64 \<Rightarrow> float64 \<Rightarrow> weights_error option \<times> cost_benefit_analyzer" where
  "SetWeights ca time memory degradation =
     (let sum = time + memory + degradation
      in if f64 (1 / 100) < \<bar>sum - 1\<bar> then (Some (WeightsMustSumToOne sum), ca)
         else (None, ca\<lparr>ca_weight_time := time, ca_weight_memory := memory,
                         ca_weight_degradation := degradation\<rparr>))"

definition GetWeights :: "cost_benefit_analyzer \<Rightarrow> float64 \<times> float64 \<times> float64" where
  "GetWeights ca = (ca_weight_time ca, ca_weight_memory ca, ca_weight_degradation ca)"

definition EstimateReconstructionTime :: "64 word \<Rightarrow> float64" where
  "EstimateReconstructionTime cacheSize = f64_of_u64 cacheSize / Fin (1024 * 1024) * f64 (1 / 10)"

definition EstimateMemoryOverhead :: "64 word \<Rightarrow> 64 word option" where
  "EstimateMemoryOverhead cacheSize = f64_to_u64 (f64_of_u64 cacheSize * f64 (1 / 10))"

text \<open>One iteration of the loop over the candidates; the accumulator is the best analysis
  so far and its net benefit.\<close>

definition compareStep ::
    "cost_benefit_analyzer \<Rightarrow> string \<Rightarrow> float64 \<Rightarrow> 64 word \<Rightarrow>
     cost_benefit_analysis option \<times> float64 \<Rightarrow> string \<times> float64 \<Rightarrow> cost_benefit_analysis option \<times> float64" where
  "compareStep ca currentPolicy currentMissRatio cacheSize best candidate =
     (let (bestAnalysis, bestNetBenefit) = best; (candidatePolicy, candidateMissRatio) = candidate
      in if candidatePolicy = currentPolicy then best
         else let analysis = Analyze ca currentPolicy candidatePolicy currentMissRatio
                               candidateMissRatio cacheSize
              in if bestNetBenefit < cb_net_benefit analysis
                 then (Some analysis, cb_net_benefit analysis) else best)"

definition CompareMultipleCandidates ::
    "(string \<times> float64) range_order \<Rightarrow> cost_benefit_analyzer \<Rightarrow> string \<Rightarrow> float64 \<Rightarrow>
     (string, float64) gomap \<Rightarrow> 64 word \<Rightarrow> cost_benefit_analysis option" where
  "CompareMultipleCandidates ord ca currentPolicy currentMissRatio candidates cacheSize =
     fst (foldl (compareStep ca currentPolicy currentMissRatio cacheSize) (None, - 1) (ord candidates))"

subsection \<open>The cost estimate\<close>

lemma f64_u64_frange: "frange 0 (2 ^ 64) (f64_of_u64 w)"
proof -
  have "of_int (uint w) \<le> (of_int (2 ^ 64) :: rat)"
    using uint_lt2p [of w] by (simp only: of_int_le_iff) simp
  moreover have "0 \<le> (of_int (uint w) :: rat)" by (simp only: of_int_0_le_iff uint_ge_0)
  ultimately show ?thesis
    unfolding f64_of_u64_def using exact64_powi [of 64] by (intro f64_frange) (simp_all del: of_int_uint)
qed

lemma f64_u64_0: "f64_of_u64 0 = 0"
  by (simp add: f64_of_u64_def)

lemma f64_u64_pos: "w \<noteq> 0 \<Longrightarrow> 1 \<le> f64_of_u64 w"
proof -
  assume "w \<noteq> 0"
  then have "1 \<le> uint w" using uint_ge_0 [of w] uint_0_iff [of w] by linarith
  then have "(of_int 1 :: rat) \<le> of_int (uint w)" by (simp only: of_int_le_iff)
  from f64_mono [OF this] show ?thesis by (simp only: f64_of_u64_def of_int_1 f64_0_1)
qed

lemma f64_mult_nonneg: "0 \<le> x \<Longrightarrow> 0 \<le> y \<Longrightarrow> is_finite x \<Longrightarrow> is_finite y \<Longrightarrow> 0 \<le> x * (y::float64)"
  by (cases x; cases y) (auto simp: f64_Fin_simps f64_nonneg)

lemma f64_mult_mono:
  "0 \<le> x \<Longrightarrow> x \<le> Fin a \<Longrightarrow> 0 \<le> y \<Longrightarrow> y \<le> Fin b \<Longrightarrow> x * y \<le> Fin a * Fin b"
  by (cases x; cases y) (auto simp: f64_Fin_simps intro!: f64_mono mult_mono)

lemma f64_add_mono: "0 \<le> x \<Longrightarrow> x \<le> Fin a \<Longrightarrow> 0 \<le> y \<Longrightarrow> y \<le> Fin b \<Longrightarrow> x + y \<le> Fin a + Fin b"
  by (cases x; cases y) (auto simp: f64_Fin_simps intro!: f64_mono)

lemma cost_constants:
  "0 < f64 (1 / 10)" "0 < f64 (1 / 100)" "is_finite (f64 (1 / 10))" "is_finite (f64 (1 / 100))"
  "frange 0 1 (f64 (2 / 100))" "frange 0 1 (f64 (1 / 10))" "frange 0 1 (f64 (1 / 100))"
  by code_simp+

definition timeCost :: "64 word \<Rightarrow> float64" where
  "timeCost w = math_min (f64_of_u64 w / Fin (1024 * 1024) * f64 (1 / 100) / Fin 10) 1"

definition memoryCost :: "64 word \<Rightarrow> 64 word \<Rightarrow> float64" where
  "memoryCost w m = math_min (f64_of_u64 w * f64 (1 / 10) / f64_of_u64 m) 1"

lemma cost_fields:
  "sc_time_cost (EstimateSwitchingCost ca p q w) = timeCost w"
  "sc_memory_cost (EstimateSwitchingCost ca p q w) = memoryCost w (ca_max_memory ca)"
  "sc_degradation_cost (EstimateSwitchingCost ca p q w) = f64 (2 / 100)"
  "sc_total_cost (EstimateSwitchingCost ca p q w) =
     ca_weight_time ca * timeCost w + ca_weight_memory ca * memoryCost w (ca_max_memory ca)
     + ca_weight_degradation ca * f64 (2 / 100)"
  by (simp_all add: EstimateSwitchingCost_def timeCost_def memoryCost_def Let_def)

lemma timeCost_range: "frange 0 1 (timeCost w)"
proof -
  obtain p where p: "f64_of_u64 w = Fin p" "0 \<le> p" "p \<le> 2 ^ 64"
    using f64_u64_frange [of w] by (auto elim!: frangeE)
  then have "p / (1024 * 1024) \<le> 2 ^ 64" by (simp add: divide_le_eq)
  then have "frange 0 (2 ^ 64) (f64_of_u64 w / Fin (1024 * 1024))"
    using p exact64_powi [of 64] by (simp add: f64_Fin_simps f64_frange)
  then have "frange 0 (2 ^ 64 * 1) (f64_of_u64 w / Fin (1024 * 1024) * f64 (1 / 100))"
    using cost_constants(7) exact64_powi [of 64] by (intro frange_mul_nonneg) simp_all
  then have "0 \<le> f64_of_u64 w / Fin (1024 * 1024) * f64 (1 / 100)" by (auto elim!: frangeE)
  then have "0 \<le> f64_of_u64 w / Fin (1024 * 1024) * f64 (1 / 100) / Fin 10"
    by (rule f64_div_nonneg) auto
  from math_min_unit [OF this] show ?thesis by (simp add: timeCost_def frange_01)
qed

lemma overhead_range: "frange 0 (2 ^ 64) (f64_of_u64 w * f64 (1 / 10))"
  using frange_mul_nonneg [OF f64_u64_frange cost_constants(6), of w] exact64_powi [of 64] by simp

lemma overhead_pos: "w \<noteq> 0 \<Longrightarrow> 0 < f64_of_u64 w * f64 (1 / 10)"
proof -
  assume w: "w \<noteq> 0"
  obtain p where p: "f64_of_u64 w = Fin p" "1 \<le> p"
    using f64_u64_frange [of w] f64_u64_pos [OF w] by (auto elim!: frangeE)
  obtain c where c: "f64 (1 / 10) = Fin c" "0 < c" "c \<le> 1"
    using cost_constants(1,6) by (auto elim!: frangeE)
  have "0 < f64 (1 / 10)" by (rule cost_constants)
  also have "f64 (1 / 10) = f64 c"
    using c(1) by (auto simp: f64_def Let_def split: if_splits)
  finally have "0 < f64 c" .
  moreover have "f64 c \<le> f64 (p * c)" using p c by (intro f64_mono) simp
  ultimately show ?thesis unfolding p c f64_Fin_simps by (rule f64_less_le_trans)
qed

lemma memoryCost_range:
  assumes "w \<noteq> 0 \<or> m \<noteq> 0"
  shows "frange 0 1 (memoryCost w m)"
proof (cases "m = 0")
  case False
  have "0 \<le> f64_of_u64 w * f64 (1 / 10)" "0 < f64_of_u64 m" "f64_of_u64 m \<noteq> PInf"
    using overhead_range [of w] f64_u64_pos [OF False] f64_u64_frange [of m] by (auto elim!: frangeE)
  then have "0 \<le> f64_of_u64 w * f64 (1 / 10) / f64_of_u64 m" by (intro f64_div_nonneg) auto
  from math_min_unit [OF this] show ?thesis by (simp add: memoryCost_def frange_01)
next
  case True
  with assms overhead_pos [of w] overhead_range [of w] have "f64_of_u64 w * f64 (1 / 10) / f64_of_u64 m = PInf"
    by (auto elim!: frangeE simp: f64_u64_0 divide_float64_def zero_float64_def signed_inf_def)
  then show ?thesis by (simp add: memoryCost_def math_min_def one_float64_def)
qed

lemma memoryCost_undefined: "memoryCost 0 0 = NaN"
  by (simp add: memoryCost_def f64_u64_0)
    (use cost_constants(3) in \<open>cases "f64 (1 / 10)"; simp add: zero_float64_def float64_ops math_min_def signed_inf_def\<close>)

definition ca_inv :: "cost_benefit_analyzer \<Rightarrow> bool" where
  "ca_inv ca \<longleftrightarrow> frange 0 1 (ca_weight_time ca) \<and> frange 0 1 (ca_weight_memory ca) \<and>
     frange 0 1 (ca_weight_degradation ca) \<and> 0 \<le> ca_switch_threshold ca"

lemma ca_inv_New: "ca_inv (NewCostBenefitAnalyzer m)"
  unfolding ca_inv_def NewCostBenefitAnalyzer_def cost_benefit_analyzer.simps by (intro conjI; code_simp)

lemma frange_unit_mul: "frange 0 1 x \<Longrightarrow> frange 0 1 y \<Longrightarrow> frange 0 1 (x * y)"
  using frange_mul_nonneg [of 1 x 1 y] by simp

lemma total_cost_range:
  assumes "ca_inv ca" and "w \<noteq> 0 \<or> ca_max_memory ca \<noteq> 0"
  shows "frange 0 3 (sc_total_cost (EstimateSwitchingCost ca p q w))"
proof -
  have "frange (0 + 0 + 0) (1 + 1 + 1) (sc_total_cost (EstimateSwitchingCost ca p q w))"
    using assms(1) timeCost_range [of w] memoryCost_range [OF assms(2)] cost_constants(5)
    unfolding cost_fields ca_inv_def by (intro frange_add frange_unit_mul) simp_all
  then show ?thesis by simp
qed

lemma total_cost_nonneg:
  assumes "ca_inv ca"
  shows "sc_total_cost (EstimateSwitchingCost ca p q w) = NaN \<or> 0 \<le> sc_total_cost (EstimateSwitchingCost ca p q w)"
proof (cases "w = 0 \<and> ca_max_memory ca = 0")
  case True
  then show ?thesis by (simp add: cost_fields memoryCost_undefined)
next
  case False
  then have "frange 0 3 (sc_total_cost (EstimateSwitchingCost ca p q w))"
    using assms by (intro total_cost_range) auto
  then show ?thesis by (auto elim!: frangeE)
qed

subsection \<open>The gain\<close>

lemma gain_cases:
  assumes "0 \<le> b"
  obtains (none) "f64_eq (Fin a) 0 \<or> Fin a \<le> Fin b" "CalculatePotentialGain (Fin a) (Fin b) = 0"
  | (some) "0 \<le> b" "b < a" "CalculatePotentialGain (Fin a) (Fin b) = f64 (a - b) / Fin a" "0 \<le> f64 (a - b)"
proof (cases "f64_eq (Fin a) 0 \<or> Fin a \<le> Fin b")
  case True
  then show ?thesis by (rule none) (use True in \<open>auto simp: CalculatePotentialGain_def\<close>)
next
  case False
  then show ?thesis using some assms by (simp add: CalculatePotentialGain_def f64_Fin_simps f64_nonneg)
qed

lemma gain_nonneg: "0 \<le> b \<Longrightarrow> 0 \<le> CalculatePotentialGain (Fin a) (Fin b)"
  by (cases rule: gain_cases [of b a]) (simp_all add: f64_div_nonneg)

lemma gain_le_1:
  assumes "0 \<le> b" and "exact64 a"
  shows "frange 0 1 (CalculatePotentialGain (Fin a) (Fin b))"
proof (cases rule: gain_cases [OF assms(1), of a, case_names none some])
  case some
  have "frange 0 a (f64 (a - b))" using some assms by (intro f64_frange) auto
  then show ?thesis using some by (auto elim!: frangeE intro!: frange_div_unit)
qed (simp add: frange_01)

lemma f64_div_mono: "x \<le> y \<Longrightarrow> 0 \<le> x \<Longrightarrow> 0 < c \<Longrightarrow> x / Fin c \<le> y / Fin c"
  by (cases x; cases y)
    (auto simp: f64_Fin_simps divide_float64_def signed_inf_def intro!: f64_mono divide_right_mono)

lemma gain_antimono:
  assumes "0 \<le> b" and "b \<le> b'"
  shows "CalculatePotentialGain (Fin a) (Fin b') \<le> CalculatePotentialGain (Fin a) (Fin b)"
proof (cases rule: gain_cases [OF order_trans [OF assms], of a, case_names none some])
  case none
  with gain_nonneg [OF assms(1), of a] show ?thesis by simp
next
  case some
  then have "CalculatePotentialGain (Fin a) (Fin b) = f64 (a - b) / Fin a"
    using assms by (cases rule: gain_cases [OF assms(1), of a, case_names none some]) auto
  moreover have "f64 (a - b') / Fin a \<le> f64 (a - b) / Fin a"
    using some assms by (intro f64_div_mono f64_mono) auto
  ultimately show ?thesis using some(3) by simp
qed

subsection \<open>Analysing and comparing candidates\<close>

lemma Analyze_fields:
  "cb_candidate_policy (Analyze ca p q cur cand w) = q"
  "cb_current_policy (Analyze ca p q cur cand w) = p"
  "cb_net_benefit (Analyze ca p q cur cand w) =
     CalculatePotentialGain cur cand - sc_total_cost (EstimateSwitchingCost ca p q w)"
  "cb_should_switch (Analyze ca p q cur cand w) \<longleftrightarrow>
     ca_switch_threshold ca < cb_net_benefit (Analyze ca p q cur cand w)"
  by (simp_all add: Analyze_def CalculateNetBenefit_def Let_def)

lemma f64_diff_nonpos: "0 \<le> t \<or> t = NaN \<Longrightarrow> 0 - t = NaN \<or> 0 - t \<le> (0::float64)"
  using f64_mono [of _ 0]
  by (cases t) (auto simp: zero_float64_def minus_float64_def f64_frange)

lemma should_switch_better:
  assumes "ca_inv ca" and "cb_should_switch (Analyze ca p q cur cand w)"
  shows "cand < cur"
proof (rule ccontr)
  assume "\<not> cand < cur"
  then have "CalculatePotentialGain cur cand = 0 \<or> CalculatePotentialGain cur cand = NaN"
    using f64_not_less [of cand cur] by (cases "cur = NaN \<or> cand = NaN") (auto simp: CalculatePotentialGain_def)
  moreover have "0 - sc_total_cost (EstimateSwitchingCost ca p q w) = NaN \<or>
      0 - sc_total_cost (EstimateSwitchingCost ca p q w) \<le> 0"
    using total_cost_nonneg [OF assms(1), of p q w] f64_diff_nonpos by blast
  ultimately have "cb_net_benefit (Analyze ca p q cur cand w) = NaN \<or> cb_net_benefit (Analyze ca p q cur cand w) \<le> 0"
    by (auto simp: Analyze_fields)
  moreover have "0 \<le> ca_switch_threshold ca" using assms(1) by (simp add: ca_inv_def)
  ultimately have "\<not> ca_switch_threshold ca < cb_net_benefit (Analyze ca p q cur cand w)"
    by (auto dest: f64_le_trans f64_less_not_le)
  with assms(2) show False by (simp add: Analyze_fields)
qed

definition candidate_net ::
    "cost_benefit_analyzer \<Rightarrow> string \<Rightarrow> float64 \<Rightarrow> 64 word \<Rightarrow> string \<times> float64 \<Rightarrow> float64" where
  "candidate_net ca p cur w e =
     (if fst e = p then NaN else cb_net_benefit (Analyze ca p (fst e) cur (snd e) w))"

interpretation best_candidate: best_scan
    "compareStep ca p cur w"
    "\<lambda>e. (Some (Analyze ca p (fst e) cur (snd e) w), candidate_net ca p cur w e)"
    snd "candidate_net ca p cur w" "\<lambda>v b. b < v" "\<lambda>v b. b \<le> v" "\<lambda>v. v \<noteq> NaN"
  for ca p cur w
  by unfold_locales
    (auto simp: compareStep_def candidate_net_def Let_def split_def f64_le_refl f64_not_less
      intro: f64_less_imp_le f64_le_trans f64_le_less_trans)

lemma total_cost_default:
  assumes "w \<noteq> 0 \<or> m \<noteq> 0"
  shows "frange 0 (5 / 8) (sc_total_cost (EstimateSwitchingCost (NewCostBenefitAnalyzer m) p q w))"
proof -
  let ?t = "f64 (4 / 10)" and ?m = "f64 (2 / 10)" and ?d = "f64 (2 / 100)"
  have e: "exact64 (of_int k / 1024)" if "\<bar>k\<bar> < 2 ^ 53" for k
    using exact64_scaled [OF that, of "- 10"] by (simp add: power_int_minus)
  have t: "frange 0 (411 / 1024) ?t" and m: "frange 0 (206 / 1024) ?m" and td: "frange 0 (9 / 1024) (?t * ?d)"
    by code_simp+
  have "frange 0 (411 / 1024 * 1) (?t * timeCost w)"
    by (rule frange_mul_nonneg [OF t timeCost_range]) (use e [of 411] in simp)
  moreover have "frange 0 (206 / 1024 * 1) (?m * memoryCost w m)"
    by (rule frange_mul_nonneg [OF m memoryCost_range [OF assms]]) (use e [of 206] in simp)
  ultimately have "frange 0 (411 / 1024) (?t * timeCost w)" "frange 0 (206 / 1024) (?m * memoryCost w m)"
    by (simp_all only: mult_1_right)
  from frange_add [OF this] have "frange 0 (617 / 1024) (?t * timeCost w + ?m * memoryCost w m)"
    using e [of 617] by simp
  from frange_add [OF this td] have "frange 0 (626 / 1024) (?t * timeCost w + ?m * memoryCost w m + ?t * ?d)"
    using e [of 626] by simp
  then have "frange 0 (5 / 8) (?t * timeCost w + ?m * memoryCost w m + ?t * ?d)"
    by (rule frange_mono) simp_all
  then show ?thesis by (simp only: cost_fields NewCostBenefitAnalyzer_def cost_benefit_analyzer.simps)
qed

text \<open>A gain of three quarters outweighs any default cost.\<close>

lemma big_gain_switches:
  assumes "w \<noteq> 0 \<or> m \<noteq> 0"
  shows "cb_should_switch (Analyze (NewCostBenefitAnalyzer m) p q (Fin 1) (Fin (1 / 4)) w)"
proof -
  have e: "CalculatePotentialGain (Fin 1) (Fin (1 / 4)) = Fin (3 / 4)" "f64 (1 / 8) = Fin (1 / 8)"
    "f64 (5 / 100) < Fin (1 / 8)" by code_simp+
  have "\<exists>t. sc_total_cost (EstimateSwitchingCost (NewCostBenefitAnalyzer m) p q w) = Fin t \<and> t \<le> 5 / 8"
    using total_cost_default [OF assms, of p q] by (auto elim!: frangeE)
  then obtain t where t: "sc_total_cost (EstimateSwitchingCost (NewCostBenefitAnalyzer m) p q w) = Fin t" "t \<le> 5 / 8"
    by blast
  then have "f64 (1 / 8) \<le> f64 (3 / 4 - t)" by (intro f64_mono) simp
  with f64_less_le_trans [OF e(3)] show ?thesis
    by (simp add: Analyze_fields e t f64_Fin_simps) (simp add: NewCostBenefitAnalyzer_def)
qed

subsection \<open>Properties\<close>

text \<open>
  Unless both the cache size and the memory limit are 0, the estimated costs of
  a switch are fractions in [0,1] and the default weights bound the total by 5/8.
\<close>

theorem switching_cost_default:
  assumes "w \<noteq> 0 \<or> m \<noteq> 0"
  shows "0 \<le> sc_time_cost (EstimateSwitchingCost (NewCostBenefitAnalyzer m) p q w) \<and>
    sc_time_cost (EstimateSwitchingCost (NewCostBenefitAnalyzer m) p q w) \<le> 1 \<and>
    0 \<le> sc_memory_cost (EstimateSwitchingCost (NewCostBenefitAnalyzer m) p q w) \<and>
    sc_memory_cost (EstimateSwitchingCost (NewCostBenefitAnalyzer m) p q w) \<le> 1 \<and>
    0 \<le> sc_total_cost (EstimateSwitchingCost (NewCostBenefitAnalyzer m) p q w) \<and>
    sc_total_cost (EstimateSwitchingCost (NewCostBenefitAnalyzer m) p q w) \<le> Fin (5 / 8)"
  using timeCost_range [of w] memoryCost_range [OF assms] total_cost_default [OF assms, of p q]
  by (auto simp: cost_fields frange_01 NewCostBenefitAnalyzer_def elim!: frangeE)

theorem switching_cost_default_witness:
  "sc_total_cost (EstimateSwitchingCost (NewCostBenefitAnalyzer 0) ''lru'' ''lfu'' 1048576) \<le> Fin (5 / 8)"
  using switching_cost_default [of 1048576 0 "''lru''" "''lfu''"] by simp

text \<open>
  With a memory limit of 0 and an empty cache the memory cost is 0/0, and the
  NaN reaches the decision: no candidate, however good, is ever recommended and the
  comparison finds none.
\<close>

theorem zero_memory_never_switches:
  "\<not> cb_should_switch (Analyze (NewCostBenefitAnalyzer 0) p q cur cand 0) \<and>
   CompareMultipleCandidates ord (NewCostBenefitAnalyzer 0) p cur cands 0 = None"
proof -
  have "cb_net_benefit (Analyze (NewCostBenefitAnalyzer 0) p q cur cand 0) = NaN" for q cand
    by (simp add: Analyze_fields cost_fields NewCostBenefitAnalyzer_def memoryCost_undefined)
  moreover from this have "foldl (compareStep (NewCostBenefitAnalyzer 0) p cur 0) (None, - 1) es = (None, - 1)" for es
    by (intro best_candidate.scan_none) (auto simp: candidate_net_def)
  ultimately show ?thesis by (simp add: Analyze_fields(4) CompareMultipleCandidates_def)
qed

text \<open>
  The potential gain of miss ratios in [0,1] is a fraction in [0,1], it is 0 for
  a candidate that is no better, and a better candidate never has a smaller gain.
\<close>

theorem potential_gain:
  assumes "exact64 a" and "0 \<le> b" and "b \<le> b'"
  shows "0 \<le> CalculatePotentialGain (Fin a) (Fin b) \<and> CalculatePotentialGain (Fin a) (Fin b) \<le> 1 \<and>
    CalculatePotentialGain (Fin a) (Fin b') \<le> CalculatePotentialGain (Fin a) (Fin b) \<and>
    (a \<le> b \<longrightarrow> CalculatePotentialGain (Fin a) (Fin b) = 0)"
  using gain_le_1 [OF assms(2,1)] gain_antimono [OF assms(2,3), of a]
  by (auto simp: frange_01 CalculatePotentialGain_def)

theorem potential_gain_witness:
  "CalculatePotentialGain (Fin 1) (Fin (1 / 2)) \<le> CalculatePotentialGain (Fin 1) (Fin (1 / 4))"
  using potential_gain [of 1 "1 / 4" "1 / 2"] by simp

text \<open>
  A switch is recommended only towards a policy whose miss ratio is strictly
  lower than the current one, whatever floating-point values the server reports, and only
  if the net benefit exceeds the threshold.
\<close>

theorem Analyze_recommends_only_better:
  assumes "ca_inv ca" and "cb_should_switch (Analyze ca p q cur cand w)"
  shows "cand < cur \<and> ca_switch_threshold ca < cb_net_benefit (Analyze ca p q cur cand w)"
  using should_switch_better [OF assms] assms(2) by (simp add: Analyze_fields)

theorem Analyze_recommends_only_better_witness:
  "Fin (1 / 4) < Fin 1 \<and> ca_switch_threshold (NewCostBenefitAnalyzer 1073741824) <
     cb_net_benefit (Analyze (NewCostBenefitAnalyzer 1073741824) ''lru'' ''lfu'' (Fin 1) (Fin (1 / 4)) 1048576)"
  by (rule Analyze_recommends_only_better [OF ca_inv_New big_gain_switches]) simp

lemma Compare_scan:
  "CompareMultipleCandidates ord ca p cur cands w = fst (foldl (compareStep ca p cur w) (None, - 1) (ord cands))"
  by (simp add: CompareMultipleCandidates_def)

lemma Compare_Some:
  assumes "is_range_order ord" and "CompareMultipleCandidates ord ca p cur cands w = Some a"
  shows "\<exists>e \<in> set cands. fst e \<noteq> p \<and> a = Analyze ca p (fst e) cur (snd e) w \<and>
    (\<forall>f \<in> set cands. candidate_net ca p cur w f \<noteq> NaN \<longrightarrow> candidate_net ca p cur w f \<le> cb_net_benefit a)"
proof -
  let ?r = "foldl (compareStep ca p cur w) (None, - 1) (ord cands)"
  have es: "set (ord cands) = set cands" using assms(1) by (rule range_order_set)
  have a: "fst ?r = Some a" using assms(2) by (simp add: Compare_scan)
  then obtain e where e: "e \<in> set cands" "?r = (Some (Analyze ca p (fst e) cur (snd e) w), candidate_net ca p cur w e)"
      "candidate_net ca p cur w e \<noteq> NaN"
    using best_candidate.scan_source [of ca p cur w "(None, - 1)" "ord cands"] es by auto
  have "- 1 \<noteq> NaN" by (simp add: one_float64_def uminus_float64_def)
  then have opt: "candidate_net ca p cur w f \<le> snd ?r" if "f \<in> set cands" "candidate_net ca p cur w f \<noteq> NaN" for f
    using best_candidate.scan_optimal [of "(None, - 1)" f "ord cands" ca p cur w] that es by simp
  have "fst e \<noteq> p" using e(3) by (auto simp: candidate_net_def)
  moreover from this have "candidate_net ca p cur w e = cb_net_benefit (Analyze ca p (fst e) cur (snd e) w)"
    by (simp add: candidate_net_def)
  ultimately show ?thesis using e a opt by auto
qed

text \<open>
  Property C6: whatever order the candidates are visited in, the comparison returns the
  analysis of a candidate other than the current policy whose net benefit is at least that
  of every other candidate (NaN apart).
\<close>

theorem CompareMultipleCandidates_optimal:
  assumes "is_range_order ord" and "CompareMultipleCandidates ord ca p cur cands w = Some a"
  shows "\<exists>q m. (q, m) \<in> set cands \<and> q \<noteq> p \<and> a = Analyze ca p q cur m w \<and>
    (\<forall>(q', m') \<in> set cands. q' \<noteq> p \<and> cb_net_benefit (Analyze ca p q' cur m' w) \<noteq> NaN \<longrightarrow>
       cb_net_benefit (Analyze ca p q' cur m' w) \<le> cb_net_benefit a)"
proof -
  obtain e where e: "e \<in> set cands" "fst e \<noteq> p" "a = Analyze ca p (fst e) cur (snd e) w"
    "\<forall>f \<in> set cands. candidate_net ca p cur w f \<noteq> NaN \<longrightarrow> candidate_net ca p cur w f \<le> cb_net_benefit a"
    using Compare_Some [OF assms] by blast
  then show ?thesis
    by (intro exI [of _ "fst e"] exI [of _ "snd e"]) (force simp: candidate_net_def)
qed

lemma default_net_above_sentinel:
  assumes "w \<noteq> 0 \<or> m \<noteq> 0" and "0 \<le> cand" and "is_finite cur" and "cand \<noteq> PInf"
  shows "- 1 < cb_net_benefit (Analyze (NewCostBenefitAnalyzer m) p q cur cand w)"
proof -
  obtain a b where ab: "cur = Fin a" "cand = Fin b" "0 \<le> b" using assms(2-4) by (cases cur; cases cand) auto
  obtain t where t: "sc_total_cost (EstimateSwitchingCost (NewCostBenefitAnalyzer m) p q w) = Fin t" "t \<le> 5 / 8"
    using total_cost_default [OF assms(1), of p q] by (auto elim!: frangeE)
  have "f64 (- 5 / 8) = Fin (- 5 / 8)" by code_simp
  then have low: "- 1 < f64 (- 5 / 8)" by (simp add: one_float64_def uminus_float64_def)
  show ?thesis
  proof (cases "CalculatePotentialGain cur cand")
    case (Fin g)
    then have "f64 (- 5 / 8) \<le> f64 (g - t)" using gain_nonneg [OF ab(3), of a] t ab by (intro f64_mono) simp
    with low Fin t show ?thesis by (simp add: Analyze_fields f64_Fin_simps f64_less_le_trans)
  qed (use gain_nonneg [OF ab(3), of a] ab t in
      \<open>auto simp: Analyze_fields minus_float64_def one_float64_def uminus_float64_def\<close>)
qed

text \<open>
  With the default weights the starting value -1 of the comparison hides no
  candidate: for non-negative miss ratios the result is nil exactly when there is no
  candidate other than the current policy.
\<close>

theorem CompareMultipleCandidates_none:
  assumes "is_range_order ord" and "w \<noteq> 0 \<or> m \<noteq> 0" and "is_finite cur"
    and "\<forall>e \<in> set cands. 0 \<le> snd e \<and> snd e \<noteq> PInf"
  shows "CompareMultipleCandidates ord (NewCostBenefitAnalyzer m) p cur cands w = None \<longleftrightarrow>
    fst ` set cands \<subseteq> {p}"
proof
  let ?ca = "NewCostBenefitAnalyzer m"
  have es: "set (ord cands) = set cands" using assms(1) by (rule range_order_set)
  show "CompareMultipleCandidates ord ?ca p cur cands w = None" if "fst ` set cands \<subseteq> {p}"
  proof -
    have "\<forall>e \<in> set (ord cands). \<not> snd (None, - 1) < candidate_net ?ca p cur w e"
      using that es by (auto simp: candidate_net_def)
    from best_candidate.scan_none [OF this] show ?thesis by (simp add: Compare_scan)
  qed
  show "fst ` set cands \<subseteq> {p}" if none: "CompareMultipleCandidates ord ?ca p cur cands w = None"
  proof (rule ccontr)
    assume "\<not> fst ` set cands \<subseteq> {p}"
    then obtain e where e: "e \<in> set (ord cands)" "fst e \<noteq> p" using es by auto
    then have "snd (None, - 1) < candidate_net ?ca p cur w e"
      using assms(2-4) es by (auto simp: candidate_net_def intro!: default_net_above_sentinel)
    moreover have "snd (None, - 1) \<noteq> NaN" by (simp add: one_float64_def uminus_float64_def)
    ultimately obtain f where "foldl (compareStep ?ca p cur w) (None, - 1) (ord cands) =
        (Some (Analyze ?ca p (fst f) cur (snd f) w), candidate_net ?ca p cur w f)"
      using best_candidate.scan_some e(1) by blast
    then show False using none by (simp add: Compare_scan)
  qed
qed

lemma example_compare:
  "CompareMultipleCandidates rev (NewCostBenefitAnalyzer 0) ''lru'' (Fin 1) [(''lfu'', Fin (1 / 4)), (''lru'', 0)] 1048576 =
     Some (Analyze (NewCostBenefitAnalyzer 0) ''lru'' ''lfu'' (Fin 1) (Fin (1 / 4)) 1048576)"
  by (simp add: CompareMultipleCandidates_def compareStep_def Let_def default_net_above_sentinel)

theorem CompareMultipleCandidates_optimal_witness:
  "\<exists>q m. (q, m) \<in> set [(''lfu'', Fin (1 / 4)), (''lru'', 0)] \<and> q \<noteq> ''lru''"
  using CompareMultipleCandidates_optimal [OF is_range_order_rev example_compare] by blast

theorem CompareMultipleCandidates_none_witness:
  "CompareMultipleCandidates rev (NewCostBenefitAnalyzer 0) ''lru'' (Fin 1) [(''lru'', 0)] 1048576 = None"
  by (subst CompareMultipleCandidates_none) simp_all

text \<open>
  \<open>SetWeights\<close> is all or nothing: it fails, changing nothing, exactly when the
  sum of the weights is a number more than 0.01 away from 1; otherwise \<open>GetWeights\<close> returns
  the new weights. \<open>SetThreshold\<close> keeps the threshold in [0,1] under any arguments.
\<close>

theorem SetWeights_SetThreshold:
  "(case SetWeights ca t m d of
      (Some e, ca') \<Rightarrow> ca' = ca \<and> e = WeightsMustSumToOne (t + m + d) \<and> f64 (1 / 100) < \<bar>t + m + d - 1\<bar>
    | (None, ca') \<Rightarrow> GetWeights ca' = (t, m, d) \<and> GetThreshold ca' = GetThreshold ca \<and>
        \<not> f64 (1 / 100) < \<bar>t + m + d - 1\<bar>) \<and>
   0 \<le> GetThreshold (foldl SetThreshold (NewCostBenefitAnalyzer mem) ts) \<and>
   GetThreshold (foldl SetThreshold (NewCostBenefitAnalyzer mem) ts) \<le> 1"
proof (intro conjI)
  have "0 \<le> f64 (5 / 100)" "f64 (5 / 100) \<le> 1" by code_simp+
  then have "0 \<le> ca_switch_threshold (foldl SetThreshold (NewCostBenefitAnalyzer mem) ts) \<and>
      ca_switch_threshold (foldl SetThreshold (NewCostBenefitAnalyzer mem) ts) \<le> 1"
    by (induction ts rule: rev_induct) (auto simp: SetThreshold_def NewCostBenefitAnalyzer_def)
  then show "0 \<le> GetThreshold (foldl SetThreshold (NewCostBenefitAnalyzer mem) ts)"
    "GetThreshold (foldl SetThreshold (NewCostBenefitAnalyzer mem) ts) \<le> 1"
    by (simp_all add: GetThreshold_def)
qed (simp add: SetWeights_def GetWeights_def GetThreshold_def Let_def)

text \<open>
  A NaN weight passes the validation of \<open>SetWeights\<close> (no comparison with NaN is
  true), and from then on no switch is ever recommended.
\<close>

theorem SetWeights_accepts_NaN:
  "\<exists>ca'. SetWeights ca NaN m d = (None, ca') \<and> \<not> cb_should_switch (Analyze ca' p q cur cand w)"
  by (simp add: SetWeights_def Let_def Analyze_fields cost_fields)

text \<open>
  The two time estimates of the code disagree by a factor of ten: 100 MB take 10
  seconds by \<open>EstimateReconstructionTime\<close>, the duration at which the time cost is
  documented to reach its maximum 1, but the time cost of such a switch is 0.1.
\<close>

theorem time_estimates_disagree:
  "EstimateReconstructionTime 104857600 = Fin 10 \<and>
   sc_time_cost (EstimateSwitchingCost ca p q 104857600) = f64 (1 / 10)"
proof (rule conjI)
  show "EstimateReconstructionTime 104857600 = Fin 10" by code_simp
  have "timeCost 104857600 = f64 (1 / 10)" by code_simp
  then show "sc_time_cost (EstimateSwitchingCost ca p q 104857600) = f64 (1 / 10)"
    by (simp add: cost_fields)
qed

lemma rne_double: "0 < q \<Longrightarrow> 1 \<le> q \<Longrightarrow> rne q \<le> 2 * q"
proof -
  assume q: "0 < q" "1 \<le> q"
  have "2 powi (unit_exp q - 1) \<le> (2::rat) powi ilog2 q"
  proof (rule powi2_mono)
    have "0 \<le> ilog2 q" using ilog2_mono [of 1 q] q ilog2_unique [of 0 1] by simp
    then show "unit_exp q - 1 \<le> ilog2 q" by (simp add: unit_exp_def)
  qed
  also have "\<dots> \<le> q" using ilog2_bounds [OF q(1)] by simp
  finally show ?thesis using rne_error [of q] q by (simp add: abs_le_iff)
qed

lemma f64_u64_double:
  assumes "w \<noteq> 0"
  shows "\<exists>p. f64_of_u64 w = Fin p \<and> 0 \<le> p \<and> p \<le> 2 * of_int (uint w)"
proof -
  have "1 \<le> uint w" using assms uint_ge_0 [of w] uint_0_iff [of w] by linarith
  then have w: "(of_int 1 :: rat) \<le> of_int (uint w)" by (simp only: of_int_le_iff)
  obtain p where p: "f64_of_u64 w = Fin p" "0 \<le> p" using f64_u64_frange [of w] by (auto elim!: frangeE)
  then have "p = rne (of_int (uint w))" unfolding f64_of_u64_def f64_def Let_def by (auto split: if_splits)
  then show ?thesis using p rne_double [of "of_int (uint w)"] w by (auto simp del: of_int_uint)
qed

lemma f64_to_u64_le:
  assumes "x = Fin r" and "0 \<le> r" and "r \<le> of_int (uint w)"
  shows "\<exists>u. f64_to_u64 x = Some u \<and> u \<le> (w :: 64 word)"
proof -
  have fl: "0 \<le> \<lfloor>r\<rfloor>" "\<lfloor>r\<rfloor> \<le> uint w"
    using assms(2,3) floor_mono [OF assms(3)] by (simp_all del: of_int_uint)
  have u: "uint w < 2 ^ 64" using uint_lt2p [of w] by simp
  then have "(of_int (uint w) :: rat) < of_int (2 ^ 64)" by (simp only: of_int_less_iff)
  then have "r < 2 ^ 64" using assms(3) by (simp del: of_int_uint)
  moreover have "word_of_int \<lfloor>r\<rfloor> \<le> w"
  proof -
    have "\<lfloor>r\<rfloor> mod 2 ^ 64 = \<lfloor>r\<rfloor>" using fl u by (intro mod_pos_pos_trivial) linarith+
    then show ?thesis using fl(2) by (simp add: word_le_def uint_word_of_int)
  qed
  ultimately show ?thesis using assms(1,2) by simp
qed

text \<open>
  The estimated memory overhead is defined for every cache size (the conversion
  back to \<open>uint64\<close> is never out of range) and never exceeds the cache size.
\<close>

theorem EstimateMemoryOverhead_bounded:
  "\<exists>r. EstimateMemoryOverhead w = Some r \<and> r \<le> w"
proof (cases "w = 0")
  case True
  have "EstimateMemoryOverhead 0 = Some 0" by code_simp
  with True show ?thesis by simp
next
  case False
  obtain p where p: "f64_of_u64 w = Fin p" "0 \<le> p" "p \<le> 2 * of_int (uint w)"
    using f64_u64_double [OF False] by blast
  have "frange 0 (1 / 4) (f64 (1 / 10))" by code_simp
  then obtain c where c: "f64 (1 / 10) = Fin c" "0 \<le> c" "c \<le> 1 / 4" by (auto elim!: frangeE)
  obtain r where r: "f64_of_u64 w * f64 (1 / 10) = Fin r" "0 \<le> r"
    using overhead_range [of w] by (auto elim!: frangeE)
  then have eq: "r = rne (p * c)"
    unfolding p(1) c(1) f64_Fin_simps by (auto simp: f64_def Let_def split: if_splits)
  have pc: "p * c \<le> 2 * of_int (uint w) * (1 / 4)" using p c by (intro mult_mono) (auto simp del: of_int_uint)
  have "1 \<le> uint w" using False uint_ge_0 [of w] uint_0_iff [of w] by linarith
  then have w1: "(of_int 1 :: rat) \<le> of_int (uint w)" by (simp only: of_int_le_iff)
  have "r \<le> of_int (uint w)"
  proof (cases "1 \<le> p * c")
    case True
    then have "rne (p * c) \<le> 2 * (p * c)" by (intro rne_double) simp_all
    then show ?thesis using pc eq by simp
  next
    case False
    then have "rne (p * c) \<le> rne 1" by (intro rne_mono) simp
    then show ?thesis using w1 eq by (simp del: of_int_uint)
  qed
  then show ?thesis unfolding EstimateMemoryOverhead_def using r by (intro f64_to_u64_le) auto
qed

end
