(* ===== verification/Orchestrator.thy ===== *)
theory Orchestrator
  imports Metrics Trend Pattern CostBenefit
begin

text \<open>
  pkg/adaptive/orchestrator.go: the orchestrator that decides when to switch the cache's
  eviction policy.

  The struct is the record \<open>orchestrator\<close>; its four components are the values of the other
  theories, the cache server and the clock are the environment of \<open>Metrics\<close>. The stop
  channel is the flag \<open>or_stop_closed\<close>. \<open>evaluationLoop\<close> is composed of the phases
  between its calls to shared components, and the step relation \<open>orch_step\<close> interleaves
  those phases with \<open>RecordAccess\<close> and \<open>Stop\<close> calls of other goroutines and with changes of
  the world. Iteration orders of maps are the fields of \<open>orders\<close>. Logging is left out.
\<close>

subsection \<open>Data\<close>

record orchestrator_config =
  oc_evaluation_interval :: duration
  oc_stability_period :: duration
  oc_switch_threshold :: float64
  oc_max_memory :: "64 word"

record orchestrator =
  or_metrics :: metrics_aggregator
  or_pattern :: pattern_detector
  or_trend :: trend_analyzer
  or_cost :: cost_benefit_analyzer
  or_config :: orchestrator_config
  or_current_policy :: string
  or_last_switch_time :: instant
  or_is_running :: bool
  or_stop_closed :: bool

datatype orchestrator_error =
    MetricsInitFailed metrics_error
  | ProfilingFailed metrics_error
  | NoSuitablePolicy
  | SetInitialPolicyFailed string
  | AlreadyRunning

record orders =
  ro_best :: "(string \<times> policy_metrics) range_order"
  ro_metrics :: "(string \<times> policy_metrics) range_order"
  ro_candidates :: "(string \<times> float64) range_order"
  ro_recent :: "(string \<times> goint) range_order"
  ro_current :: "(string \<times> goint) range_order"

definition orders_ok :: "orders \<Rightarrow> bool" where
  "orders_ok ords \<longleftrightarrow> is_range_order (ro_best ords) \<and> is_range_order (ro_metrics ords) \<and>
     is_range_order (ro_candidates ords) \<and> is_range_order (ro_recent ords) \<and> is_range_order (ro_current ords)"

subsection \<open>Construction and initialisation\<close>

definition DefaultOrchestratorConfig :: orchestrator_config where
  "DefaultOrchestratorConfig =
     \<lparr>oc_evaluation_interval = 10 * second, oc_stability_period = 30 * second,
      oc_switch_threshold = f64 (5 / 100), oc_max_memory = 8 * 1024 * 1024 * 1024\<rparr>"

definition NewIntelligentOrchestrator ::
    "'w env \<Rightarrow> orchestrator_config option \<Rightarrow> 'w \<Rightarrow> orchestrator \<times> 'w" where
  "NewIntelligentOrchestrator env config w =
     (let config = (case config of None \<Rightarrow> DefaultOrchestratorConfig | Some c \<Rightarrow> c);
          (t, w) = env_now env w
      in (\<lparr>or_metrics = NewMetricsAggregator, or_pattern = NewPatternDetector 1000,
           or_trend = NewTrendAnalyzer, or_cost = NewCostBenefitAnalyzer (oc_max_memory config),
           or_config = config, or_current_policy = '''', or_last_switch_time = t,
           or_is_running = False, or_stop_closed = False\<rparr>, w))"

definition orch_Initialize ::
    "'w env \<Rightarrow> orders \<Rightarrow> orchestrator \<Rightarrow> 'w \<Rightarrow> orchestrator_error option \<times> orchestrator \<times> 'w" where
  "orch_Initialize env ords orc w =
     (case ma_Initialize env (or_metrics orc) w of
        (Some e, ma, w) \<Rightarrow> (Some (MetricsInitFailed e), orc\<lparr>or_metrics := ma\<rparr>, w)
      | (None, ma, w) \<Rightarrow>
          (case FastProfile env ma w of
             (Some e, ma, w) \<Rightarrow> (Some (ProfilingFailed e), orc\<lparr>or_metrics := ma\<rparr>, w)
           | (None, ma, w) \<Rightarrow>
               (let orc = orc\<lparr>or_metrics := ma\<rparr>;
                    bestPolicy = SelectBestPolicy (ro_best ords) ma
                in if bestPolicy = '''' then (Some NoSuitablePolicy, orc, w)
                   else (case env_policy env bestPolicy w of
                           (Some e, w) \<Rightarrow> (Some (SetInitialPolicyFailed e), orc, w)
                         | (None, w) \<Rightarrow>
                             (let (t, w) = env_now env w
                              in (None,
                                  orc\<lparr>or_current_policy := bestPolicy, or_last_switch_time := t,
                                    or_cost := SetThreshold (or_cost orc)
                                                 (oc_switch_threshold (or_config orc))\<rparr>, w))))))"

subsection \<open>One evaluation cycle\<close>

text \<open>
  From the start of \<open>evaluationLoop\<close> to the collected snapshot: the policy the cycle works
  with and the aggregated metrics, or nothing when the cycle ends early.
\<close>

definition evaluationBegin ::
    "'w env \<Rightarrow> orchestrator \<Rightarrow> 'w \<Rightarrow> (string \<times> aggregated_metrics) option \<times> orchestrator \<times> 'w" where
  "evaluationBegin env orc w =
     (let currentPolicy = or_current_policy orc;
          lastSwitch = or_last_switch_time orc;
          stabilityPeriod = oc_stability_period (or_config orc);
          (t, w) = env_now env w
      in if time_sub t lastSwitch < stabilityPeriod then (None, orc, w)
         else (case CollectCurrentMetrics env (or_metrics orc) w of
                 (Inl e, ma, w) \<Rightarrow> (None, orc\<lparr>or_metrics := ma\<rparr>, w)
               | (Inr aggregated, ma, w) \<Rightarrow>
                   (let orc = orc\<lparr>or_metrics := ma\<rparr>
                    in case GetLatestSnapshot ma of
                         None \<Rightarrow> (None, orc, w)
                       | Some currentSnapshot \<Rightarrow> (Some (currentPolicy, aggregated), orc, w))))"

definition needsEvaluation :: "orders \<Rightarrow> orchestrator \<Rightarrow> string \<Rightarrow> bool" where
  "needsEvaluation ords orc currentPolicy \<longleftrightarrow>
     sh_detected (DetectShift (ro_recent ords) (ro_current ords) (or_pattern orc)) \<or>
     ts_indicates_degradation (AnalyzeTrend (or_trend orc) (GetHistory (or_metrics orc)) currentPolicy)"

text \<open>\<open>evaluateCandidates\<close> up to its call of \<open>performSwitch\<close>: the analysis to act on.\<close>

definition candidateMissRatios ::
    "(string \<times> policy_metrics) range_order \<Rightarrow> aggregated_metrics \<Rightarrow> (string, float64) gomap" where
  "candidateMissRatios ord aggregated =
     foldl (\<lambda>candidates (policyName, metrics). AList.update policyName (pm_miss_ratio metrics) candidates)
       [] (ord (ag_all_policies_metrics aggregated))"

definition candidateDecision ::
    "orders \<Rightarrow> orchestrator \<Rightarrow> string \<Rightarrow> aggregated_metrics \<Rightarrow> cost_benefit_analysis option" where
  "candidateDecision ords orc currentPolicy aggregated =
     (case GetLatestSnapshot (or_metrics orc) of
        None \<Rightarrow> None
      | Some currentSnapshot \<Rightarrow>
          (let candidates = candidateMissRatios (ro_metrics ords) aggregated
           in if candidates = [] then None
              else (case CompareMultipleCandidates (ro_candidates ords) (or_cost orc) currentPolicy
                           (ms_miss_ratio currentSnapshot) candidates (ms_cache_size currentSnapshot) of
                      None \<Rightarrow> None
                    | Some bestAnalysis \<Rightarrow>
                        if cb_should_switch bestAnalysis then Some bestAnalysis else None)))"

text \<open>The server call and the state update of \<open>performSwitch\<close>, and its last line.\<close>

definition switchPolicy ::
    "'w env \<Rightarrow> orchestrator \<Rightarrow> cost_benefit_analysis \<Rightarrow> 'w \<Rightarrow> bool \<times> orchestrator \<times> 'w" where
  "switchPolicy env orc analysis w =
     (case env_policy env (cb_candidate_policy analysis) w of
        (Some e, w) \<Rightarrow> (False, orc, w)
      | (None, w) \<Rightarrow>
          (let (t, w) = env_now env w
           in (True, orc\<lparr>or_current_policy := cb_candidate_policy analysis, or_last_switch_time := t\<rparr>, w)))"

definition clearBaseline :: "orchestrator \<Rightarrow> orchestrator" where
  "clearBaseline orc = orc\<lparr>or_pattern := Clear (or_pattern orc)\<rparr>"

definition performSwitch :: "'w env \<Rightarrow> orchestrator \<Rightarrow> cost_benefit_analysis \<Rightarrow> 'w \<Rightarrow> orchestrator \<times> 'w" where
  "performSwitch env orc analysis w =
     (case switchPolicy env orc analysis w of
        (False, orc, w) \<Rightarrow> (orc, w)
      | (True, orc, w) \<Rightarrow> (clearBaseline orc, w))"

definition evaluateCandidates ::
    "'w env \<Rightarrow> orders \<Rightarrow> orchestrator \<Rightarrow> string \<Rightarrow> aggregated_metrics \<Rightarrow> 'w \<Rightarrow> orchestrator \<times> 'w" where
  "evaluateCandidates env ords orc currentPolicy aggregated w =
     (case candidateDecision ords orc currentPolicy aggregated of
        None \<Rightarrow> (orc, w)
      | Some bestAnalysis \<Rightarrow> performSwitch env orc bestAnalysis w)"

definition evaluationLoop :: "'w env \<Rightarrow> orders \<Rightarrow> orchestrator \<Rightarrow> 'w \<Rightarrow> orchestrator \<times> 'w" where
  "evaluationLoop env ords orc w =
     (case evaluationBegin env orc w of
        (None, orc, w) \<Rightarrow> (orc, w)
      | (Some (currentPolicy, aggregated), orc, w) \<Rightarrow>
          if needsEvaluation ords orc currentPolicy
          then evaluateCandidates env ords orc currentPolicy aggregated w
          else (orc, w))"

definition orch_RecordAccess :: "'w env \<Rightarrow> orchestrator \<Rightarrow> string \<Rightarrow> bool \<Rightarrow> 'w \<Rightarrow> orchestrator \<times> 'w" where
  "orch_RecordAccess env orc key isHit w =
     (let (t, w) = env_now env w
      in (orc\<lparr>or_pattern := RecordAccess (or_pattern orc) key isHit t\<rparr>, w))"

definition GetCurrentPolicy :: "orchestrator \<Rightarrow> string" where
  "GetCurrentPolicy orc = or_current_policy orc"

subsection \<open>Lifecycle\<close>

text \<open>
  \<open>Start\<close> as a function of what its \<open>select\<close> receives: each tick runs a cycle, the closed
  stop channel ends the loop; after the given events it is still running.
  \<open>time.NewTicker\<close> panics on a non-positive interval, \<open>close\<close> on a closed channel.
\<close>

datatype loop_event = TickerFires orders | StopReceived

datatype start_outcome = ReturnsError orchestrator_error | PanicsNewTicker | ReturnsNil | StillRunning

fun orchLoop :: "'w env \<Rightarrow> loop_event list \<Rightarrow> orchestrator \<Rightarrow> 'w \<Rightarrow> start_outcome \<times> orchestrator \<times> 'w" where
  "orchLoop env [] orc w = (StillRunning, orc, w)"
| "orchLoop env (TickerFires ords # es) orc w =
     (case evaluationLoop env ords orc w of (orc, w) \<Rightarrow> orchLoop env es orc w)"
| "orchLoop env (StopReceived # es) orc w = (ReturnsNil, orc\<lparr>or_is_running := False\<rparr>, w)"

definition Start ::
    "'w env \<Rightarrow> loop_event list \<Rightarrow> orchestrator \<Rightarrow> 'w \<Rightarrow> start_outcome \<times> orchestrator \<times> 'w" where
  "Start env es orc w =
     (if or_is_running orc then (ReturnsError AlreadyRunning, orc, w)
      else let orc = orc\<lparr>or_is_running := True\<rparr>
           in if oc_evaluation_interval (or_config orc) \<le> 0 then (PanicsNewTicker, orc, w)
              else orchLoop env es orc w)"

definition Stop :: "orchestrator \<Rightarrow> orchestrator option" where
  "Stop orc = (if or_stop_closed orc then None else Some (orc\<lparr>or_stop_closed := True\<rparr>))"

text \<open>\<open>GetStatus\<close> before its values are formatted.\<close>

record orchestrator_status =
  os_is_running :: bool
  os_current_policy :: string
  os_last_switch :: instant
  os_time_since_switch :: duration
  os_evaluation_interval :: duration
  os_stability_period :: duration
  os_switch_threshold_percent :: float64

definition GetStatus :: "'w env \<Rightarrow> orchestrator \<Rightarrow> 'w \<Rightarrow> orchestrator_status \<times> 'w" where
  "GetStatus env orc w =
     (let (t, w) = env_now env w
      in (\<lparr>os_is_running = or_is_running orc, os_current_policy = or_current_policy orc,
           os_last_switch = or_last_switch_time orc,
           os_time_since_switch = time_sub t (or_last_switch_time orc),
           os_evaluation_interval = oc_evaluation_interval (or_config orc),
           os_stability_period = oc_stability_period (or_config orc),
           os_switch_threshold_percent = oc_switch_threshold (or_config orc) * Fin 100\<rparr>, w))"

subsection \<open>The step relation\<close>

text \<open>
  Where the goroutine of \<open>Start\<close> is: outside the loop, waiting in the \<open>select\<close>, or in a
  cycle: with collected metrics, about to switch, or about to clear the access log. At each
  of these points other goroutines can record accesses, close the stop channel, or change the
  world (the relation \<open>rely\<close>).
\<close>

datatype loop_pc =
    Outside | Waiting | Collected string aggregated_metrics | Switching cost_benefit_analysis | Clearing

datatype orch_label =
    LStart | LStartRejected | LTick | LDetect orders | LSwitch string instant | LSwitchFailed | LClear
  | LExit | LAccess string bool | LStop | LWorld

inductive orch_step ::
    "'w env \<Rightarrow> ('w \<Rightarrow> 'w \<Rightarrow> bool) \<Rightarrow> orch_label \<Rightarrow>
     orchestrator \<times> loop_pc \<times> 'w \<Rightarrow> orchestrator \<times> loop_pc \<times> 'w \<Rightarrow> bool"
  for env rely where
  start: "\<not> or_is_running orc \<Longrightarrow> 0 < oc_evaluation_interval (or_config orc) \<Longrightarrow>
    orch_step env rely LStart (orc, Outside, w) (orc\<lparr>or_is_running := True\<rparr>, Waiting, w)"
| start_rejected: "or_is_running orc \<Longrightarrow> orch_step env rely LStartRejected (orc, pc, w) (orc, pc, w)"
| tick: "evaluationBegin env orc w = (r, orc', w') \<Longrightarrow>
    orch_step env rely LTick (orc, Waiting, w)
      (orc', case r of None \<Rightarrow> Waiting | Some (cur, ag) \<Rightarrow> Collected cur ag, w')"
| detect: "orders_ok ords \<Longrightarrow>
    orch_step env rely (LDetect ords) (orc, Collected cur ag, w)
      (orc, case (if needsEvaluation ords orc cur then candidateDecision ords orc cur ag else None) of
              None \<Rightarrow> Waiting | Some a \<Rightarrow> Switching a, w)"
| switch: "switchPolicy env orc a w = (True, orc', w') \<Longrightarrow>
    orch_step env rely (LSwitch (or_current_policy orc') (or_last_switch_time orc'))
      (orc, Switching a, w) (orc', Clearing, w')"
| switch_failed: "switchPolicy env orc a w = (False, orc', w') \<Longrightarrow>
    orch_step env rely LSwitchFailed (orc, Switching a, w) (orc', Waiting, w')"
| clear: "orch_step env rely LClear (orc, Clearing, w) (clearBaseline orc, Waiting, w)"
| exit: "or_stop_closed orc \<Longrightarrow>
    orch_step env rely LExit (orc, Waiting, w) (orc\<lparr>or_is_running := False\<rparr>, Outside, w)"
| access: "orch_RecordAccess env orc k h w = (orc', w') \<Longrightarrow>
    orch_step env rely (LAccess k h) (orc, pc, w) (orc', pc, w')"
| stop: "Stop orc = Some orc' \<Longrightarrow> orch_step env rely LStop (orc, pc, w) (orc', pc, w)"
| world: "rely w w' \<Longrightarrow> orch_step env rely LWorld (orc, pc, w) (orc, pc, w')"

inductive_cases orch_stepE: "orch_step env rely l s s'"

inductive orch_run ::
    "'w env \<Rightarrow> ('w \<Rightarrow> 'w \<Rightarrow> bool) \<Rightarrow> orchestrator \<times> loop_pc \<times> 'w \<Rightarrow> orch_label list \<Rightarrow>
     orchestrator \<times> loop_pc \<times> 'w \<Rightarrow> bool"
  for env rely where
  run_nil: "orch_run env rely s [] s"
| run_more: "orch_step env rely l s s' \<Longrightarrow> orch_run env rely s' ls s'' \<Longrightarrow> orch_run env rely s (l # ls) s''"

inductive_simps orch_run_simps: "orch_run env rely s [] s'" "orch_run env rely s (l # ls) s'"

lemma orch_run_trans:
  "orch_run env rely s ls s' \<Longrightarrow> orch_run env rely s' ms s'' \<Longrightarrow> orch_run env rely s (ls @ ms) s''"
  by (induction rule: orch_run.induct) (auto intro: run_more)

subsection \<open>Clocks\<close>

text \<open>
  What the code relies on of the environment: \<open>clk\<close> reads a clock in the world that no
  operation turns back and that \<open>time.Now\<close> reports (Go's monotonic clock).
\<close>

definition clock_ok :: "'w env \<Rightarrow> ('w \<Rightarrow> 'w \<Rightarrow> bool) \<Rightarrow> ('w \<Rightarrow> instant) \<Rightarrow> bool" where
  "clock_ok env rely clk \<longleftrightarrow>
     (\<forall>w. clk w \<le> fst (env_now env w) \<and> fst (env_now env w) \<le> clk (snd (env_now env w))) \<and>
     (\<forall>w. clk w \<le> clk (snd (env_status env w))) \<and>
     (\<forall>p w. clk w \<le> clk (snd (env_policy env p w))) \<and>
     (\<forall>w w'. rely w w' \<longrightarrow> clk w \<le> clk w')"

lemma clock_okD:
  assumes "clock_ok env rely clk"
  shows "env_now env w = (t, w') \<Longrightarrow> clk w \<le> t \<and> t \<le> clk w'"
    and "env_status env w = (st, w') \<Longrightarrow> clk w \<le> clk w'"
    and "env_policy env p w = (e, w') \<Longrightarrow> clk w \<le> clk w'"
    and "rely w w' \<Longrightarrow> clk w \<le> clk w'"
  using assms unfolding clock_ok_def by (metis fst_conv snd_conv)+

lemma clock_Collect:
  assumes "clock_ok env rely clk" and "CollectCurrentMetrics env ma w = (r, ma', w')"
  shows "clk w \<le> clk w'"
proof -
  obtain st w1 where s: "env_status env w = (st, w1)" by (metis prod.collapse)
  show ?thesis
  proof (cases st)
    case (Inl e)
    with s assms clock_okD(2) [OF assms(1) s] show ?thesis by (simp add: CollectCurrentMetrics_def)
  next
    case (Inr status)
    let ?w2 = "snd (env_now env w1)"
    have "w' = snd (env_now env ?w2)"
      using assms(2) s Inr by (auto simp: CollectCurrentMetrics_def storePolicyMetrics_def Let_def split: prod.splits)
    then show ?thesis
      using clock_okD(2) [OF assms(1) s] clock_okD(1) [OF assms(1), of w1] clock_okD(1) [OF assms(1), of ?w2]
      by (metis order_trans prod.collapse)
  qed
qed

lemma time_sub_ge: "s \<le> time_sub t u \<Longrightarrow> - (2 ^ 63) < s \<Longrightarrow> u + s \<le> t"
  by (simp add: time_sub_def)

subsection \<open>Invariant\<close>

text \<open>
  The components satisfy their invariants, the running flag says whether the loop is
  entered, and inside a cycle the stability period has passed and the cycle's policy is
  still the current one.
\<close>

definition comps_inv :: "orchestrator \<Rightarrow> bool" where
  "comps_inv orc \<longleftrightarrow> ma_inv (or_metrics orc) \<and> pd_inv (or_pattern orc) \<and> ta_inv (or_trend orc) \<and>
     ca_inv (or_cost orc) \<and> - (2 ^ 63) < oc_stability_period (or_config orc)"

definition stable_until :: "orchestrator \<Rightarrow> instant" where
  "stable_until orc = or_last_switch_time orc + oc_stability_period (or_config orc)"

definition sys_inv :: "('w \<Rightarrow> instant) \<Rightarrow> orchestrator \<times> loop_pc \<times> 'w \<Rightarrow> bool" where
  "sys_inv clk s = (case s of (orc, pc, w) \<Rightarrow>
     comps_inv orc \<and> (or_is_running orc \<longleftrightarrow> pc \<noteq> Outside) \<and>
     (case pc of
        Collected cur ag \<Rightarrow> cur = or_current_policy orc \<and> stable_until orc \<le> clk w
      | Switching a \<Rightarrow> cb_candidate_policy a \<noteq> or_current_policy orc \<and>
          cb_should_switch a \<and> stable_until orc \<le> clk w
      | _ \<Rightarrow> True))"

lemma evaluationBegin_unchanged:
  "evaluationBegin env orc w = (r, orc', w') \<Longrightarrow> \<exists>ma. orc' = orc\<lparr>or_metrics := ma\<rparr>"
  by (cases orc) (auto simp: evaluationBegin_def Let_def split: prod.splits sum.splits option.splits if_splits)

lemma evaluationBegin_comps:
  assumes "evaluationBegin env orc w = (r, orc', w')" and "comps_inv orc"
  shows "comps_inv orc'"
proof -
  have "ma_inv ma'" if "CollectCurrentMetrics env (or_metrics orc) u = (x, ma', u')" for u x ma' u'
    using ma_inv_Collect [of "or_metrics orc" env u] that assms(2) by (simp add: comps_inv_def)
  then show ?thesis
    using assms by (auto simp: evaluationBegin_def comps_inv_def Let_def
        split: prod.splits sum.splits option.splits if_splits)
qed

lemma evaluationBegin_stable:
  assumes "evaluationBegin env orc w = (Some (cur, ag), orc', w')" and "comps_inv orc" and "clock_ok env rely clk"
  shows "cur = or_current_policy orc' \<and> stable_until orc' \<le> clk w'"
proof -
  obtain t w1 where t: "env_now env w = (t, w1)" by (metis prod.collapse)
  obtain ma w2 where c: "\<not> time_sub t (or_last_switch_time orc) < oc_stability_period (or_config orc)"
    "CollectCurrentMetrics env (or_metrics orc) w1 = (Inr ag, ma, w2)"
    and r: "cur = or_current_policy orc" "orc' = orc\<lparr>or_metrics := ma\<rparr>" "w' = w2"
    using assms(1) t by (auto simp: evaluationBegin_def Let_def split: prod.splits sum.splits option.splits if_splits)
  have "or_last_switch_time orc + oc_stability_period (or_config orc) \<le> t"
    using c(1) assms(2) by (intro time_sub_ge) (simp_all add: comps_inv_def)
  then show ?thesis
    using r clock_okD(1) [OF assms(3) t] clock_Collect [OF assms(3) c(2)] by (simp add: stable_until_def)
qed

lemma candidateMissRatios_sound:
  assumes "is_range_order ord" and "(q, m) \<in> set (candidateMissRatios ord ag)"
  shows "\<exists>pm. (q, pm) \<in> set (ag_all_policies_metrics ag) \<and> m = pm_miss_ratio pm"
proof -
  let ?step = "\<lambda>cs (policyName, metrics). AList.update policyName (pm_miss_ratio metrics) cs"
  have "set (foldl ?step cs es) \<subseteq> set cs \<union> (\<lambda>(k, v). (k, pm_miss_ratio v)) ` set es" for cs es
  proof (induction es arbitrary: cs)
    case (Cons e es)
    obtain k v where e: "e = (k, v)" by fastforce
    show ?case using Cons.IH [of "AList.update k (pm_miss_ratio v) cs"] set_update_subset [of k "pm_miss_ratio v" cs]
      by (auto simp: e)
  qed simp
  from this [of "[]" "ord (ag_all_policies_metrics ag)"] show ?thesis
    using assms range_order_set [OF assms(1), of "ag_all_policies_metrics ag"]
    by (auto simp: candidateMissRatios_def)
qed

lemma candidateDecision_Some:
  assumes "orders_ok ords" and "candidateDecision ords orc cur ag = Some a"
  shows "\<exists>q pm snap. GetLatestSnapshot (or_metrics orc) = Some snap \<and>
    (q, pm) \<in> set (ag_all_policies_metrics ag) \<and> q \<noteq> cur \<and>
    a = Analyze (or_cost orc) cur q (ms_miss_ratio snap) (pm_miss_ratio pm) (ms_cache_size snap) \<and>
    cb_should_switch a"
proof -
  obtain snap where s: "GetLatestSnapshot (or_metrics orc) = Some snap" and sw: "cb_should_switch a"
    and c: "CompareMultipleCandidates (ro_candidates ords) (or_cost orc) cur (ms_miss_ratio snap)
        (candidateMissRatios (ro_metrics ords) ag) (ms_cache_size snap) = Some a"
    using assms(2) by (auto simp: candidateDecision_def Let_def split: option.splits if_splits)
  have o: "is_range_order (ro_candidates ords)" "is_range_order (ro_metrics ords)"
    using assms(1) by (simp_all add: orders_ok_def)
  obtain e where e: "e \<in> set (candidateMissRatios (ro_metrics ords) ag)" "fst e \<noteq> cur"
    "a = Analyze (or_cost orc) cur (fst e) (ms_miss_ratio snap) (snd e) (ms_cache_size snap)"
    using Compare_Some [OF o(1) c] by blast
  obtain pm where "(fst e, pm) \<in> set (ag_all_policies_metrics ag)" "snd e = pm_miss_ratio pm"
    using candidateMissRatios_sound [OF o(2), of "fst e" "snd e"] e(1) by auto
  with s sw e show ?thesis by auto
qed

lemma decision_Some:
  assumes "orders_ok ords"
    and "(if needsEvaluation ords orc cur then candidateDecision ords orc cur ag else None) = Some a"
  shows "cb_candidate_policy a \<noteq> cur \<and> cb_should_switch a"
  using candidateDecision_Some [OF assms(1), of orc cur ag a] assms(2)
  by (auto simp: Analyze_fields split: if_splits)

lemma switchPolicy_cases:
  obtains (failed) e w' where "env_policy env (cb_candidate_policy a) w = (Some e, w')"
      "switchPolicy env orc a w = (False, orc, w')"
  | (ok) w1 t w' where "env_policy env (cb_candidate_policy a) w = (None, w1)" "env_now env w1 = (t, w')"
      "switchPolicy env orc a w =
        (True, orc\<lparr>or_current_policy := cb_candidate_policy a, or_last_switch_time := t\<rparr>, w')"
proof -
  obtain r w1 t w2 where "env_policy env (cb_candidate_policy a) w = (r, w1)" "env_now env w1 = (t, w2)"
    by (metis prod.collapse)
  then show thesis using failed ok by (cases r) (auto simp: switchPolicy_def)
qed

lemma sys_inv_simps:
  "sys_inv clk (orc, Outside, w) \<longleftrightarrow> comps_inv orc \<and> \<not> or_is_running orc"
  "sys_inv clk (orc, Waiting, w) \<longleftrightarrow> comps_inv orc \<and> or_is_running orc"
  "sys_inv clk (orc, Clearing, w) \<longleftrightarrow> comps_inv orc \<and> or_is_running orc"
  "sys_inv clk (orc, Collected cur ag, w) \<longleftrightarrow>
     comps_inv orc \<and> or_is_running orc \<and> cur = or_current_policy orc \<and> stable_until orc \<le> clk w"
  "sys_inv clk (orc, Switching a, w) \<longleftrightarrow> comps_inv orc \<and> or_is_running orc \<and>
     cb_candidate_policy a \<noteq> or_current_policy orc \<and> cb_should_switch a \<and> stable_until orc \<le> clk w"
  by (auto simp: sys_inv_def)

lemmas orch_fields = comps_inv_def stable_until_def clearBaseline_def

lemma sys_inv_mono:
  assumes "sys_inv clk (orc, pc, w)" and "clk w \<le> clk w'" and "comps_inv orc'"
    and "or_is_running orc' = or_is_running orc" and "or_current_policy orc' = or_current_policy orc"
    and "stable_until orc' = stable_until orc"
  shows "sys_inv clk (orc', pc, w')"
  using assms by (cases pc) (auto simp: sys_inv_simps)

lemma sys_inv_step:
  assumes "clock_ok env rely clk" and "orch_step env rely l s s'" and "sys_inv clk s"
  shows "sys_inv clk s'"
  using assms(2,3)
proof cases
  case (start orc w)
  then show ?thesis using assms(3) by (simp add: sys_inv_simps comps_inv_def)
next
  case (tick orc w r orc' w')
  have inv: "comps_inv orc" "or_is_running orc" using assms(3) tick by (simp_all add: sys_inv_simps)
  obtain ma where "orc' = orc\<lparr>or_metrics := ma\<rparr>" using evaluationBegin_unchanged [OF tick(4)] by blast
  then have "or_is_running orc'" using inv by simp
  moreover have "comps_inv orc'" using evaluationBegin_comps [OF tick(4) inv(1)] .
  ultimately show ?thesis
    using tick evaluationBegin_stable [OF _ inv(1) assms(1)] by (auto simp: sys_inv_simps split: option.split)
next
  case (detect ords orc cur ag w)
  then show ?thesis
    using assms(3) decision_Some [OF detect(4), of orc cur ag] by (auto simp: sys_inv_simps split: option.split)
next
  case (switch orc a w orc' w')
  then show ?thesis
    using assms(3) by (cases rule: switchPolicy_cases [of env a w orc]) (auto simp: sys_inv_simps comps_inv_def)
next
  case (switch_failed orc a w orc' w')
  then show ?thesis
    using assms(3) by (cases rule: switchPolicy_cases [of env a w orc]) (auto simp: sys_inv_simps)
next
  case (clear orc w)
  then show ?thesis using assms(3) by (simp add: sys_inv_simps orch_fields pd_inv_Clear)
next
  case (exit orc w)
  then show ?thesis using assms(3) by (simp add: sys_inv_simps comps_inv_def)
next
  case (access orc k h w orc' w' pc)
  then obtain t where t: "env_now env w = (t, w')" "orc' = orc\<lparr>or_pattern := RecordAccess (or_pattern orc) k h t\<rparr>"
    by (auto simp: orch_RecordAccess_def Let_def split: prod.splits)
  have "comps_inv orc" using assms(3) access by (simp add: sys_inv_def)
  then have "comps_inv orc'" by (simp add: t comps_inv_def pd_inv_RecordAccess)
  then show ?thesis
    using access assms(3) clock_okD(1) [OF assms(1) t(1)] t(2)
    by (auto simp: stable_until_def intro!: sys_inv_mono [of clk orc pc w])
next
  case (stop orc orc' pc w)
  then have "orc' = orc\<lparr>or_stop_closed := True\<rparr>" by (auto simp: Stop_def split: if_splits)
  moreover have "comps_inv orc" using assms(3) stop by (simp add: sys_inv_def)
  ultimately show ?thesis
    using stop assms(3) by (auto simp: orch_fields intro!: sys_inv_mono [of clk orc pc w])
next
  case (world w w' orc pc)
  moreover have "comps_inv orc" using assms(3) world by (simp add: sys_inv_def)
  ultimately show ?thesis
    using assms(3) clock_okD(4) [OF assms(1)] by (auto intro: sys_inv_mono [of clk orc pc w])
qed simp

lemma sys_inv_run:
  "orch_run env rely s ls s' \<Longrightarrow> clock_ok env rely clk \<Longrightarrow> sys_inv clk s \<Longrightarrow> sys_inv clk s'"
  by (induction rule: orch_run.induct) (auto dest: sys_inv_step)

subsection \<open>Initial states and switches of a run\<close>

text \<open>The states a program can start the loop in: construction, then \<open>Initialize\<close>, with any outcome.\<close>

definition initial_state ::
    "'w env \<Rightarrow> orchestrator_config option \<Rightarrow> orders \<Rightarrow> 'w \<Rightarrow> orchestrator \<times> loop_pc \<times> 'w" where
  "initial_state env config ords w =
     (case NewIntelligentOrchestrator env config w of
        (orc, w) \<Rightarrow> (case orch_Initialize env ords orc w of (e, orc, w) \<Rightarrow> (orc, Outside, w)))"

fun switches :: "orch_label list \<Rightarrow> (instant \<times> string) list" where
  "switches [] = []"
| "switches (LSwitch p t # ls) = (t, p) # switches ls"
| "switches (_ # ls) = switches ls"

lemma ca_inv_SetThreshold: "ca_inv ca \<Longrightarrow> ca_inv (SetThreshold ca t)"
  by (simp add: ca_inv_def SetThreshold_def)

lemma orch_Initialize_cases:
  assumes "orch_Initialize env ords orc w = (e, orc', w')"
  obtains (failed) err ma where "e = Some err" "orc' = orc\<lparr>or_metrics := ma\<rparr>"
      "ma_inv (or_metrics orc) \<Longrightarrow> ma_inv ma"
  | (ok) ma t w1 w2 where "e = None" "ma_inv (or_metrics orc) \<Longrightarrow> ma_inv ma"
      "SelectBestPolicy (ro_best ords) ma \<noteq> ''''"
      "env_policy env (SelectBestPolicy (ro_best ords) ma) w1 = (None, w2)" "env_now env w2 = (t, w')"
      "orc' = orc\<lparr>or_metrics := ma, or_current_policy := SelectBestPolicy (ro_best ords) ma,
         or_last_switch_time := t, or_cost := SetThreshold (or_cost orc) (oc_switch_threshold (or_config orc))\<rparr>"
proof -
  obtain e1 ma1 w1 where i: "ma_Initialize env (or_metrics orc) w = (e1, ma1, w1)" by (metis prod_cases3)
  obtain e2 ma2 w2 where f: "FastProfile env ma1 w1 = (e2, ma2, w2)" by (metis prod_cases3)
  have inv1: "ma_inv (or_metrics orc) \<Longrightarrow> ma_inv ma1" using ma_inv_Initialize [of "or_metrics orc" env w] i by simp
  then have inv2: "ma_inv (or_metrics orc) \<Longrightarrow> ma_inv ma2" using ma_inv_FastProfile [of ma1 env w1] f by simp
  note d = assms [unfolded orch_Initialize_def, unfolded i]
  show thesis
  proof (cases "e1 = None \<and> e2 = None \<and> SelectBestPolicy (ro_best ords) ma2 \<noteq> '''' \<and>
      fst (env_policy env (SelectBestPolicy (ro_best ords) ma2) w2) = None")
    case True
    obtain r w3 where p: "env_policy env (SelectBestPolicy (ro_best ords) ma2) w2 = (r, w3)" by (metis prod.collapse)
    obtain t w4 where n: "env_now env w3 = (t, w4)" by (metis prod.collapse)
    from True p have "r = None" by simp
    with d True f p n have "e = None" "w4 = w'"
      "orc' = orc\<lparr>or_metrics := ma2, or_current_policy := SelectBestPolicy (ro_best ords) ma2,
         or_last_switch_time := t, or_cost := SetThreshold (or_cost orc) (oc_switch_threshold (or_config orc))\<rparr>"
      by (simp_all add: Let_def)
    with inv2 True p n \<open>r = None\<close> ok show thesis by blast
  next
    case False
    then show thesis
      using d inv1 inv2 f failed
      by (auto simp: Let_def split: prod.splits option.splits if_splits)
  qed
qed

lemma sys_inv_initial:
  assumes "\<And>c. config = Some c \<Longrightarrow> - (2 ^ 63) < oc_stability_period c"
  shows "sys_inv clk (initial_state env config ords w)"
proof -
  obtain orc w1 where n: "NewIntelligentOrchestrator env config w = (orc, w1)" by (metis prod.collapse)
  obtain e orc' w2 where i: "orch_Initialize env ords orc w1 = (e, orc', w2)" by (metis prod_cases3)
  have inv: "comps_inv orc" "\<not> or_is_running orc"
    using n assms
    by (auto simp: NewIntelligentOrchestrator_def comps_inv_def ma_inv_New pd_inv_New ta_inv_New ca_inv_New
        DefaultOrchestratorConfig_def second_def Let_def split: prod.splits option.splits)
  from i show ?thesis
  proof (cases rule: orch_Initialize_cases)
    case failed
    then show ?thesis using inv by (simp add: initial_state_def n i sys_inv_simps comps_inv_def)
  next
    case ok
    then show ?thesis
      using inv by (simp add: initial_state_def n i sys_inv_simps comps_inv_def ca_inv_SetThreshold)
  qed
qed

lemma orch_step_switch:
  assumes "clock_ok env rely clk" and "orch_step env rely l s s'" and "sys_inv clk s"
  shows "or_config (fst s') = or_config (fst s) \<and>
    (case l of LSwitch p t \<Rightarrow> or_last_switch_time (fst s') = t \<and> or_current_policy (fst s') = p \<and>
        p \<noteq> or_current_policy (fst s) \<and> stable_until (fst s) \<le> t
      | _ \<Rightarrow> or_last_switch_time (fst s') = or_last_switch_time (fst s) \<and>
        or_current_policy (fst s') = or_current_policy (fst s))"
  using assms(2)
proof cases
  case (tick orc w r orc' w')
  from evaluationBegin_unchanged [OF tick(4)] tick show ?thesis by auto
next
  case (switch orc a w orc' w')
  then show ?thesis
    using assms(3) clock_okD(3) [OF assms(1)] clock_okD(1) [OF assms(1)]
    by (cases rule: switchPolicy_cases [of env a w orc]) (fastforce simp: sys_inv_simps)+
next
  case (switch_failed orc a w orc' w')
  then show ?thesis by (cases rule: switchPolicy_cases [of env a w orc]) auto
next
  case (access orc k h w orc' w' pc)
  then show ?thesis by (auto simp: orch_RecordAccess_def Let_def split: prod.splits)
next
  case (stop orc orc' pc w)
  then show ?thesis by (auto simp: Stop_def split: if_splits)
qed (simp_all add: clearBaseline_def)

lemma switches_spaced_run:
  assumes "orch_run env rely s ls s'" and "clock_ok env rely clk" and "sys_inv clk s"
  shows "successively (\<lambda>(t, p) (u, q). t + oc_stability_period (or_config (fst s)) \<le> u \<and> p \<noteq> q)
    ((or_last_switch_time (fst s), or_current_policy (fst s)) # switches ls)"
  using assms
proof (induction rule: orch_run.induct)
  case (run_nil s)
  then show ?case by simp
next
  case (run_more l s s' ls s'')
  note st = orch_step_switch [OF run_more.prems(1) run_more.hyps(1) run_more.prems(2)]
  have "sys_inv clk s'" using run_more by (auto dest: sys_inv_step)
  with run_more st show ?case
    by (cases l) (auto simp: stable_until_def successively_Cons)
qed

subsection \<open>A concrete switch\<close>

text \<open>
  For the witnesses: the server runs \<open>lfu\<close> with miss ratio 1, \<open>lru\<close> was measured with 1/4,
  the last switch is 31 seconds ago and the access log has just turned from hits to misses.
\<close>

definition switch_env :: "(instant \<times> string) env" where
  "switch_env = demo_env
     \<lparr>env_status := (\<lambda>(t, p). (Inr (example_status (if p = ''lru'' then Fin (1 / 4) else Fin 1) p), (t, p)))\<rparr>"

definition switch_orders :: orders where
  "switch_orders = \<lparr>ro_best = rev, ro_metrics = rev, ro_candidates = rev, ro_recent = rev, ro_current = rev\<rparr>"

definition switch_orc :: orchestrator where
  "switch_orc =
     \<lparr>or_metrics = NewMetricsAggregator
        \<lparr>ma_policy_metrics := [example_metrics ''lru'' (Fin (1 / 4))], ma_configured_policies := [''lfu'', ''lru'']\<rparr>,
      or_pattern = example_detector, or_trend = NewTrendAnalyzer, or_cost = NewCostBenefitAnalyzer 8589934592,
      or_config = DefaultOrchestratorConfig, or_current_policy = ''lfu'', or_last_switch_time = 0,
      or_is_running = False, or_stop_closed = False\<rparr>"

definition switch_metrics :: metrics_aggregator where
  "switch_metrics = fst (snd (CollectCurrentMetrics switch_env (or_metrics switch_orc) (31 * second, ''lfu'')))"

definition switch_analysis :: cost_benefit_analysis where
  "switch_analysis = Analyze (NewCostBenefitAnalyzer 8589934592) ''lfu'' ''lru'' (Fin 1) (Fin (1 / 4)) 1048576"

lemma switch_env_clock: "clock_ok switch_env (\<lambda>_ _. False) fst"
  by (auto simp: clock_ok_def switch_env_def demo_env_def)

lemma switch_orders_ok: "orders_ok switch_orders"
  by (simp add: orders_ok_def switch_orders_def)

lemma switch_comps: "comps_inv switch_orc" and switch_comps': "comps_inv (switch_orc\<lparr>or_is_running := r\<rparr>)"
  using example_detector_eq(1) ta_inv_New ca_inv_New
  by (simp_all add: comps_inv_def switch_orc_def ma_inv_def pms_inv_def NewMetricsAggregator_def
      example_metrics_def DefaultOrchestratorConfig_def second_def)

lemma switch_begin:
  "evaluationBegin switch_env (switch_orc\<lparr>or_is_running := r\<rparr>) (31 * second, ''lfu'') =
     (Some (''lfu'', buildAggregatedMetrics switch_metrics),
      switch_orc\<lparr>or_is_running := r, or_metrics := switch_metrics\<rparr>, (31 * second, ''lfu''))"
  by (simp add: evaluationBegin_def switch_env_def demo_env_def switch_orc_def switch_metrics_def
      DefaultOrchestratorConfig_def time_sub_def second_def CollectCurrentMetrics_def storePolicyMetrics_def Let_def
      example_status_def appendSnapshot_def GetLatestSnapshot_def NewMetricsAggregator_def)

lemma switch_metrics_eq:
  "map (\<lambda>(k, m). (k, pm_miss_ratio m)) (ma_policy_metrics switch_metrics) = [(''lru'', Fin (1 / 4)), (''lfu'', Fin 1)]"
  "GetLatestSnapshot switch_metrics = Some (snapshotOf (example_status (Fin 1) ''lfu'') (31 * second))"
  by (simp_all add: switch_metrics_def switch_env_def demo_env_def switch_orc_def CollectCurrentMetrics_def
      storePolicyMetrics_def Let_def example_status_def appendSnapshot_def GetLatestSnapshot_def
      NewMetricsAggregator_def updatePolicyMetrics_def example_metrics_def)

lemma switch_needs: "needsEvaluation ords (switch_orc\<lparr>or_is_running := r, or_metrics := ma\<rparr>) cur"
  by (simp add: needsEvaluation_def switch_orc_def example_detector_shift)

lemma switch_decision:
  "candidateDecision switch_orders (switch_orc\<lparr>or_is_running := r, or_metrics := switch_metrics\<rparr>) ''lfu''
     (buildAggregatedMetrics switch_metrics) = Some switch_analysis"
proof -
  obtain a b where m: "ma_policy_metrics switch_metrics = [(''lru'', a), (''lfu'', b)]"
    "pm_miss_ratio a = Fin (1 / 4)" "pm_miss_ratio b = Fin 1"
    using switch_metrics_eq(1) by (auto simp: map_eq_Cons_conv)
  have "candidateMissRatios rev (buildAggregatedMetrics switch_metrics) = [(''lfu'', Fin 1), (''lru'', Fin (1 / 4))]"
    by (simp add: candidateMissRatios_def buildAggregatedMetrics_def Let_def m)
  then show ?thesis
    using big_gain_switches [of 1048576 8589934592 "''lfu''" "''lru''"]
      default_net_above_sentinel [of 1048576 8589934592 "Fin (1 / 4)" "Fin 1" "''lfu''" "''lru''"]
    by (simp add: candidateDecision_def switch_orders_def switch_metrics_eq(2) switch_orc_def Let_def
        CompareMultipleCandidates_def compareStep_def snapshotOf_def example_status_def switch_analysis_def)
qed

lemma switch_performed:
  "switchPolicy switch_env orc switch_analysis (t, p) =
     (True, orc\<lparr>or_current_policy := ''lru'', or_last_switch_time := t\<rparr>, (t, ''lru''))"
  by (simp add: switchPolicy_def switch_analysis_def Analyze_fields switch_env_def demo_env_def)

lemma switch_run:
  "orch_run switch_env (\<lambda>_ _. False) (switch_orc, Outside, (31 * second, ''lfu''))
     [LStart, LTick, LDetect switch_orders, LSwitch ''lru'' (31 * second), LClear]
     (clearBaseline (switch_orc\<lparr>or_is_running := True, or_metrics := switch_metrics,
        or_current_policy := ''lru'', or_last_switch_time := 31 * second\<rparr>), Waiting, (31 * second, ''lru''))"
proof -
  let ?o = "switch_orc\<lparr>or_is_running := True\<rparr>" and ?w = "(31 * second, ''lfu'')"
  let ?c = "?o\<lparr>or_metrics := switch_metrics\<rparr>"
  let ?s = "?c\<lparr>or_current_policy := ''lru'', or_last_switch_time := 31 * second\<rparr>"
  have 1: "orch_step switch_env (\<lambda>_ _. False) LStart (switch_orc, Outside, ?w) (?o, Waiting, ?w)"
    by (rule orch_step.start) (simp_all add: switch_orc_def DefaultOrchestratorConfig_def second_def)
  have 2: "orch_step switch_env (\<lambda>_ _. False) LTick (?o, Waiting, ?w)
      (?c, Collected ''lfu'' (buildAggregatedMetrics switch_metrics), ?w)"
    using orch_step.tick [OF switch_begin [of True]] by simp
  have 3: "orch_step switch_env (\<lambda>_ _. False) (LDetect switch_orders)
      (?c, Collected ''lfu'' (buildAggregatedMetrics switch_metrics), ?w) (?c, Switching switch_analysis, ?w)"
    using orch_step.detect [OF switch_orders_ok, of switch_env _ ?c "''lfu''" "buildAggregatedMetrics switch_metrics" ?w]
    by (simp add: switch_needs switch_decision)
  have 4: "orch_step switch_env (\<lambda>_ _. False) (LSwitch ''lru'' (31 * second))
      (?c, Switching switch_analysis, ?w) (?s, Clearing, (31 * second, ''lru''))"
    using orch_step.switch [OF switch_performed [of ?c "31 * second" "''lfu''"]] by simp
  show ?thesis
    by (rule run_more [OF 1 run_more [OF 2 run_more [OF 3 run_more [OF 4 run_more [OF orch_step.clear run_nil]]]]])
qed

subsection \<open>Properties of runs\<close>

text \<open>
  Property C1: in every run, whatever other goroutines and the server do meanwhile, any two
  successive switches (the first one counted from the last switch time of the start) are at
  least the stability period apart, and each goes to a policy different from the current one.
\<close>

theorem switches_spaced:
  assumes "clock_ok env rely clk" and "sys_inv clk (orc, pc, w)"
    and "orch_run env rely (orc, pc, w) ls s'"
  shows "successively (\<lambda>(t, p) (u, q). t + oc_stability_period (or_config orc) \<le> u \<and> p \<noteq> q)
    ((or_last_switch_time orc, or_current_policy orc) # switches ls)"
  using switches_spaced_run [OF assms(3,1,2)] by simp

theorem switches_spaced_witness:
  "successively (\<lambda>(t, p) (u, q). t + 30 * second \<le> u \<and> p \<noteq> q) [(0, ''lfu''), (31 * second, ''lru'')]"
proof -
  have "sys_inv fst (switch_orc, Outside, (31 * second, ''lfu''))"
    using switch_comps by (simp add: sys_inv_simps switch_orc_def)
  from switches_spaced [OF switch_env_clock this switch_run] show ?thesis
    by (simp add: switch_orc_def DefaultOrchestratorConfig_def)
qed

text \<open>
  Property C12: from the state after construction and \<open>Initialize\<close> (with any outcome), every
  run keeps the invariants: the metrics table, the access window, the thresholds and the
  weights are well formed, and the running flag is set exactly while the loop is entered.
\<close>

theorem orchestrator_invariant:
  assumes "clock_ok env rely clk" and "\<forall>c. config = Some c \<longrightarrow> 0 \<le> oc_stability_period c"
    and "orch_run env rely (initial_state env config ords w) ls (orc, pc, w')"
  shows "ma_inv (or_metrics orc) \<and> pd_inv (or_pattern orc) \<and> ta_inv (or_trend orc) \<and> ca_inv (or_cost orc) \<and>
    (or_is_running orc \<longleftrightarrow> pc \<noteq> Outside)"
proof -
  have "- (2 ^ 63) < oc_stability_period c" if "config = Some c" for c
    using assms(2) that less_le_trans [of "- (2 ^ 63)" 0 "oc_stability_period c"] by simp
  then have "sys_inv clk (initial_state env config ords w)" by (rule sys_inv_initial)
  from sys_inv_run [OF assms(3,1) this] show ?thesis by (simp add: sys_inv_def comps_inv_def)
qed

theorem orchestrator_invariant_witness:
  "\<exists>orc w'. orch_run demo_env (\<lambda>_ _. False) (initial_state demo_env None switch_orders (0, ''lru''))
     [LAccess ''k'' True, LAccess ''k'' False] (orc, Outside, w') \<and> pd_inv (or_pattern orc) \<and> \<not> or_is_running orc"
proof -
  obtain orc0 pc w0 where s: "initial_state demo_env None switch_orders (0, ''lru'') = (orc0, pc, w0)"
    by (metis prod_cases3)
  then have pc: "pc = Outside" by (auto simp: initial_state_def split: prod.splits)
  obtain orc1 w1 where r1: "orch_RecordAccess demo_env orc0 ''k'' True w0 = (orc1, w1)" by (rule prod.exhaust)
  obtain orc2 w2 where r2: "orch_RecordAccess demo_env orc1 ''k'' False w1 = (orc2, w2)" by (rule prod.exhaust)
  have run: "orch_run demo_env (\<lambda>_ _. False) (initial_state demo_env None switch_orders (0, ''lru''))
      [LAccess ''k'' True, LAccess ''k'' False] (orc2, Outside, w2)"
    unfolding s pc by (rule run_more [OF orch_step.access [OF r1]], rule run_more [OF orch_step.access [OF r2]], rule run_nil)
  moreover have "clock_ok demo_env (\<lambda>_ _. False) fst" by (auto simp: clock_ok_def demo_env_def)
  ultimately show ?thesis using orchestrator_invariant [OF _ _ run] by (intro exI [of _ orc2] exI [of _ w2]) simp
qed

lemma performSwitch_run:
  assumes "performSwitch env orc a w = (orc', w')"
  shows "\<exists>ls. orch_run env rely (orc, Switching a, w) ls (orc', Waiting, w')"
proof -
  obtain ok o2 w2 where s: "switchPolicy env orc a w = (ok, o2, w2)" by (metis prod_cases3)
  show ?thesis
  proof (cases ok)
    case True
    then have "orch_run env rely (orc, Switching a, w)
        [LSwitch (or_current_policy o2) (or_last_switch_time o2), LClear] (clearBaseline o2, Waiting, w2)"
      using s by (auto intro: run_more run_nil orch_step.switch orch_step.clear)
    then show ?thesis using assms s True by (auto simp: performSwitch_def)
  next
    case False
    then have "orch_run env rely (orc, Switching a, w) [LSwitchFailed] (o2, Waiting, w2)"
      using s by (auto intro: run_more run_nil orch_step.switch_failed)
    then show ?thesis using assms s False by (auto simp: performSwitch_def)
  qed
qed

text \<open>The atomic \<open>evaluationLoop\<close> is an uninterrupted run of the phases from waiting to waiting.\<close>

lemma evaluationLoop_run:
  assumes "orders_ok ords" and "evaluationLoop env ords orc w = (orc', w')"
  shows "\<exists>ls. orch_run env rely (orc, Waiting, w) ls (orc', Waiting, w')"
proof -
  obtain r o1 w1 where b: "evaluationBegin env orc w = (r, o1, w1)" by (metis prod_cases3)
  note t = orch_step.tick [OF b, of rely]
  show ?thesis
  proof (cases r)
    case None
    then show ?thesis using t assms(2) b by (auto simp: evaluationLoop_def intro: run_more run_nil)
  next
    case (Some p)
    obtain cur ag where p: "p = (cur, ag)" by (metis prod.collapse)
    define d where "d = (if needsEvaluation ords o1 cur then candidateDecision ords o1 cur ag else None)"
    have t: "orch_step env rely LTick (orc, Waiting, w) (o1, Collected cur ag, w1)" using t Some p by simp
    have det: "orch_step env rely (LDetect ords) (o1, Collected cur ag, w1)
        (o1, case d of None \<Rightarrow> Waiting | Some a \<Rightarrow> Switching a, w1)"
      unfolding d_def using assms(1) by (rule orch_step.detect)
    have ev: "evaluationLoop env ords orc w = (case d of None \<Rightarrow> (o1, w1) | Some a \<Rightarrow> performSwitch env o1 a w1)"
      by (simp add: evaluationLoop_def b Some p d_def evaluateCandidates_def)
    show ?thesis
    proof (cases d)
      case None
      then show ?thesis using t det ev assms(2) by (auto intro!: exI run_more run_nil)
    next
      case (Some a)
      then have "performSwitch env o1 a w1 = (orc', w')" using ev assms(2) by simp
      then obtain ls where "orch_run env rely (o1, Switching a, w1) ls (orc', Waiting, w')"
        using performSwitch_run [of env o1 a w1 orc' w' rely] by blast
      then show ?thesis using t det Some by (auto intro: run_more)
    qed
  qed
qed

subsection \<open>Properties of one cycle\<close>

lemma evaluationBegin_Some:
  assumes "evaluationBegin env orc w = (Some (cur, ag), orc', w')"
  shows "cur = or_current_policy orc \<and> ag_all_policies_metrics ag = ma_policy_metrics (or_metrics orc') \<and>
    oc_stability_period (or_config orc) \<le> time_sub (fst (env_now env w)) (or_last_switch_time orc)"
proof -
  obtain ma w1 where c: "CollectCurrentMetrics env (or_metrics orc) (snd (env_now env w)) = (Inr ag, ma, w1)"
    and r: "orc' = orc\<lparr>or_metrics := ma\<rparr>" "cur = or_current_policy orc"
      "\<not> time_sub (fst (env_now env w)) (or_last_switch_time orc) < oc_stability_period (or_config orc)"
    using assms by (auto simp: evaluationBegin_def Let_def split: prod.splits sum.splits option.splits if_splits)
  have "ag = buildAggregatedMetrics ma"
    using c by (cases rule: CollectCurrentMetrics_cases [of env "snd (env_now env w)" "or_metrics orc"]) auto
  then show ?thesis using r by (auto simp: buildAggregatedMetrics_def Let_def)
qed

text \<open>
  Within the stability period a cycle does nothing: it reads the clock and
  leaves the orchestrator and the server alone.
\<close>

theorem evaluationLoop_in_stability_period:
  assumes "env_now env w = (t, w')" and "time_sub t (or_last_switch_time orc) < oc_stability_period (or_config orc)"
  shows "evaluationLoop env ords orc w = (orc, w')"
  using assms by (simp add: evaluationLoop_def evaluationBegin_def Let_def)

theorem evaluationLoop_in_stability_period_witness:
  "evaluationLoop switch_env switch_orders switch_orc (29 * second, ''lfu'') = (switch_orc, (29 * second, ''lfu''))"
  by (rule evaluationLoop_in_stability_period)
    (simp_all add: switch_env_def demo_env_def switch_orc_def DefaultOrchestratorConfig_def time_sub_def
      second_def, simp add: min_def max_def)

text \<open>What is known of a decision to switch.\<close>

lemma cycle_decision:
  assumes "orders_ok ords" and "comps_inv orc"
    and b: "evaluationBegin env orc w = (Some (cur, ag), orc\<lparr>or_metrics := ma\<rparr>, w1)"
    and dec: "candidateDecision ords (orc\<lparr>or_metrics := ma\<rparr>) cur ag = Some a"
  obtains q pm snap where "GetLatestSnapshot ma = Some snap" "map_of (ma_policy_metrics ma) q = Some pm"
    "q \<noteq> or_current_policy orc" "pm_miss_ratio pm < ms_miss_ratio snap" "cb_should_switch a"
    "a = Analyze (or_cost orc) (or_current_policy orc) q (ms_miss_ratio snap) (pm_miss_ratio pm) (ms_cache_size snap)"
    "oc_stability_period (or_config orc) \<le> time_sub (fst (env_now env w)) (or_last_switch_time orc)"
proof -
  have beg: "cur = or_current_policy orc" "ag_all_policies_metrics ag = ma_policy_metrics ma"
    "oc_stability_period (or_config orc) \<le> time_sub (fst (env_now env w)) (or_last_switch_time orc)"
    using evaluationBegin_Some [OF b] by simp_all
  from candidateDecision_Some [OF assms(1) dec] obtain q pm snap where
    d: "GetLatestSnapshot ma = Some snap" "(q, pm) \<in> set (ma_policy_metrics ma)" "q \<noteq> or_current_policy orc"
    "a = Analyze (or_cost orc) (or_current_policy orc) q (ms_miss_ratio snap) (pm_miss_ratio pm) (ms_cache_size snap)"
    "cb_should_switch a" using beg by auto
  have "ma_inv ma" using evaluationBegin_comps [OF b assms(2)] by (simp add: comps_inv_def)
  then have m: "map_of (ma_policy_metrics ma) q = Some pm" using d(2) by (simp add: ma_inv_def pms_inv_def)
  have "pm_miss_ratio pm < ms_miss_ratio snap"
    using should_switch_better d(4,5) assms(2) by (auto simp: comps_inv_def)
  with d m beg(3) that show thesis by blast
qed

text \<open>
  Property C5: a cycle is all or nothing. Either it leaves the policy, the time of the last
  switch and the access log alone; or the stability period was over and it switched: the
  server accepted the new policy, which differs from the old one, was measured with a miss
  ratio strictly below that of the latest snapshot, and has a net benefit above the
  threshold; the access log is empty and the clock was read for the time of the switch.
\<close>

theorem evaluationLoop_all_or_nothing:
  assumes "orders_ok ords" and "comps_inv orc" and "evaluationLoop env ords orc w = (orc', w')"
  shows "(or_current_policy orc' = or_current_policy orc \<and> or_last_switch_time orc' = or_last_switch_time orc \<and>
      or_pattern orc' = or_pattern orc) \<or>
    (or_current_policy orc' \<noteq> or_current_policy orc \<and>
     oc_stability_period (or_config orc) \<le> time_sub (fst (env_now env w)) (or_last_switch_time orc) \<and>
     pd_access_log (or_pattern orc') = [] \<and>
     (\<exists>w1 w2. env_policy env (or_current_policy orc') w1 = (None, w2) \<and>
        env_now env w2 = (or_last_switch_time orc', w')) \<and>
     (\<exists>m snap. map_of (ma_policy_metrics (or_metrics orc')) (or_current_policy orc') = Some m \<and>
        GetLatestSnapshot (or_metrics orc') = Some snap \<and> pm_miss_ratio m < ms_miss_ratio snap \<and>
        GetThreshold (or_cost orc) < cb_net_benefit (Analyze (or_cost orc) (or_current_policy orc)
          (or_current_policy orc') (ms_miss_ratio snap) (pm_miss_ratio m) (ms_cache_size snap))))"
proof -
  obtain r o1 w1 where b: "evaluationBegin env orc w = (r, o1, w1)" by (metis prod_cases3)
  obtain ma where o1: "o1 = orc\<lparr>or_metrics := ma\<rparr>" using evaluationBegin_unchanged [OF b] by blast
  show ?thesis
  proof (cases "\<exists>cur ag a. r = Some (cur, ag) \<and> needsEvaluation ords o1 cur \<and> candidateDecision ords o1 cur ag = Some a")
    case False
    then have "orc' = o1"
      using assms(3) b
      by (auto simp: evaluationLoop_def evaluateCandidates_def split: option.splits prod.splits if_splits)
    then show ?thesis using o1 by simp
  next
    case True
    then obtain cur ag a where r: "r = Some (cur, ag)" and need: "needsEvaluation ords o1 cur"
      and dec: "candidateDecision ords o1 cur ag = Some a" by blast
    from cycle_decision [OF assms(1,2) b [unfolded r o1] dec [unfolded o1]] obtain q pm snap where
      d: "GetLatestSnapshot ma = Some snap" "map_of (ma_policy_metrics ma) q = Some pm" "q \<noteq> or_current_policy orc"
      "pm_miss_ratio pm < ms_miss_ratio snap" "cb_should_switch a"
      "a = Analyze (or_cost orc) (or_current_policy orc) q (ms_miss_ratio snap) (pm_miss_ratio pm) (ms_cache_size snap)"
      "oc_stability_period (or_config orc) \<le> time_sub (fst (env_now env w)) (or_last_switch_time orc)" .
    have ev: "(orc', w') = performSwitch env o1 a w1"
      using assms(3) need dec by (simp add: evaluationLoop_def b r evaluateCandidates_def)
    show ?thesis
    proof (cases rule: switchPolicy_cases [of env a w1 o1])
      case failed
      then show ?thesis using ev o1 by (simp add: performSwitch_def)
    next
      case (ok w2 t w3)
      then have "orc' = clearBaseline (o1\<lparr>or_current_policy := q, or_last_switch_time := t\<rparr>)" "w' = w3"
        using ev d(6) by (simp_all add: performSwitch_def Analyze_fields)
      then show ?thesis
        using ok(1,2) d o1
        by (auto simp: clearBaseline_def Clear_def GetThreshold_def Analyze_fields)
    qed
  qed
qed

lemma switch_cycle:
  "evaluationLoop switch_env switch_orders switch_orc (31 * second, ''lfu'') =
     (clearBaseline (switch_orc\<lparr>or_metrics := switch_metrics, or_current_policy := ''lru'',
        or_last_switch_time := 31 * second\<rparr>), (31 * second, ''lru''))"
proof -
  have "switch_orc\<lparr>or_is_running := False\<rparr> = switch_orc" by (simp add: switch_orc_def)
  then show ?thesis
    using switch_begin [where r = False] switch_needs [where r = False and ma = switch_metrics]
      switch_decision [where r = False]
    by (simp add: evaluationLoop_def evaluateCandidates_def performSwitch_def switch_performed)
qed

theorem evaluationLoop_all_or_nothing_witness:
  "\<exists>m. map_of (ma_policy_metrics switch_metrics) ''lru'' = Some m \<and> pm_miss_ratio m < Fin 1"
  using evaluationLoop_all_or_nothing [OF switch_orders_ok switch_comps switch_cycle] switch_metrics_eq(2)
  by (auto simp: switch_orc_def clearBaseline_def snapshotOf_def example_status_def)

subsection \<open>Initialisation and shutdown\<close>

text \<open>
  A successful \<open>Initialize\<close> leaves the server and the orchestrator on a measured
  policy with a minimal miss ratio, accepted by the server, with the time read after the
  switch, and sets the configured threshold if it is in [0,1] (otherwise the old one stays);
  a failed one changes at most the metrics.
\<close>

theorem orch_Initialize_outcome:
  assumes "is_range_order (ro_best ords)" and "ma_inv (or_metrics orc)"
    and "orch_Initialize env ords orc w = (e, orc', w')"
  shows "case e of
      None \<Rightarrow>
        (\<exists>b. map_of (ma_policy_metrics (or_metrics orc')) (or_current_policy orc') = Some b \<and> pm_miss_ratio b \<le> 1 \<and>
           (\<forall>x \<in> set (ma_policy_metrics (or_metrics orc')). pm_miss_ratio (snd x) \<noteq> NaN \<longrightarrow>
              pm_miss_ratio b \<le> pm_miss_ratio (snd x))) \<and>
        (\<exists>w1 w2. env_policy env (or_current_policy orc') w1 = (None, w2) \<and>
           env_now env w2 = (or_last_switch_time orc', w')) \<and>
        GetThreshold (or_cost orc') =
          (if 0 \<le> oc_switch_threshold (or_config orc) \<and> oc_switch_threshold (or_config orc) \<le> 1
           then oc_switch_threshold (or_config orc) else GetThreshold (or_cost orc))
    | Some err \<Rightarrow> or_current_policy orc' = or_current_policy orc \<and>
        or_last_switch_time orc' = or_last_switch_time orc \<and> or_cost orc' = or_cost orc"
  using assms(3)
proof (cases rule: orch_Initialize_cases)
  case (failed err ma)
  then show ?thesis by simp
next
  case (ok ma t w1 w2)
  have "map_ok (ma_policy_metrics ma)" using ok(2) assms(2) by (simp add: ma_inv_def pms_inv_def)
  then show ?thesis
  proof (cases rule: SelectBestPolicy_cases [OF assms(1) \<open>map_ok (ma_policy_metrics ma)\<close>, case_names none some])
    case none
    with ok(3) show ?thesis by simp
  next
    case (some b)
    then show ?thesis using ok by (auto simp: SetThreshold_def GetThreshold_def)
  qed
qed

definition demo_orc :: orchestrator where
  "demo_orc = fst (NewIntelligentOrchestrator demo_env None (0, ''lfu''))"

theorem orch_Initialize_outcome_witness:
  "\<exists>e orc' w'. orch_Initialize demo_env switch_orders demo_orc (0, ''lfu'') = (e, orc', w') \<and> e = None \<and>
     or_current_policy orc' = ''lru'' \<and> GetThreshold (or_cost orc') = f64 (5 / 100)"
proof -
  obtain e orc' w' where i: "orch_Initialize demo_env switch_orders demo_orc (0, ''lfu'') = (e, orc', w')"
    by (metis prod_cases3)
  have o: "is_range_order (ro_best switch_orders)" by (simp add: switch_orders_def)
  have inv: "ma_inv (or_metrics demo_orc)"
    by (simp add: demo_orc_def NewIntelligentOrchestrator_def Let_def ma_inv_New split_def)
  have thr: "0 \<le> f64 (5 / 100)" "f64 (5 / 100) \<le> 1" by code_simp+
  have "e = None \<and> or_current_policy orc' = ''lru''"
    using i by (auto simp: orch_Initialize_def demo_orc_def NewIntelligentOrchestrator_def demo_env_def Let_def
        ma_Initialize_def FastProfile_def NewMetricsAggregator_def example_status_def storePolicyMetrics_def
        updatePolicyMetrics_def SelectBestPolicy_def selectBestStep_def switch_orders_def)
  moreover have "oc_switch_threshold (or_config demo_orc) = f64 (5 / 100)"
    by (simp add: demo_orc_def NewIntelligentOrchestrator_def DefaultOrchestratorConfig_def Let_def split_def)
  ultimately show ?thesis using orch_Initialize_outcome [OF o inv i] i thr by simp
qed

lemma stop_closed_step:
  assumes "orch_step env rely l s s'"
  shows "(or_stop_closed (fst s) \<longrightarrow> or_stop_closed (fst s') \<and> l \<noteq> LStop) \<and> (l = LStop \<longrightarrow> or_stop_closed (fst s'))"
  using assms
proof cases
  case (tick orc w r orc' w')
  from evaluationBegin_unchanged [OF tick(4)] tick show ?thesis by auto
next
  case (switch orc a w orc' w')
  then show ?thesis by (cases rule: switchPolicy_cases [of env a w orc]) auto
next
  case (switch_failed orc a w orc' w')
  then show ?thesis by (cases rule: switchPolicy_cases [of env a w orc]) auto
next
  case (access orc k h w orc' w' pc)
  then show ?thesis by (auto simp: orch_RecordAccess_def Let_def split: prod.splits)
qed (auto simp: clearBaseline_def Stop_def split: if_splits)

lemma stops_run:
  "orch_run env rely s ls s' \<Longrightarrow>
   count_list ls LStop \<le> (if or_stop_closed (fst s) then 0 else 1)"
proof (induction rule: orch_run.induct)
  case (run_more l s s' ls s'')
  then show ?case using stop_closed_step [OF run_more.hyps(1)] by (auto split: if_splits)
qed simp

text \<open>
  Property C40: the stop channel is closed at most once in the life of an orchestrator: a run
  of any length, restarts included, contains at most one \<open>Stop\<close> that does not panic, and
  closing it again panics.
\<close>

theorem Stop_at_most_once:
  assumes "orch_run env rely s ls s'"
  shows "count_list ls LStop \<le> 1 \<and> (LStop \<in> set ls \<longrightarrow> Stop (fst s') = None)"
proof -
  have "or_stop_closed (fst s) \<or> LStop \<in> set ls \<Longrightarrow> or_stop_closed (fst s')"
    using assms
  proof (induction rule: orch_run.induct)
    case (run_more l s s' ls s'')
    then show ?case using stop_closed_step [OF run_more.hyps(1)] by auto
  qed simp
  then show ?thesis using stops_run [OF assms] by (auto simp: Stop_def split: if_splits)
qed

theorem Stop_at_most_once_witness:
  "Stop (switch_orc\<lparr>or_stop_closed := True\<rparr>) = None"
proof -
  have "orch_run switch_env (\<lambda>_ _. False) (switch_orc, Outside, (0, ''lfu'')) [LStop]
      (switch_orc\<lparr>or_stop_closed := True\<rparr>, Outside, (0, ''lfu''))"
    by (rule run_more [OF orch_step.stop run_nil]) (simp add: Stop_def switch_orc_def)
  from Stop_at_most_once [OF this] show ?thesis by simp
qed

subsection \<open>Stopping\<close>

text \<open>
  Infinite runs, and what a scheduler owes them: a process that can always take a step takes one
  again (weak fairness), and a choice that is open again and again is taken again (strong
  fairness).
\<close>

definition enabled ::
    "'w env \<Rightarrow> ('w \<Rightarrow> 'w \<Rightarrow> bool) \<Rightarrow> orch_label \<Rightarrow> orchestrator \<times> loop_pc \<times> 'w \<Rightarrow> bool" where
  "enabled env rely l s \<longleftrightarrow> (\<exists>s'. orch_step env rely l s s')"

definition infinite_run ::
    "'w env \<Rightarrow> ('w \<Rightarrow> 'w \<Rightarrow> bool) \<Rightarrow> (nat \<Rightarrow> orchestrator \<times> loop_pc \<times> 'w) \<Rightarrow> (nat \<Rightarrow> orch_label) \<Rightarrow> bool" where
  "infinite_run env rely st lab \<longleftrightarrow> (\<forall>n. orch_step env rely (lab n) (st n) (st (Suc n)))"

definition weakly_fair ::
    "'w env \<Rightarrow> ('w \<Rightarrow> 'w \<Rightarrow> bool) \<Rightarrow> orch_label set \<Rightarrow> (nat \<Rightarrow> orchestrator \<times> loop_pc \<times> 'w) \<Rightarrow> (nat \<Rightarrow> orch_label) \<Rightarrow> bool" where
  "weakly_fair env rely A st lab \<longleftrightarrow>
     (\<forall>n. (\<forall>m \<ge> n. \<exists>l \<in> A. enabled env rely l (st m)) \<longrightarrow> (\<exists>m \<ge> n. lab m \<in> A))"

definition strongly_fair ::
    "'w env \<Rightarrow> ('w \<Rightarrow> 'w \<Rightarrow> bool) \<Rightarrow> orch_label \<Rightarrow> (nat \<Rightarrow> orchestrator \<times> loop_pc \<times> 'w) \<Rightarrow> (nat \<Rightarrow> orch_label) \<Rightarrow> bool" where
  "strongly_fair env rely l st lab \<longleftrightarrow>
     (\<forall>n. \<exists>m \<ge> n. enabled env rely l (st m)) \<longrightarrow> (\<forall>n. \<exists>m \<ge> n. lab m = l)"

text \<open>The steps of the loop's own goroutine, and how far it is from its \<open>select\<close>.\<close>

definition loop_labels :: "orch_label set" where
  "loop_labels = {LTick, LSwitchFailed, LClear, LExit} \<union> range LDetect \<union> {LSwitch p t | p t. True}"

fun loop_rank :: "loop_pc \<Rightarrow> nat" where
  "loop_rank Outside = 0"
| "loop_rank Waiting = 0"
| "loop_rank Clearing = 1"
| "loop_rank (Switching a) = 2"
| "loop_rank (Collected cur ag) = 3"

abbreviation pc_of :: "orchestrator \<times> loop_pc \<times> 'w \<Rightarrow> loop_pc" where "pc_of s \<equiv> fst (snd s)"

lemma enabledI: "orch_step env rely l s s' \<Longrightarrow> l \<in> A \<Longrightarrow> \<exists>l \<in> A. enabled env rely l s"
  unfolding enabled_def by blast

lemma loop_labels_simps [simp]:
  "LTick \<in> loop_labels" "LDetect ords \<in> loop_labels" "LSwitch p t \<in> loop_labels" "LSwitchFailed \<in> loop_labels"
  "LClear \<in> loop_labels" "LExit \<in> loop_labels"
  by (auto simp: loop_labels_def)

lemma loop_enabled:
  assumes "pc_of s \<noteq> Outside"
  shows "\<exists>l \<in> loop_labels. enabled env rely l s"
proof -
  obtain orc pc w where s: "s = (orc, pc, w)" by (cases s)
  show ?thesis
  proof (cases pc)
    case Outside
    with assms s show ?thesis by simp
  next
    case Waiting
    obtain r o1 w1 where "evaluationBegin env orc w = (r, o1, w1)" by (metis prod_cases3)
    from orch_step.tick [OF this] show ?thesis unfolding s Waiting by (rule enabledI) simp
  next
    case (Collected cur ag)
    from orch_step.detect [OF switch_orders_ok] show ?thesis unfolding s Collected by (rule enabledI) simp
  next
    case (Switching a)
    obtain ok o1 w1 where sw: "switchPolicy env orc a w = (ok, o1, w1)" by (metis prod_cases3)
    show ?thesis
    proof (cases ok)
      case True
      from orch_step.switch [OF sw [simplified True simp_thms]] show ?thesis unfolding s Switching by (rule enabledI) simp
    next
      case False
      from orch_step.switch_failed [OF sw [simplified False simp_thms]] show ?thesis unfolding s Switching by (rule enabledI) simp
    qed
  next
    case Clearing
    from orch_step.clear show ?thesis unfolding s Clearing by (rule enabledI) simp
  qed
qed

lemma loop_step_rank:
  assumes "orch_step env rely l s s'" and "pc_of s \<noteq> Outside" and "l \<noteq> LExit"
  shows "pc_of s' \<noteq> Outside \<and> (if l \<in> loop_labels then pc_of s = Waiting \<or> loop_rank (pc_of s') < loop_rank (pc_of s)
    else pc_of s' = pc_of s)"
  using assms by (cases rule: orch_step.cases) (auto simp: loop_labels_def split: option.split prod.split)

lemma loop_exit:
  assumes "orch_step env rely LExit s s'"
  shows "pc_of s' = Outside \<and> \<not> or_is_running (fst s')"
  using assms by cases auto

text \<open>Without an exit, a loop that is scheduled comes back to its \<open>select\<close>.\<close>

lemma loop_waits:
  assumes "infinite_run env rely st lab" and "weakly_fair env rely loop_labels st lab"
    and "\<forall>n. pc_of (st n) \<noteq> Outside" and "\<forall>n. lab n \<noteq> LExit"
  shows "\<exists>m \<ge> n. pc_of (st m) = Waiting"
proof (induction "loop_rank (pc_of (st n))" arbitrary: n rule: less_induct)
  case less
  note step = assms(1) [unfolded infinite_run_def, rule_format]
  note rank = loop_step_rank [OF step assms(3) [rule_format] assms(4) [rule_format]]
  have "\<exists>m \<ge> n. lab m \<in> loop_labels"
    using assms(2) loop_enabled [OF assms(3) [rule_format]] unfolding weakly_fair_def by blast
  then have ex: "\<exists>k. lab (n + k) \<in> loop_labels" by (metis le_iff_add)
  define k where "k = (LEAST k. lab (n + k) \<in> loop_labels)"
  have k: "lab (n + k) \<in> loop_labels" unfolding k_def by (rule LeastI_ex [OF ex])
  have "pc_of (st (n + j)) = pc_of (st n)" if "j \<le> k" for j
    using that
  proof (induction j)
    case (Suc j)
    then have "lab (n + j) \<notin> loop_labels" using not_less_Least [of j "\<lambda>k. lab (n + k) \<in> loop_labels"] by (simp add: k_def)
    then show ?case using rank [of "n + j"] Suc by simp
  qed simp
  then have pc: "pc_of (st (n + k)) = pc_of (st n)" by simp
  show ?case
  proof (cases "pc_of (st n) = Waiting")
    case False
    then have "loop_rank (pc_of (st (Suc (n + k)))) < loop_rank (pc_of (st n))" using rank [of "n + k"] k pc by simp
    from less [OF this] obtain m where "m \<ge> Suc (n + k)" "pc_of (st m) = Waiting" by blast
    then show ?thesis by (intro exI [of _ m]) simp
  qed auto
qed

lemma stop_closed_forever:
  assumes "infinite_run env rely st lab" and "or_stop_closed (fst (st 0))"
  shows "or_stop_closed (fst (st n))"
proof (induction n)
  case (Suc n)
  then show ?case using stop_closed_step assms(1) by (fastforce simp: infinite_run_def)
qed (use assms(2) in simp)

text \<open>
  Property C13: after \<open>Stop\<close> the loop ends, in every infinite run, whatever other goroutines do,
  whatever the cache server answers and wherever in a cycle the loop is: if its goroutine is not
  starved, and its \<open>select\<close>, which draws among the ready channels, does not prefer the ticker for
  ever, then the loop is left with the running flag cleared.
\<close>

theorem Stop_ends_the_loop:
  assumes "infinite_run env rely st lab" and "or_stop_closed (fst (st 0))" and "pc_of (st 0) \<noteq> Outside"
    and "weakly_fair env rely loop_labels st lab" and "strongly_fair env rely LExit st lab"
  shows "\<exists>n. lab n = LExit \<and> pc_of (st (Suc n)) = Outside \<and> \<not> or_is_running (fst (st (Suc n)))"
proof -
  note step = assms(1) [unfolded infinite_run_def, rule_format]
  have "\<exists>n. lab n = LExit"
  proof (rule ccontr)
    assume no: "\<not> (\<exists>n. lab n = LExit)"
    have inside: "pc_of (st n) \<noteq> Outside" for n
      by (induction n) (use assms(3) loop_step_rank [OF step] no in auto)
    have "\<exists>m \<ge> n. enabled env rely LExit (st m)" for n
    proof -
      obtain m where m: "m \<ge> n" "pc_of (st m) = Waiting" using loop_waits [OF assms(1,4)] inside no by metis
      then have "orch_step env rely LExit (fst (st m), Waiting, snd (snd (st m)))
          ((fst (st m))\<lparr>or_is_running := False\<rparr>, Outside, snd (snd (st m)))"
        using stop_closed_forever [OF assms(1,2)] by (intro orch_step.exit)
      with m show ?thesis by (metis enabled_def prod.collapse)
    qed
    with assms(5) no show False unfolding strongly_fair_def by blast
  qed
  then show ?thesis using loop_exit step by metis
qed

lemma outside_disabled: "l \<in> loop_labels \<Longrightarrow> \<not> enabled env rely l (orc, Outside, w)"
  by (auto simp: enabled_def loop_labels_def elim: orch_step.cases)

theorem Stop_ends_the_loop_witness:
  "\<exists>st lab n. infinite_run switch_env (=) st lab \<and> pc_of (st 0) = Clearing \<and> lab n = LExit \<and>
     \<not> or_is_running (fst (st (Suc n)))"
proof -
  let ?orc = "switch_orc\<lparr>or_is_running := True, or_stop_closed := True\<rparr>" and ?w = "(0 :: int, ''lfu'')"
  define st where "st n = (if n = 0 then (?orc, Clearing, ?w) else if n = 1 then (clearBaseline ?orc, Waiting, ?w)
    else ((clearBaseline ?orc)\<lparr>or_is_running := False\<rparr>, Outside, ?w))" for n :: nat
  define lab where "lab n = (if n = 0 then LClear else if n = 1 then LExit else LWorld)" for n :: nat
  have steps: "orch_step switch_env (=) LClear (?orc, Clearing, ?w) (clearBaseline ?orc, Waiting, ?w)"
    "orch_step switch_env (=) LExit (clearBaseline ?orc, Waiting, ?w) ((clearBaseline ?orc)\<lparr>or_is_running := False\<rparr>, Outside, ?w)"
    "\<And>orc. orch_step switch_env (=) LWorld (orc, Outside, ?w) (orc, Outside, ?w)"
    by (rule orch_step.clear, rule orch_step.exit, simp add: clearBaseline_def, rule orch_step.world, rule refl)
  have "orch_step switch_env (=) (lab n) (st n) (st (Suc n))" for n
  proof -
    consider "n = 0" | "n = 1" | "2 \<le> n" by linarith
    then show ?thesis by cases (use steps in \<open>simp_all add: st_def lab_def\<close>)
  qed
  then have run: "infinite_run switch_env (=) st lab" by (simp add: infinite_run_def)
  have out: "\<not> enabled switch_env (=) l (st m)" if "l \<in> loop_labels" "2 \<le> m" for l m
    using that outside_disabled by (simp add: st_def)
  have weak: "weakly_fair switch_env (=) loop_labels st lab"
    unfolding weakly_fair_def using out by (meson max.cobounded1 max.cobounded2)
  have "LExit \<in> loop_labels" by (simp add: loop_labels_def)
  then have strong: "strongly_fair switch_env (=) LExit st lab"
    unfolding strongly_fair_def using out by blast
  have "pc_of (st 0) = Clearing" "or_stop_closed (fst (st 0))" by (simp_all add: st_def)
  with Stop_ends_the_loop [OF run _ _ weak strong] run show ?thesis by (metis loop_pc.distinct)
qed

end
