(* ===== verification/FaasConfig.thy ===== *)
theory FaasConfig
  imports Strconv Orchestrator
begin

text \<open>
  src/types/config.go and src/types/read_config.go: the provider's configuration, its
  getters with their defaults, and its construction from the environment; and
  \<open>buildOrchestratorConfig\<close> of src/proxy/proxy.go, which derives the orchestrator's settings.

  An implementation of the interface \<open>HasEnv\<close> is the argument \<open>getenv\<close>. A \<open>*int\<close> is an option.
\<close>

subsection \<open>Configuration\<close>

record faas_config =
  fc_tcp_port :: "goint option"
  fc_read_timeout :: duration
  fc_write_timeout :: duration
  fc_enable_health :: bool
  fc_enable_basic_auth :: bool
  fc_secret_mount_path :: string
  fc_max_idle_conns :: goint
  fc_max_idle_conns_per_host :: goint
  fc_enable_caching :: bool
  fc_enable_orchestrator :: bool
  fc_orchestrator_eval_interval :: "64 word"
  fc_orchestrator_stability_period :: "64 word"
  fc_orchestrator_switch_threshold :: float64
  fc_orchestrator_max_memory :: "64 word"

definition defaultReadTimeout :: duration where "defaultReadTimeout = 10 * second"

definition defaultMaxIdleConns :: goint where "defaultMaxIdleConns = 1024"

definition GetReadTimeout :: "faas_config \<Rightarrow> duration" where
  "GetReadTimeout c = (if fc_read_timeout c \<le> 0 * second then defaultReadTimeout else fc_read_timeout c)"

definition GetMaxIdleConns :: "faas_config \<Rightarrow> goint" where
  "GetMaxIdleConns c = (if fc_max_idle_conns c < 1 then defaultMaxIdleConns else fc_max_idle_conns c)"

definition GetMaxIdleConnsPerHost :: "faas_config \<Rightarrow> goint" where
  "GetMaxIdleConnsPerHost c =
     (if fc_max_idle_conns_per_host c < 1 then GetMaxIdleConns c else fc_max_idle_conns_per_host c)"

subsection \<open>Parsing the environment\<close>

definition ParseIntValue :: "string \<Rightarrow> goint \<Rightarrow> goint" where
  "ParseIntValue val fallback =
     (if 0 < length val
      then let (parsedVal, parseErr) = Atoi val
           in if parseErr = None \<and> 0 \<le> parsedVal then parsedVal else fallback
      else fallback)"

definition durationOrFallback :: "string \<Rightarrow> duration \<Rightarrow> duration" where
  "durationOrFallback val fallback = (case ParseDuration val of Inl e \<Rightarrow> fallback | Inr d \<Rightarrow> d)"

definition ParseIntOrDurationValue :: "string \<Rightarrow> duration \<Rightarrow> duration" where
  "ParseIntOrDurationValue val fallback =
     (if 0 < length val
      then let (parsedVal, parseErr) = Atoi val
           in if parseErr = None \<and> 0 \<le> parsedVal then wrap64 (parsedVal * second)
              else durationOrFallback val fallback
      else durationOrFallback val fallback)"

text \<open>\<open>d.Seconds()\<close> divides with truncation and adds the fraction in floating point.\<close>

definition trunc_div :: "int \<Rightarrow> int \<Rightarrow> int" where
  "trunc_div a b = (if a < 0 then - (- a div b) else a div b)"

definition duration_seconds :: "duration \<Rightarrow> float64" where
  "duration_seconds d =
     (let sec = trunc_div d second; nsec = d - sec * second
      in f64_of_int sec + f64_of_int nsec / Fin 1000000000)"

fun f64_trunc :: "float64 \<Rightarrow> int option" where
  "f64_trunc (Fin q) =
     (let n = (if q < 0 then - \<lfloor>- q\<rfloor> else \<lfloor>q\<rfloor>) in if in_int64 n then Some n else None)"
| "f64_trunc _ = None"

datatype int_or_duration_error = NumError num_error | DurationError duration_error

text \<open>The value is returned with the error; a conversion out of range would be \<open>None\<close>.\<close>

definition ParseIntOrDuration :: "string \<Rightarrow> goint option \<times> int_or_duration_error option" where
  "ParseIntOrDuration val =
     (let (i, err) = ParseInt val
      in if err = None then (Some i, None)
         else if err = Some ErrRange then (Some i, Some (NumError ErrRange))
         else case ParseDuration val of
                Inl e \<Rightarrow> (Some 0, Some (DurationError e))
              | Inr d \<Rightarrow> (f64_trunc (duration_seconds d), None))"

definition ParseBoolValue :: "string \<Rightarrow> bool \<Rightarrow> bool" where
  "ParseBoolValue val fallback = (if 0 < length val then val = ''true'' else fallback)"

definition ParseString :: "string \<Rightarrow> string \<Rightarrow> string" where
  "ParseString val fallback = (if 0 < length val then val else fallback)"

datatype read_error = InvalidMaxIdleConns string | InvalidMaxIdleConnsPerHost string

definition readConns :: "string \<Rightarrow> goint option" where
  "readConns v =
     (if 0 < length v then (let (n, err) = Atoi v in if err = None then Some n else None) else Some 1024)"

definition Read :: "(string \<Rightarrow> string) \<Rightarrow> read_error + faas_config" where
  "Read getenv =
     (let cfg =
        \<lparr>fc_tcp_port = None,
         fc_read_timeout = ParseIntOrDurationValue (getenv ''read_timeout'') (second * 10),
         fc_write_timeout = ParseIntOrDurationValue (getenv ''write_timeout'') (second * 10),
         fc_enable_health = False,
         fc_enable_basic_auth = ParseBoolValue (getenv ''basic_auth'') False,
         fc_secret_mount_path = ParseString (getenv ''secret_mount_path'') ''/run/secrets/'',
         fc_max_idle_conns = 0, fc_max_idle_conns_per_host = 0,
         fc_enable_caching = False, fc_enable_orchestrator = False,
         fc_orchestrator_eval_interval = 0, fc_orchestrator_stability_period = 0,
         fc_orchestrator_switch_threshold = 0, fc_orchestrator_max_memory = 0\<rparr>;
          cfg = cfg\<lparr>fc_tcp_port := Some (ParseIntValue (getenv ''port'') 8080)\<rparr>
      in case readConns (getenv ''max_idle_conns'') of
           None \<Rightarrow> Inl (InvalidMaxIdleConns (getenv ''max_idle_conns''))
         | Some n \<Rightarrow>
             (let cfg = cfg\<lparr>fc_max_idle_conns := n\<rparr>
              in case readConns (getenv ''max_idle_conns_per_host'') of
                   None \<Rightarrow> Inl (InvalidMaxIdleConnsPerHost (getenv ''max_idle_conns_per_host''))
                 | Some m \<Rightarrow> Inr (cfg\<lparr>fc_max_idle_conns_per_host := m\<rparr>)))"

subsection \<open>The orchestrator's settings\<close>

definition seconds_u64 :: "64 word \<Rightarrow> duration" where
  "seconds_u64 w = wrap64 (sint w * second)"

definition buildOrchestratorConfig :: "faas_config \<Rightarrow> orchestrator_config" where
  "buildOrchestratorConfig fc =
     \<lparr>oc_evaluation_interval =
        (if 0 < fc_orchestrator_eval_interval fc then seconds_u64 (fc_orchestrator_eval_interval fc)
         else 10 * second),
      oc_stability_period =
        (if 0 < fc_orchestrator_stability_period fc then seconds_u64 (fc_orchestrator_stability_period fc)
         else 30 * second),
      oc_switch_threshold =
        (if 0 < fc_orchestrator_switch_threshold fc \<and> fc_orchestrator_switch_threshold fc \<le> 1
         then fc_orchestrator_switch_threshold fc else f64 (5 / 100)),
      oc_max_memory =
        (if 0 < fc_orchestrator_max_memory fc then fc_orchestrator_max_memory fc * 1024 * 1024 * 1024
         else 8 * 1024 * 1024 * 1024)\<rparr>"

subsection \<open>Properties of the parsers\<close>

lemma Atoi_dec: "int n < 2 ^ 63 \<Longrightarrow> Atoi (dec n) = (int n, None)"
  by (simp only: Atoi_ParseInt ParseInt_dec)

lemma Atoi_parts:
  "parts_ok ps \<Longrightarrow> ps \<noteq> [] \<Longrightarrow> parts_value ps < two63 \<Longrightarrow> Atoi (show_parts ps) = (0, Some ErrSyntax)"
  by (simp add: Atoi_ParseInt ParseInt_parts)

lemma dec_nonempty [simp]: "dec n \<noteq> []"
  using dec_digits [of n] by simp

lemma ParseIntOrDurationValue_dec:
  "int n < 2 ^ 63 \<Longrightarrow> ParseIntOrDurationValue (dec n) fb = wrap64 (int n * second)"
  by (simp add: ParseIntOrDurationValue_def Atoi_dec)

text \<open>
  Property C27: what is written in decimal is read back: a non-negative integer by
  \<open>ParseIntValue\<close>, a number of seconds up to 9223372036 by \<open>ParseIntOrDurationValue\<close>, and
  any sequence of numbers with units (as in \<open>1h30m10s\<close>) whose sum fits in a duration.
\<close>

theorem parse_roundtrip:
  assumes "parts_ok ps" and "ps \<noteq> []" and "parts_value ps < two63"
  shows "(n < 2 ^ 63 \<longrightarrow> ParseIntValue (dec n) fb = int n) \<and>
    (n \<le> 9223372036 \<longrightarrow> ParseIntOrDurationValue (dec n) fb = int n * second) \<and>
    ParseIntOrDurationValue (show_parts ps) fb = parts_value ps"
proof (intro conjI impI)
  show "ParseIntValue (dec n) fb = int n" if "n < 2 ^ 63"
  proof -
    have "int n < int (2 ^ 63)" using that by (simp only: of_nat_less_iff)
    then show ?thesis by (simp add: ParseIntValue_def Atoi_dec)
  qed
  show "ParseIntOrDurationValue (dec n) fb = int n * second" if "n \<le> 9223372036"
  proof -
    have "int n \<le> 9223372036" using that by simp
    then show ?thesis by (simp add: ParseIntOrDurationValue_dec wrap64_id in_int64_def second_def)
  qed
  show "ParseIntOrDurationValue (show_parts ps) fb = parts_value ps"
    using ParseDuration_parts [OF assms] Atoi_parts [OF assms]
    by (auto simp: ParseIntOrDurationValue_def durationOrFallback_def)
qed

theorem parse_roundtrip_witness:
  "ParseIntOrDurationValue (show_parts [(1, ''h'', 3600000000000), (30, ''m'', 60000000000)]) 0 = 5400 * second"
proof -
  have "parts_ok [(1, ''h'', 3600000000000), (30, ''m'', 60000000000)]"
    by (simp add: parts_ok_def unitMap_def)
  from parse_roundtrip [OF this, of 0 0] show ?thesis by (simp add: parts_value_def two63_def second_def)
qed

text \<open>
  A number of seconds above 9223372036 is not rejected: the product with the
  length of a second wraps around. For 9223372037 it is negative, and the getter then falls
  back to the default of ten seconds.
\<close>

theorem ParseIntOrDurationValue_overflow:
  "ParseIntOrDurationValue ''9223372037'' fb = - 9223372036709551616 \<and>
   GetReadTimeout (c\<lparr>fc_read_timeout := ParseIntOrDurationValue ''9223372037'' fb\<rparr>) = 10 * second"
proof -
  have "Atoi ''9223372037'' = (9223372037, None)" by code_simp
  moreover have "wrap64 (9223372037 * second) = - 9223372036709551616" by code_simp
  ultimately have "ParseIntOrDurationValue ''9223372037'' fb = - 9223372036709551616"
    by (simp add: ParseIntOrDurationValue_def)
  then show ?thesis by (simp add: GetReadTimeout_def second_def defaultReadTimeout_def)
qed


lemma trunc_seconds:
  assumes "0 \<le> s" and "s < 2 ^ 53"
  shows "f64_trunc (duration_seconds (s * second)) = Some s"
proof -
  have "trunc_div (s * second) second = s"
    using assms(1) by (simp add: trunc_div_def second_def)
  then have "duration_seconds (s * second) = f64_of_int s + f64_of_int 0 / Fin 1000000000"
    by (simp add: duration_seconds_def Let_def)
  also have "\<dots> = Fin (of_int s)"
    using assms by (simp add: f64_of_int_exact f64_Fin_simps zero_float64_def f64_exact exact64_int)
  finally show ?thesis using assms by (simp add: in_int64_def)
qed

lemma ParseInt_too_large:
  assumes "2 ^ 63 \<le> int n" and "int n \<le> max_uint64"
  shows "ParseInt (dec n) = (2 ^ 63 - 1, Some ErrRange)"
proof -
  have "parseUintLoop (dec n) 0 = Inr (int n)"
    using parseUintLoop_value [of "dec n" 0] dec_digits [of n] assms by (simp add: decimal_value_dec)
  then show ?thesis
    using dec_digits [of n] splitSign_digits [of "dec n"] assms(1) by (simp add: ParseInt_def ParseUint_def)
qed

text \<open>
  \<open>ParseIntOrDuration\<close> reads back integers and whole numbers of seconds written
  with units, and reports a range error, with the end of the range, for a larger integer.
\<close>

theorem ParseIntOrDuration_roundtrip:
  assumes "parts_ok ps" and "ps \<noteq> []" and "parts_value ps = int s * second" and "int s * second < two63"
  shows "ParseIntOrDuration (show_parts ps) = (Some (int s), None) \<and>
    (int n < 2 ^ 63 \<longrightarrow> ParseIntOrDuration (dec n) = (Some (int n), None)) \<and>
    (2 ^ 63 \<le> int n \<and> int n \<le> max_uint64 \<longrightarrow>
       ParseIntOrDuration (dec n) = (Some (2 ^ 63 - 1), Some (NumError ErrRange)))"
proof -
  have v: "parts_value ps < two63" using assms(3,4) by simp
  have "int s * 1 \<le> int s * second" by (intro mult_left_mono) (simp_all add: second_def)
  then have "f64_trunc (duration_seconds (parts_value ps)) = Some (int s)"
    using assms(3,4) by (intro trans [OF _ trunc_seconds]) (simp_all add: two63_def second_def)
  then show ?thesis
    using ParseInt_parts [OF assms(1,2) v] ParseDuration_parts [OF assms(1,2) v] ParseInt_dec [of n]
      ParseInt_too_large [of n]
    by (auto simp: ParseIntOrDuration_def)
qed

theorem ParseIntOrDuration_roundtrip_witness:
  "ParseIntOrDuration (show_parts [(2, ''m'', 60000000000)]) = (Some 120, None)"
proof -
  have "parts_ok [(2, ''m'', 60000000000)]" by (simp add: parts_ok_def unitMap_def)
  from ParseIntOrDuration_roundtrip [OF this, of 120 0] show ?thesis
    by (simp add: parts_value_def two63_def second_def)
qed

definition integerOrUnset :: "string \<Rightarrow> bool" where
  "integerOrUnset v \<longleftrightarrow> v = [] \<or> snd (Atoi v) = None"

text \<open>
  \<open>Read\<close> fails exactly when one of the two connection limits is set and not an
  integer, naming the first such variable; otherwise the effective settings are usable
  whatever the environment holds: a positive read timeout, positive connection limits and a
  non-negative port.
\<close>

theorem Read_outcome:
  "case Read getenv of
     Inl (InvalidMaxIdleConns v) \<Rightarrow> v = getenv ''max_idle_conns'' \<and> v \<noteq> [] \<and> snd (Atoi v) \<noteq> None
   | Inl (InvalidMaxIdleConnsPerHost v) \<Rightarrow> v = getenv ''max_idle_conns_per_host'' \<and> v \<noteq> [] \<and> snd (Atoi v) \<noteq> None
   | Inr c \<Rightarrow> 0 < GetReadTimeout c \<and> 1 \<le> GetMaxIdleConns c \<and> 1 \<le> GetMaxIdleConnsPerHost c \<and>
       (\<exists>p. fc_tcp_port c = Some p \<and> 0 \<le> p) \<and>
       integerOrUnset (getenv ''max_idle_conns'') \<and> integerOrUnset (getenv ''max_idle_conns_per_host'')"
proof -
  have conns: "readConns v = None \<longleftrightarrow> v \<noteq> [] \<and> snd (Atoi v) \<noteq> None" for v
    by (auto simp: readConns_def split: prod.split)
  note integerOrUnset_def [simp]
  have port: "0 \<le> ParseIntValue v 8080" for v by (simp add: ParseIntValue_def split: prod.split)
  have getters: "0 < GetReadTimeout c" "1 \<le> GetMaxIdleConns c" "1 \<le> GetMaxIdleConnsPerHost c" for c
    by (simp_all add: GetReadTimeout_def defaultReadTimeout_def second_def GetMaxIdleConns_def
        defaultMaxIdleConns_def GetMaxIdleConnsPerHost_def)
  show ?thesis
    using conns [of "getenv ''max_idle_conns''"] conns [of "getenv ''max_idle_conns_per_host''"]
    by (auto simp: Read_def Let_def port getters split: option.split)
qed

subsection \<open>From the configuration to a running orchestrator\<close>

lemma seconds_u64_small:
  assumes "uint w \<le> 9223372036"
  shows "seconds_u64 w = uint w * second"
proof -
  have "- (2 ^ 63) \<le> uint w" by (rule order_trans [OF _ uint_ge_0]) simp
  then have sint: "sint w = uint w"
    using assms by (simp add: sint_uint signed_take_bit_int_eq_self)
  have "0 \<le> uint w * second" by (simp add: second_def)
  moreover have "(2::int) ^ 63 = 9223372036854775808" by simp
  ultimately have "in_int64 (uint w * second)" using assms unfolding in_int64_def second_def by linarith
  then show ?thesis by (simp add: seconds_u64_def wrap64_id sint)
qed

lemma word_pos_uint: "0 < w \<longleftrightarrow> 0 < uint w"
  by (simp add: word_less_def)

lemma gigabytes:
  assumes "0 < (w :: 64 word)" and "uint w < 2 ^ 34"
  shows "0 < w * 1024 * 1024 * 1024"
proof -
  have "uint w * uint (1073741824 :: 64 word) < 2 ^ LENGTH(64)" using assms(2) by simp
  then have "uint (w * 1073741824) = uint w * 1073741824" using uint_mult_lem [of w 1073741824] by simp
  then have "0 < w * 1073741824" using assms(1) by (simp only: word_pos_uint)
  then show ?thesis by (simp add: mult.assoc)
qed

text \<open>The settings that the conversions of \<open>buildOrchestratorConfig\<close> represent.\<close>

definition settings_ok :: "faas_config \<Rightarrow> bool" where
  "settings_ok fc \<longleftrightarrow> uint (fc_orchestrator_eval_interval fc) \<le> 9223372036 \<and>
     uint (fc_orchestrator_stability_period fc) \<le> 9223372036 \<and> uint (fc_orchestrator_max_memory fc) < 2 ^ 34"

lemma orchLoop_no_panic: "fst (orchLoop env es orc w) \<noteq> PanicsNewTicker"
  by (induction env es orc w rule: orchLoop.induct) (simp_all split: prod.splits)

lemma Start_panics_iff:
  "fst (Start env es orc w) = PanicsNewTicker \<longleftrightarrow>
     \<not> or_is_running orc \<and> oc_evaluation_interval (or_config orc) \<le> 0"
  by (simp add: Start_def Let_def orchLoop_no_panic)

lemma New_config: "or_config (fst (NewIntelligentOrchestrator env (Some config) w)) = config"
  "\<not> or_is_running (fst (NewIntelligentOrchestrator env (Some config) w))"
  by (simp_all add: NewIntelligentOrchestrator_def Let_def split: prod.split)

lemma buildOrchestratorConfig_pos:
  assumes "settings_ok fc"
  shows "0 < oc_evaluation_interval (buildOrchestratorConfig fc)"
    and "0 < oc_stability_period (buildOrchestratorConfig fc)"
    and "0 < oc_max_memory (buildOrchestratorConfig fc)"
proof -
  have pos: "0 < (if 0 < u then seconds_u64 u else n * second)" if "uint u \<le> 9223372036" "0 < n" for u n
    using that by (simp add: seconds_u64_small word_pos_uint second_def)
  show "0 < oc_evaluation_interval (buildOrchestratorConfig fc)"
    and "0 < oc_stability_period (buildOrchestratorConfig fc)"
    using assms pos [of _ 10] pos [of _ 30] by (simp_all add: settings_ok_def buildOrchestratorConfig_def)
  show "0 < oc_max_memory (buildOrchestratorConfig fc)"
    using assms gigabytes [of "fc_orchestrator_max_memory fc"]
    by (simp add: settings_ok_def buildOrchestratorConfig_def mult.commute)
qed

text \<open>
  Settings that fit are passed on faithfully: the orchestrator built from them has
  a positive evaluation interval and stability period, a threshold in (0, 1] and a positive
  memory limit, and its \<open>Start\<close> never panics, whatever happens in its loop.
\<close>

theorem buildOrchestratorConfig_sound:
  assumes "settings_ok fc"
  shows "let c = buildOrchestratorConfig fc in
     0 < oc_evaluation_interval c \<and> 0 < oc_stability_period c \<and>
     0 < oc_switch_threshold c \<and> oc_switch_threshold c \<le> 1 \<and> 0 < oc_max_memory c \<and>
     fst (Start env es (fst (NewIntelligentOrchestrator env' (Some c) w')) w) \<noteq> PanicsNewTicker"
proof -
  let ?c = "buildOrchestratorConfig fc"
  have "0 < f64 (5 / 100)" "f64 (5 / 100) \<le> 1" by code_simp+
  then have threshold: "0 < oc_switch_threshold ?c" "oc_switch_threshold ?c \<le> 1"
    by (simp_all add: buildOrchestratorConfig_def)
  with buildOrchestratorConfig_pos [OF assms] show ?thesis
    by (simp add: Start_panics_iff New_config Let_def)
qed

definition example_config :: faas_config where
  "example_config =
     \<lparr>fc_tcp_port = None, fc_read_timeout = 0, fc_write_timeout = 0, fc_enable_health = False,
      fc_enable_basic_auth = False, fc_secret_mount_path = [], fc_max_idle_conns = 0,
      fc_max_idle_conns_per_host = 0, fc_enable_caching = True, fc_enable_orchestrator = True,
      fc_orchestrator_eval_interval = 60, fc_orchestrator_stability_period = 0,
      fc_orchestrator_switch_threshold = 1, fc_orchestrator_max_memory = 16\<rparr>"

theorem buildOrchestratorConfig_sound_witness:
  "settings_ok example_config \<and> 0 < oc_max_memory (buildOrchestratorConfig example_config)"
proof -
  have ok: "settings_ok example_config" by (simp add: settings_ok_def example_config_def)
  then show ?thesis
    using buildOrchestratorConfig_sound [OF ok, unfolded Let_def, THEN conjunct2, THEN conjunct2,
        THEN conjunct2, THEN conjunct2, THEN conjunct1] by simp
qed

text \<open>
  Settings beyond those bounds are not rejected but wrap around: an evaluation
  interval of 9223372037 seconds becomes negative and \<open>Start\<close> panics, and a memory limit of
  \<open>2^34\<close> gigabytes becomes zero.
\<close>

theorem buildOrchestratorConfig_overflow:
  "fst (Start env es (fst (NewIntelligentOrchestrator env'
     (Some (buildOrchestratorConfig (fc\<lparr>fc_orchestrator_eval_interval := 9223372037\<rparr>))) w')) w) = PanicsNewTicker \<and>
   oc_max_memory (buildOrchestratorConfig (fc\<lparr>fc_orchestrator_max_memory := 17179869184\<rparr>)) = 0"
proof -
  have "seconds_u64 9223372037 \<le> 0" by code_simp
  then show ?thesis by (simp add: Start_panics_iff New_config buildOrchestratorConfig_def)
qed

end
