(* ===== verification/Proxy.thy ===== *)
theory Proxy
  imports NetUrl FaasConfig
begin

text \<open>
  src/proxy/proxy.go without the flow handler: the HTTP clients, the request that is sent to a
  function, the copying of its response, and the handler of the function route.

  The state is a pair of the response writer's state and a world. The resolver of the
  provider and the network (\<open>http_do\<close>) act on the world; both are parameters. So is
  \<open>ReverseProxy.ServeHTTP\<close>, which streams between client and function on both.
\<close>

subsection \<open>HTTP clients\<close>

record http_client =
  cl_dial_timeout :: duration
  cl_keep_alive :: duration
  cl_max_idle_conns :: goint
  cl_max_idle_conns_per_host :: goint
  cl_max_conns_per_host :: goint
  cl_idle_conn_timeout :: duration
  cl_tls_handshake_timeout :: duration
  cl_expect_continue_timeout :: duration
  cl_timeout :: duration
  cl_use_last_response :: bool

text \<open>Fields that the code leaves out of a literal are zero, which means no limit.\<close>

definition sharedHTTPClient :: http_client where
  "sharedHTTPClient =
     \<lparr>cl_dial_timeout = 0, cl_keep_alive = 0, cl_max_idle_conns = 100, cl_max_idle_conns_per_host = 100,
      cl_max_conns_per_host = 100, cl_idle_conn_timeout = 90 * second, cl_tls_handshake_timeout = 0,
      cl_expect_continue_timeout = 0, cl_timeout = 30 * second, cl_use_last_response = False\<rparr>"

definition millisecond :: duration where "millisecond = 1000000"

definition NewProxyClient :: "duration \<Rightarrow> goint \<Rightarrow> goint \<Rightarrow> http_client" where
  "NewProxyClient timeout maxIdleConns maxIdleConnsPerHost =
     \<lparr>cl_dial_timeout = timeout, cl_keep_alive = 1 * second, cl_max_idle_conns = maxIdleConns,
      cl_max_idle_conns_per_host = maxIdleConnsPerHost, cl_max_conns_per_host = 0,
      cl_idle_conn_timeout = 120 * millisecond, cl_tls_handshake_timeout = 10 * second,
      cl_expect_continue_timeout = 1500 * millisecond, cl_timeout = timeout, cl_use_last_response = True\<rparr>"

definition NewProxyClientFromConfig :: "faas_config \<Rightarrow> http_client" where
  "NewProxyClientFromConfig config =
     NewProxyClient (GetReadTimeout config) (GetMaxIdleConns config) (GetMaxIdleConnsPerHost config)"

subsection \<open>Requests to functions\<close>

record response =
  rs_status :: int
  rs_header :: header
  rs_body :: "body option"

definition validMethod :: "string \<Rightarrow> bool" where
  "validMethod m \<longleftrightarrow> m \<noteq> [] \<and> list_all validHeaderFieldByte m"

definition removeEmptyPort :: "string \<Rightarrow> string" where
  "removeEmptyPort host =
     (case cutLast (CHR '':'') host of Some (h, []) \<Rightarrow> h | _ \<Rightarrow> host)"

text \<open>\<open>http.NewRequest\<close>\<close>

definition http_NewRequest :: "string \<Rightarrow> string \<Rightarrow> body option \<Rightarrow> request option" where
  "http_NewRequest meth rawurl body =
     (let meth = (if meth = [] then ''GET'' else meth)
      in if \<not> validMethod meth then None
         else case url_Parse rawurl of
                None \<Rightarrow> None
              | Some u \<Rightarrow>
                  (let u = u\<lparr>u_host := removeEmptyPort (u_host u)\<rparr>
                   in Some \<lparr>rq_method = meth, rq_url = u, rq_header = (\<lambda>_. None), rq_host = u_host u,
                        rq_remote_addr = [], rq_body = body, rq_vars = (\<lambda>_. None)\<rparr>))"

definition watchdogPort :: string where "watchdogPort = ''8080''"
definition defaultContentType :: string where "defaultContentType = ''text/plain''"
definition openFaaSInternalHeader :: string where "openFaaSInternalHeader = ''X-OpenFaaS-Internal''"

text \<open>Each value is cloned, so destination and source share nothing afterwards.\<close>

definition copyHeaders :: "header \<Rightarrow> header \<Rightarrow> header" where
  "copyHeaders destination source = (\<lambda>k. case source k of Some v \<Rightarrow> Some v | None \<Rightarrow> destination k)"

definition getContentType :: "header \<Rightarrow> header \<Rightarrow> string" where
  "getContentType request proxyResponse =
     (let responseHeader = header_Get proxyResponse ''Content-Type'';
          requestHeader = header_Get request ''Content-Type''
      in if 0 < length responseHeader then responseHeader
         else if 0 < length requestHeader then requestHeader
         else defaultContentType)"

definition buildProxyRequest :: "request \<Rightarrow> url \<Rightarrow> string \<Rightarrow> request option" where
  "buildProxyRequest originalReq baseURL extraPath =
     (let host = (if url_Port baseURL = [] then u_host baseURL @ '':'' @ watchdogPort else u_host baseURL);
          url = no_url\<lparr>u_scheme := u_scheme baseURL, u_host := host, u_path := extraPath,
                  u_raw_query := u_raw_query (rq_url originalReq)\<rparr>
      in case http_NewRequest (rq_method originalReq) (url_String url) None of
           None \<Rightarrow> None
         | Some upstreamReq \<Rightarrow>
             (let h = copyHeaders (rq_header upstreamReq) (rq_header originalReq);
                  h = (if 0 < length (rq_host originalReq) \<and> header_Get h ''X-Forwarded-Host'' = []
                       then h(''X-Forwarded-Host'' \<mapsto> [rq_host originalReq]) else h);
                  h = (if header_Get h ''X-Forwarded-For'' = []
                       then h(''X-Forwarded-For'' \<mapsto> [rq_remote_addr originalReq]) else h);
                  upstreamReq = upstreamReq\<lparr>rq_header := h\<rparr>
              in Some (if rq_body originalReq \<noteq> None
                       then upstreamReq\<lparr>rq_body := rq_body originalReq\<rparr> else upstreamReq)))"

subsection \<open>Proxying a request\<close>

record ('w, 'x) proxy_env =
  http_do :: "http_client \<Rightarrow> request \<Rightarrow> 'x \<Rightarrow> (response option \<times> string option) \<times> 'x"
  reverse_serve :: "(request \<Rightarrow> request) \<Rightarrow> request \<Rightarrow> 'w \<times> 'x \<Rightarrow> unit outcome \<times> 'w \<times> 'x"

type_synonym 'x resolver = "string \<Rightarrow> 'x \<Rightarrow> (string + url) \<times> 'x"

definition director :: "request \<Rightarrow> request" where
  "director req = req\<lparr>rq_url := (rq_url req)\<lparr>u_scheme := ''http''\<rparr>\<rparr>"

text \<open>Running the response writer on its part of the state.\<close>

definition on_writer :: "('w \<Rightarrow> 'a outcome \<times> 'w) \<Rightarrow> 'w \<times> 'x \<Rightarrow> 'a outcome \<times> 'w \<times> 'x" where
  "on_writer f s = (case f (fst s) of (a, w) \<Rightarrow> (a, w, snd s))"

definition internalError :: "'w writer \<Rightarrow> int \<Rightarrow> string \<Rightarrow> string list \<Rightarrow> 'w \<Rightarrow> unit outcome \<times> 'w" where
  "internalError ops statusCode msg args w =
     Errorf ops statusCode msg args
       (w_set_header ops (header_Add openFaaSInternalHeader ''proxy'' (w_header ops w)) w)"

definition copyResponse ::
    "'w writer \<Rightarrow> request \<Rightarrow> response \<Rightarrow> bool \<Rightarrow> 'w \<Rightarrow> string option outcome \<times> 'w" where
  "copyResponse ops originalReq response returnBody w =
     (let clientHeader = copyHeaders (w_header ops w) (rs_header response);
          clientHeader = header_Set ''Content-Type''
            (getContentType (rq_header originalReq) (rs_header response)) clientHeader
      in then_do (w_write_header ops (rs_status response) (w_set_header ops clientHeader w)) (\<lambda>_ w.
           case rs_body response of
             None \<Rightarrow> (Done None, w)
           | Some (responseBody, readErr) \<Rightarrow>
               then_do (io_Copy ops responseBody w) (\<lambda>_ w.
                 (Done (if returnBody then Some responseBody else None), w))))"

definition proxyRequest ::
    "'w writer \<Rightarrow> ('w, 'x) proxy_env \<Rightarrow> http_client \<Rightarrow> 'x resolver \<Rightarrow> bool \<Rightarrow> request \<Rightarrow> 'w \<times> 'x \<Rightarrow>
     string option outcome \<times> 'w \<times> 'x" where
  "proxyRequest ops env proxyClient resolver returnBody originalReq s =
     (let functionName = path_var originalReq ''name'';
          returnNil = (\<lambda>_ s. (Done None, s))
      in if functionName = []
         then then_do (on_writer (internalError ops 400 ''Provide function name in the request path'' []) s) returnNil
         else case resolver functionName (snd s) of
           (Inl err, x) \<Rightarrow>
             then_do (on_writer (internalError ops 503 ''No endpoints available for: %s.'' [functionName]) (fst s, x)) returnNil
         | (Inr functionAddr, x) \<Rightarrow>
             (case buildProxyRequest originalReq functionAddr (path_var originalReq ''params'') of
                None \<Rightarrow>
                  then_do (on_writer (internalError ops 500 ''Failed to resolve service: %s.'' [functionName]) (fst s, x)) returnNil
              | Some proxyReq \<Rightarrow>
                  if header_Get (rq_header originalReq) ''Accept'' = ''text/event-stream'' \<or>
                     header_Get (rq_header originalReq) ''Upgrade'' = ''websocket''
                  then then_do (reverse_serve env director (originalReq\<lparr>rq_url := rq_url proxyReq\<rparr>) (fst s, x)) returnNil
                  else case http_do env proxyClient proxyReq x of
                    ((_, Some err), x) \<Rightarrow>
                      then_do (on_writer (internalError ops 500 (''Can'' @ [CHR 0x27] @ ''t reach service for: %s.'') [functionName]) (fst s, x)) returnNil
                  | ((None, None), x) \<Rightarrow> (Panics ''invalid memory address or nil pointer dereference'', fst s, x)
                  | ((Some response, None), x) \<Rightarrow>
                      on_writer (copyResponse ops originalReq response returnBody) (fst s, x)))"

subsection \<open>The handler of the function route\<close>

definition NewHandlerFunc ::
    "'w writer \<Rightarrow> ('w, 'x) proxy_env \<Rightarrow> faas_config \<Rightarrow> 'x resolver option \<Rightarrow> ('w \<times> 'x) handler outcome" where
  "NewHandlerFunc ops env config resolver =
     (case resolver of
        None \<Rightarrow> Panics ''NewHandlerFunc: empty proxy handler resolver, cannot be nil''
      | Some resolver \<Rightarrow>
          (let proxyClient = NewProxyClientFromConfig config
           in Done (\<lambda>r s.
                if rq_method r \<in> set [''POST'', ''PUT'', ''PATCH'', ''DELETE'', ''GET'', ''OPTIONS'', ''HEAD'']
                then then_do (proxyRequest ops env proxyClient resolver False r s) (\<lambda>_ s. (Done (), s))
                else on_writer (w_write_header ops 405) s)))"

subsection \<open>The request that a function receives\<close>

lemma header_Get_upd: "CanonicalHeaderKey k' = k' \<Longrightarrow>
    header_Get (h(k \<mapsto> [v])) k' = (if k = k' then v else header_Get h k')"
  by (simp add: header_Get_def header_Values_def)

lemma host_with_port:
  assumes "host_ok h"
  defines "h' \<equiv> if url_Port (no_url\<lparr>u_host := h\<rparr>) = [] then h @ '':'' @ watchdogPort else h"
  shows "host_ok h'" and "removeEmptyPort h' = h'"
proof -
  have app: "cutLast (CHR '':'') (h @ '':8080'') = Some (h, ''8080'')"
    using cutLast_append [of "CHR '':''" "''8080''" h] by simp
  have digits: "validOptionalPort '':8080''" by code_simp
  have alnum: "is_alnum (CHR ''8'')" "is_alnum (CHR ''0'')" by code_simp+
  have "host_ok (h @ '':8080'')" using assms(1) app digits alnum by (simp add: host_ok_def)
  moreover have "removeEmptyPort (h @ '':8080'') = h @ '':8080''" using app by (simp add: removeEmptyPort_def)
  moreover have "removeEmptyPort h = h" if "url_Port (no_url\<lparr>u_host := h\<rparr>) \<noteq> []"
    using that by (auto simp: url_Port_def removeEmptyPort_def split: option.splits list.splits if_splits)
  ultimately show "host_ok h'" and "removeEmptyPort h' = h'"
    using assms(1) by (simp_all add: h'_def watchdogPort_def)
qed

lemma http_NewRequest_ok:
  assumes "validMethod m" and "scheme_ok s" and "host_ok h" and "removeEmptyPort h = h" and "query_ok q"
  shows "\<exists>rp. http_NewRequest m (url_String (no_url\<lparr>u_scheme := s, u_host := h, u_path := p, u_raw_query := q\<rparr>)) b =
    Some \<lparr>rq_method = m,
      rq_url = no_url\<lparr>u_scheme := s, u_host := h, u_path := slashed p, u_raw_path := rp, u_raw_query := q\<rparr>,
      rq_header = (\<lambda>_. None), rq_host = h, rq_remote_addr = [], rq_body = b, rq_vars = (\<lambda>_. None)\<rparr>"
proof -
  obtain rp where "url_Parse (url_String (no_url\<lparr>u_scheme := s, u_host := h, u_path := p, u_raw_query := q\<rparr>)) =
      Some (no_url\<lparr>u_scheme := s, u_host := h, u_path := slashed p, u_raw_path := rp, u_raw_query := q\<rparr>)"
    using url_Parse_String [OF assms(2,3,5)] by blast
  with assms(1,4) show ?thesis
    by (intro exI [of _ rp]) (simp add: http_NewRequest_def validMethod_def Let_def)
qed

lemma buildProxyRequest_ok:
  assumes "validMethod (rq_method r)" and "scheme_ok (u_scheme base)" and "host_ok (u_host base)"
    and "query_ok (u_raw_query (rq_url r))"
  shows "\<exists>q rp. buildProxyRequest r base extra = Some q \<and>
    rq_method q = rq_method r \<and> rq_body q = rq_body r \<and>
    rq_url q = no_url\<lparr>u_scheme := u_scheme base,
      u_host := if url_Port base = [] then u_host base @ '':8080'' else u_host base,
      u_path := slashed extra, u_raw_path := rp, u_raw_query := u_raw_query (rq_url r)\<rparr> \<and>
    (\<forall>k. k \<notin> {''X-Forwarded-Host'', ''X-Forwarded-For''} \<longrightarrow> rq_header q k = rq_header r k) \<and>
    header_Get (rq_header q) ''X-Forwarded-For'' =
      (if header_Get (rq_header r) ''X-Forwarded-For'' = [] then rq_remote_addr r
       else header_Get (rq_header r) ''X-Forwarded-For'') \<and>
    header_Get (rq_header q) ''X-Forwarded-Host'' =
      (if header_Get (rq_header r) ''X-Forwarded-Host'' = [] then rq_host r
       else header_Get (rq_header r) ''X-Forwarded-Host'')"
proof -
  let ?h = "if url_Port base = [] then u_host base @ '':'' @ watchdogPort else u_host base"
  have "url_Port base = url_Port (no_url\<lparr>u_host := u_host base\<rparr>)" by (simp add: url_Port_def)
  with host_with_port [OF assms(3)] have h: "host_ok ?h" "removeEmptyPort ?h = ?h" by simp_all
  have c: "copyHeaders (\<lambda>_. None) h = h" for h by (auto simp: copyHeaders_def split: option.split)
  obtain rp where "http_NewRequest (rq_method r) (url_String (no_url\<lparr>u_scheme := u_scheme base, u_host := ?h,
        u_path := extra, u_raw_query := u_raw_query (rq_url r)\<rparr>)) None =
      Some \<lparr>rq_method = rq_method r, rq_url = no_url\<lparr>u_scheme := u_scheme base, u_host := ?h,
        u_path := slashed extra, u_raw_path := rp, u_raw_query := u_raw_query (rq_url r)\<rparr>,
        rq_header = (\<lambda>_. None), rq_host = ?h, rq_remote_addr = [], rq_body = None, rq_vars = (\<lambda>_. None)\<rparr>"
    using http_NewRequest_ok [OF assms(1,2) h assms(4), of extra None] by blast
  then show ?thesis
    by (cases "rq_body r") (auto simp: buildProxyRequest_def Let_def c header_Get_upd watchdogPort_def)
qed

text \<open>
  Property C19: for an ordinary endpoint the request sent to a function has the method, query,
  body and headers of the original one and its sub-path whatever bytes that contains; the
  host gets the watchdog's port if it has none; and the forwarding headers are filled in
  unless the client set them.
\<close>

theorem buildProxyRequest_faithful:
  assumes "validMethod (rq_method r)" and "scheme_ok (u_scheme base)" and "host_ok (u_host base)"
    and "query_ok (u_raw_query (rq_url r))"
  shows "\<exists>q. buildProxyRequest r base extra = Some q \<and>
    rq_method q = rq_method r \<and> rq_body q = rq_body r \<and>
    u_path (rq_url q) = slashed extra \<and> u_raw_query (rq_url q) = u_raw_query (rq_url r) \<and>
    u_host (rq_url q) = (if url_Port base = [] then u_host base @ '':8080'' else u_host base) \<and>
    (\<forall>k. k \<notin> {''X-Forwarded-Host'', ''X-Forwarded-For''} \<longrightarrow> rq_header q k = rq_header r k) \<and>
    header_Get (rq_header q) ''X-Forwarded-For'' =
      (if header_Get (rq_header r) ''X-Forwarded-For'' = [] then rq_remote_addr r
       else header_Get (rq_header r) ''X-Forwarded-For'') \<and>
    header_Get (rq_header q) ''X-Forwarded-Host'' =
      (if header_Get (rq_header r) ''X-Forwarded-Host'' = [] then rq_host r
       else header_Get (rq_header r) ''X-Forwarded-Host'')"
  using buildProxyRequest_ok [OF assms, of extra] by fastforce

definition plain_request_for :: "string \<Rightarrow> request" where
  "plain_request_for m = \<lparr>rq_method = m, rq_url = no_url, rq_header = (\<lambda>_. None), rq_host = ''gateway'',
     rq_remote_addr = ''10.0.0.1:9'', rq_body = None, rq_vars = [''name'' \<mapsto> ''figlet'']\<rparr>"

definition example_endpoint :: url where
  "example_endpoint = no_url\<lparr>u_scheme := ''http'', u_host := ''figlet.openfaas-fn''\<rparr>"

theorem buildProxyRequest_faithful_witness:
  "\<exists>q. buildProxyRequest (plain_request_for ''POST'') example_endpoint ''a b/c?'' = Some q \<and>
     u_path (rq_url q) = ''/a b/c?'' \<and> u_host (rq_url q) = ''figlet.openfaas-fn:8080''"
proof -
  have "validMethod ''POST''" by code_simp
  moreover have "scheme_ok ''http''" "host_ok ''figlet.openfaas-fn''" "query_ok []" by code_simp+
  moreover have "url_Port example_endpoint = []" by code_simp
  ultimately show ?thesis
    using buildProxyRequest_faithful [of "plain_request_for ''POST''" example_endpoint "''a b/c?''"]
    by (simp add: plain_request_for_def example_endpoint_def no_url_def slashed_def) blast
qed

subsection \<open>What the client receives\<close>

text \<open>
  The abstract behaviour of the proxy: what it decides about a request, without any writing.
\<close>

datatype decision = Reject int string | Stream request | Relay response | Crash

definition decide ::
    "('w, 'x) proxy_env \<Rightarrow> http_client \<Rightarrow> 'x resolver \<Rightarrow> request \<Rightarrow> 'x \<Rightarrow> decision \<times> 'x" where
  "decide env client resolver r x =
     (let n = path_var r ''name''
      in if n = [] then (Reject 400 ''Provide function name in the request path'', x)
         else case resolver n x of
           (Inl e, x) \<Rightarrow> (Reject 503 (''No endpoints available for: '' @ n @ ''.''), x)
         | (Inr u, x) \<Rightarrow>
             (case buildProxyRequest r u (path_var r ''params'') of
                None \<Rightarrow> (Reject 500 (''Failed to resolve service: '' @ n @ ''.''), x)
              | Some q \<Rightarrow>
                  if header_Get (rq_header r) ''Accept'' = ''text/event-stream'' \<or>
                     header_Get (rq_header r) ''Upgrade'' = ''websocket''
                  then (Stream (r\<lparr>rq_url := rq_url q\<rparr>), x)
                  else case http_do env client q x of
                         ((_, Some e), x) \<Rightarrow> (Reject 500 (''Can'' @ [CHR 0x27] @ ''t reach service for: '' @ n @ ''.''), x)
                       | ((None, None), x) \<Rightarrow> (Crash, x)
                       | ((Some rs, None), x) \<Rightarrow> (Relay rs, x)))"

definition relayed_header :: "request \<Rightarrow> response \<Rightarrow> header \<Rightarrow> header" where
  "relayed_header r rs h =
     header_Set ''Content-Type'' (getContentType (rq_header r) (rs_header rs)) (copyHeaders h (rs_header rs))"

lemma Sprintf_messages:
  "Sprintf ''Provide function name in the request path'' [] = ''Provide function name in the request path''"
  "Sprintf ''No endpoints available for: %s.'' [n] = ''No endpoints available for: '' @ n @ ''.''"
  "Sprintf ''Failed to resolve service: %s.'' [n] = ''Failed to resolve service: '' @ n @ ''.''"
  "Sprintf (''Can'' @ [CHR 0x27] @ ''t reach service for: %s.'') [n] =
     ''Can'' @ [CHR 0x27] @ ''t reach service for: '' @ n @ ''.''"
  by simp_all

context response_writer
begin

lemma internalError_response:
  assumes "ok w" and "sent w = None" and "200 \<le> code" and "code \<le> 999" and "bodyAllowed code"
  shows "\<exists>w'. internalError ops code msg args w = (Done (), w') \<and> ok w' \<and>
    sent w' = Some (code, error_header (header_Add openFaaSInternalHeader ''proxy'' (w_header ops w))) \<and>
    body w' = body w @ Sprintf msg args @ newline"
proof -
  let ?h = "header_Add openFaaSInternalHeader ''proxy'' (w_header ops w)"
  let ?w = "w_set_header ops ?h w"
  have "ok ?w" "sent ?w = None" "body ?w = body w" "w_header ops ?w = ?h" using set_header assms by simp_all
  with http_Error_response [OF this(1,2) assms(3-5)] show ?thesis
    by (auto simp: internalError_def Errorf_def)
qed

lemma io_Copy_sent:
  assumes "ok w" and "sent w = Some (code, h)"
  shows "\<exists>w'. io_Copy ops d w = (Done (), w') \<and> ok w' \<and> sent w' = Some (code, h) \<and>
    (bodyAllowed code \<and> contentLimit h = None \<longrightarrow> body w' = body w @ d)"
  using write_more [OF assms, of d] assms by (auto simp: io_Copy_def)

lemma copyResponse_response:
  assumes "ok w" and "sent w = None" and "200 \<le> rs_status rs" and "rs_status rs \<le> 999"
    and "rs_body rs = Some (d, e)"
  shows "\<exists>w'. copyResponse ops r rs rb w = (Done (if rb then Some d else None), w') \<and> ok w' \<and>
    sent w' = Some (rs_status rs, relayed_header r rs (w_header ops w)) \<and>
    (bodyAllowed (rs_status rs) \<and> contentLimit (relayed_header r rs (w_header ops w)) = None \<longrightarrow>
       body w' = body w @ d)"
proof -
  let ?h = "relayed_header r rs (w_header ops w)"
  let ?w = "w_set_header ops ?h w"
  have "ok ?w" "sent ?w = None" "w_header ops ?w = ?h" "body ?w = body w" using set_header assms by simp_all
  with write_header_first [of ?w "rs_status rs"] assms obtain w1 where
    w1: "w_write_header ops (rs_status rs) ?w = (Done (), w1)" "sent w1 = Some (rs_status rs, ?h)"
    "body w1 = body w" "ok w1" by auto
  from io_Copy_sent [OF w1(4,2), of d] w1(1,3) assms(5) show ?thesis
    by (auto simp: copyResponse_def relayed_header_def Let_def)
qed

lemma copyResponse_too_late:
  assumes "ok w" and "sent w = Some (code, h)" and "rs_body rs = Some (d, e)"
  shows "\<exists>w'. copyResponse ops r rs rb w = (Done (if rb then Some d else None), w') \<and> ok w' \<and>
    sent w' = Some (code, h) \<and> (bodyAllowed code \<and> contentLimit h = None \<longrightarrow> body w' = body w @ d)"
proof -
  let ?w = "w_set_header ops (relayed_header r rs (w_header ops w)) w"
  have "ok ?w" "sent ?w = Some (code, h)" "body ?w = body w" using set_header assms by simp_all
  with write_header_again [of ?w "rs_status rs"] obtain w1 where
    w1: "w_write_header ops (rs_status rs) ?w = (Done (), w1)" "sent w1 = Some (code, h)"
    "body w1 = body w" "ok w1" by auto
  from io_Copy_sent [OF w1(4,2), of d] w1(1,3) assms(3) show ?thesis
    by (auto simp: copyResponse_def relayed_header_def Let_def)
qed

end

text \<open>The proxy is its decision, followed by writing.\<close>

definition perform ::
    "'w writer \<Rightarrow> ('w, 'x) proxy_env \<Rightarrow> bool \<Rightarrow> request \<Rightarrow> decision \<times> 'w \<times> 'x \<Rightarrow> string option outcome \<times> 'w \<times> 'x" where
  "perform ops env returnBody r d =
     (case d of
        (Reject code msg, s) \<Rightarrow>
          then_do (on_writer (\<lambda>w. http_Error ops msg code
            (w_set_header ops (header_Add openFaaSInternalHeader ''proxy'' (w_header ops w)) w)) s) (\<lambda>_ s. (Done None, s))
      | (Stream q, s) \<Rightarrow> then_do (reverse_serve env director q s) (\<lambda>_ s. (Done None, s))
      | (Relay rs, s) \<Rightarrow> on_writer (copyResponse ops r rs returnBody) s
      | (Crash, s) \<Rightarrow> (Panics ''invalid memory address or nil pointer dereference'', s))"

lemma proxyRequest_decide:
  "proxyRequest ops env client resolver rb r (w, x) =
     (case decide env client resolver r x of (d, x') \<Rightarrow> perform ops env rb r (d, w, x'))"
proof -
  have e: "internalError ops c f a = (\<lambda>w. http_Error ops (Sprintf f a) c
      (w_set_header ops (header_Add openFaaSInternalHeader ''proxy'' (w_header ops w)) w))" for c f a
    by (simp add: fun_eq_iff internalError_def Errorf_def)
  show ?thesis
    unfolding proxyRequest_def decide_def perform_def Let_def e Sprintf_messages
    by (cases "path_var r ''name'' = []"; cases "resolver (path_var r ''name'') x")
      (auto split: sum.split option.split prod.split simp del: append.simps)
qed

lemma decide_codes: "decide env client resolver r x = (Reject code msg, x') \<Longrightarrow> code \<in> {400, 500, 503}"
  by (auto simp: decide_def Let_def split: if_splits sum.splits prod.splits option.splits)

lemma marked_header: "''proxy'' \<in> set (header_Values (error_header (header_Add openFaaSInternalHeader ''proxy'' h))
    openFaaSInternalHeader)"
  by (simp add: error_header_def header_Set_def header_Del_def header_Add_def header_Values_def
      openFaaSInternalHeader_def)

definition allowed_methods :: "string set" where
  "allowed_methods = {''POST'', ''PUT'', ''PATCH'', ''DELETE'', ''GET'', ''OPTIONS'', ''HEAD''}"

lemma handler_decide:
  assumes "NewHandlerFunc server_ops env config (Some resolver) = Done handler"
    and "decide env (NewProxyClientFromConfig config) resolver r x = (d, x')"
  shows "handler r (w, x) =
      (if rq_method r \<in> allowed_methods
       then then_do (perform server_ops env False r (d, w, x')) (\<lambda>_ s. (Done (), s))
       else on_writer (sw_WriteHeader 405) (w, x))"
  using assms by (auto simp: NewHandlerFunc_def allowed_methods_def proxyRequest_decide sw_ok_simps Let_def)

lemma relayed_type: "header_Get (relayed_header r rs h) ''Content-Type'' \<noteq> []"
  by (simp add: relayed_header_def header_Get_Set getContentType_def defaultContentType_def Let_def)

text \<open>
  Property C4: the handler of the function route implements the abstract decision: other
  methods get a 405 and reach nothing; a rejected request gets the decided status and message
  with the internal marker; a function's response is relayed with its status, its headers and
  its body, and always with a content type; and only a missing response makes it panic.
\<close>

theorem NewHandlerFunc_refines:
  assumes "NewHandlerFunc server_ops env config (Some resolver) = Done handler"
    and "sw_sent w = None" and "\<not> sw_hijacked w"
    and "decide env (NewProxyClientFromConfig config) resolver r x = (d, x')"
  shows "if rq_method r \<notin> allowed_methods
    then \<exists>w'. handler r (w, x) = (Done (), w', x) \<and> sw_sent w' = Some (405, sw_header w) \<and> sw_body w' = sw_body w
    else case d of
        Reject code msg \<Rightarrow> \<exists>w' h. handler r (w, x) = (Done (), w', x') \<and> sw_sent w' = Some (code, h) \<and>
          ''proxy'' \<in> set (header_Values h openFaaSInternalHeader) \<and> sw_body w' = sw_body w @ msg @ newline
      | Relay rs \<Rightarrow> (\<forall>data e. rs_body rs = Some (data, e) \<and> 200 \<le> rs_status rs \<and> rs_status rs \<le> 999 \<longrightarrow>
          (\<exists>w' h. handler r (w, x) = (Done (), w', x') \<and> sw_sent w' = Some (rs_status rs, h) \<and>
            h = relayed_header r rs (sw_header w) \<and> header_Get h ''Content-Type'' \<noteq> [] \<and>
            (bodyAllowed (rs_status rs) \<and> contentLimit h = None \<longrightarrow> sw_body w' = sw_body w @ data)))
      | Stream q \<Rightarrow> fst (handler r (w, x)) = fst (reverse_serve env director q (w, x')) \<and>
          snd (handler r (w, x)) = snd (reverse_serve env director q (w, x'))
      | Crash \<Rightarrow> \<exists>m. handler r (w, x) = (Panics m, w, x')"
proof -
  note handler = handler_decide [OF assms(1,4)]
  show ?thesis
  proof (cases "rq_method r \<in> allowed_methods")
    case False
    with assms(2,3) handler show ?thesis by (simp add: on_writer_def sw_WriteHeader_def)
  next
    case True
    show ?thesis
    proof (cases d)
      case (Reject code msg)
      have "code \<in> {400, 500, 503}" using assms(4) unfolding Reject by (rule decide_codes)
      then have range: "200 \<le> code" "code \<le> 999" "bodyAllowed code" by (auto simp: bodyAllowed_def)
      let ?h = "header_Add openFaaSInternalHeader ''proxy'' (sw_header w)"
      from server.http_Error_response [OF _ _ range, of "w\<lparr>sw_header := ?h\<rparr>" msg] assms(2,3) obtain w' where
        "http_Error server_ops msg code (w\<lparr>sw_header := ?h\<rparr>) = (Done (), w')"
        "sw_sent w' = Some (code, error_header ?h)" "sw_body w' = sw_body w @ msg @ newline"
        by (auto simp: sw_ok_simps)
      with True Reject handler marked_header show ?thesis
        by (simp add: perform_def on_writer_def sw_ok_simps)
    next
      case (Relay rs)
      have "\<exists>w'. handler r (w, x) = (Done (), w', x') \<and> sw_sent w' = Some (rs_status rs, relayed_header r rs (sw_header w)) \<and>
          (bodyAllowed (rs_status rs) \<and> contentLimit (relayed_header r rs (sw_header w)) = None \<longrightarrow>
             sw_body w' = sw_body w @ data)"
        if "rs_body rs = Some (data, e)" "200 \<le> rs_status rs" "rs_status rs \<le> 999" for data e
        using server.copyResponse_response [of w rs data e r False] that assms(2,3) handler True Relay
        by (auto simp: perform_def on_writer_def sw_ok_simps)
      with True Relay relayed_type show ?thesis by fastforce
    next
      case (Stream q)
      with True handler show ?thesis
        by (cases "reverse_serve env director q (w, x')"; cases "fst (reverse_serve env director q (w, x'))")
          (auto simp: perform_def)
    next
      case Crash
      with True handler show ?thesis by (simp add: perform_def)
    qed
  qed
qed

definition offline_env :: "(server_writer, nat) proxy_env" where
  "offline_env = \<lparr>http_do = (\<lambda>c q n. ((None, Some ''connection refused''), Suc n)),
     reverse_serve = (\<lambda>d q s. (Done (), s))\<rparr>"

definition example_resolver :: "nat resolver" where
  "example_resolver n x = (Inr example_endpoint, x)"

theorem NewHandlerFunc_refines_witness:
  "\<exists>handler. NewHandlerFunc server_ops offline_env example_config (Some example_resolver) = Done handler \<and>
    (\<exists>w'. handler (plain_request_for ''TRACE'') (newResponse, 0) = (Done (), w', 0) \<and>
       sw_sent w' = Some (405, sw_header newResponse) \<and> sw_body w' = sw_body newResponse)"
proof -
  obtain handler where h: "NewHandlerFunc server_ops offline_env example_config (Some example_resolver) = Done handler"
    by (simp add: NewHandlerFunc_def Let_def)
  obtain d x' where "decide offline_env (NewProxyClientFromConfig example_config) example_resolver
      (plain_request_for ''TRACE'') 0 = (d, x')" by (metis prod.collapse)
  moreover have "rq_method (plain_request_for ''TRACE'') \<notin> allowed_methods"
    by (simp add: plain_request_for_def allowed_methods_def)
  ultimately show ?thesis
    using h NewHandlerFunc_refines [OF h, of newResponse "plain_request_for ''TRACE''" 0 d x']
    by (auto simp: newResponse_def)
qed

end
