(* ===== verification/Encoding.thy ===== *)
theory Encoding
  imports Http "HOL-Library.Char_ord" "HOL-Library.List_Lexorder"
begin

text \<open>
  Encodings of the standard library that the handlers use: base64, \<open>crypto/sha1\<close> and the
  hexadecimal verb of \<open>fmt\<close>. The main lemma: base64 decodes what it encodes.
\<close>

subsection \<open>Base64\<close>

definition b64_char :: "nat \<Rightarrow> char" where
  "b64_char n =
     (if n < 26 then char_of (n + 65) else if n < 52 then char_of (n + 71)
      else if n < 62 then char_of (n - 4) else if n = 62 then CHR ''+'' else CHR ''/'')"

definition b64_value :: "char \<Rightarrow> nat option" where
  "b64_value c =
     (if is_upper c then Some (of_char c - 65) else if is_lower c then Some (of_char c - 71)
      else if between (CHR ''0'') c (CHR ''9'') then Some (of_char c + 4)
      else if c = CHR ''+'' then Some 62 else if c = CHR ''/'' then Some 63 else None)"

fun b64_encode :: "string \<Rightarrow> string" where
  "b64_encode [] = []"
| "b64_encode [x] = (let v = of_char x * 16 in [b64_char (v div 64), b64_char (v mod 64), CHR ''='', CHR ''=''])"
| "b64_encode [x, y] =
     (let v = (of_char x * 256 + of_char y) * 4
      in [b64_char (v div 4096), b64_char (v div 64 mod 64), b64_char (v mod 64), CHR ''=''])"
| "b64_encode (x # y # z # s) =
     (let v = (of_char x * 256 + of_char y) * 256 + of_char z
      in b64_char (v div 262144) # b64_char (v div 4096 mod 64) # b64_char (v div 64 mod 64)
         # b64_char (v mod 64) # b64_encode s)"

text \<open>
  \<open>decodeQuantum\<close> on input without line breaks, which the decoder skips everywhere. Unused
  low bits before the padding are ignored.
\<close>

fun b64_quanta :: "string \<Rightarrow> string option" where
  "b64_quanta [] = Some []"
| "b64_quanta (a # b # c # d # s) =
     (case (b64_value a, b64_value b) of
        (Some i, Some j) \<Rightarrow>
          if c = CHR ''=''
          then (if d = CHR ''='' \<and> s = [] then Some [char_of ((i * 64 + j) div 16)] else None)
          else (case b64_value c of
                  None \<Rightarrow> None
                | Some k \<Rightarrow>
                    if d = CHR ''=''
                    then (if s = []
                          then Some [char_of (((i * 64 + j) * 64 + k) div 1024), char_of (((i * 64 + j) * 64 + k) div 4)]
                          else None)
                    else (case (b64_value d, b64_quanta s) of
                            (Some l, Some r) \<Rightarrow>
                              (let v = ((i * 64 + j) * 64 + k) * 64 + l
                               in Some (char_of (v div 65536) # char_of (v div 256) # char_of v # r))
                          | _ \<Rightarrow> None))
      | _ \<Rightarrow> None)"
| "b64_quanta _ = None"

definition b64_decode :: "string \<Rightarrow> string option" where
  "b64_decode s = b64_quanta (filter (\<lambda>c. c \<noteq> CHR 0x0A \<and> c \<noteq> CHR 0x0D) s)"

lemma of_char_char_of [simp]: "n < 256 \<Longrightarrow> of_char (char_of n :: char) = (n :: nat)"
  by simp

lemma b64_value_char: "n < 64 \<Longrightarrow> b64_value (b64_char n) = Some n"
  by (auto simp: b64_char_def b64_value_def is_upper_def is_lower_def between_def)

lemma b64_char_plain:
  assumes "n < 64" shows "b64_char n \<noteq> CHR ''=''" "b64_char n \<noteq> CHR 0x0A" "b64_char n \<noteq> CHR 0x0D"
  using b64_value_char [OF assms] by (auto simp: b64_value_def is_upper_def is_lower_def between_def)

lemma of_char_less: "of_char c < (256 :: nat)"
  by simp

lemma sextets:
  fixes v :: nat
  shows "v < 64 * n \<Longrightarrow> v div 64 < n" and "v div 64 * 64 + v mod 64 = v"
    and "v div 4096 = v div 64 div 64" and "v div 262144 = v div 64 div 64 div 64"
  by (simp_all add: less_mult_imp_div_less mult.commute div_mult2_eq [symmetric])

lemma octets:
  fixes x y :: nat
  assumes "y < 256"
  shows "(x * 256 + y) div 256 = x" and "x < n \<Longrightarrow> x * 256 + y < 256 * n"
  using assms by simp_all

lemma char_of_add: "char_of (k * 256 + n :: nat) = char_of n"
  by (metis char_of_mod_256 mod_mult_self3)

lemma b64_quanta_encode: "b64_quanta (b64_encode s) = Some s"
proof (induction s rule: b64_encode.induct)
  case (2 x)
  define v where "v = (of_char x :: nat) * 16"
  have "v < 64 * 64" "v div 16 = of_char x" using of_char_less [of x] by (simp_all add: v_def)
  then show ?case
    by (simp add: b64_value_char b64_char_plain Let_def v_def [symmetric] sextets)
next
  case (3 x y)
  define w where "w = (of_char x :: nat) * 256 + of_char y"
  define v where "v = w * 4"
  define u where "u = v div 64"
  have "w < 256 * 256" "w div 256 = of_char x" unfolding w_def by (intro octets of_char_less)+
  then have bytes: "v < 64 * (64 * 64)" "v div 4 = w" "v div 1024 = of_char x"
    using div_mult2_eq [of v 4 256] by (simp_all add: v_def)
  have v: "u * 64 + v mod 64 = v" and "u < 64 * 64" unfolding u_def by (rule sextets(2), rule sextets(1) [OF bytes(1)])
  then have "u div 64 < 64" "u div 64 * 64 + u mod 64 = u" by (simp_all add: sextets)
  then show ?case
    using v bytes char_of_add [of "of_char x" "of_char y"]
    by (simp add: b64_value_char b64_char_plain Let_def w_def [symmetric] v_def [symmetric] sextets u_def [symmetric])
next
  case (4 x y z s)
  define w where "w = (of_char x :: nat) * 256 + of_char y"
  define v where "v = w * 256 + of_char z"
  define u where "u = v div 64"
  define t where "t = u div 64"
  have w: "w < 256 * 256" "w div 256 = of_char x" unfolding w_def by (intro octets of_char_less)+
  then have "v < 256 * (256 * 256)" and v: "v div 256 = w" unfolding v_def by (intro octets of_char_less; simp)+
  then have bytes: "v < 64 * (64 * (64 * 64))" "v div 65536 = of_char x"
    using w(2) div_mult2_eq [of v 256 256] by simp_all
  have "u * 64 + v mod 64 = v" and "u < 64 * (64 * 64)"
    unfolding u_def by (rule sextets(2), rule sextets(1) [OF bytes(1)])
  moreover from this have "t * 64 + u mod 64 = u" and "t < 64 * 64"
    unfolding t_def by (intro sextets; simp)+
  moreover from this have "t div 64 * 64 + t mod 64 = t" and "t div 64 < 64" by (simp_all add: sextets)
  ultimately show ?case
    using 4 bytes v char_of_add [of w "of_char z"] char_of_add [of "of_char x" "of_char y"]
    by (simp add: b64_value_char b64_char_plain Let_def w_def [symmetric] v_def [symmetric] sextets
        u_def [symmetric] t_def [symmetric])
qed simp

lemma b64_encode_plain: "filter (\<lambda>c. c \<noteq> CHR 0x0A \<and> c \<noteq> CHR 0x0D) (b64_encode s) = b64_encode s"
proof (induction s rule: b64_encode.induct)
  case (4 x y z s)
  have "of_char x * 256 + of_char y < (256 * 256 :: nat)" by (intro octets of_char_less)
  then have "(of_char x * 256 + of_char y) * 256 + of_char z < (256 * (256 * 256) :: nat)"
    by (intro octets of_char_less)
  with 4 show ?case by (simp add: b64_char_plain Let_def less_mult_imp_div_less)
next
  case (3 x y)
  have "of_char x * 256 + of_char y < (256 * 256 :: nat)" by (intro octets of_char_less)
  then show ?case by (simp add: b64_char_plain Let_def less_mult_imp_div_less)
next
  case (2 x)
  then show ?case using of_char_less [of x] by (simp add: b64_char_plain Let_def less_mult_imp_div_less)
qed simp

lemma b64_char_ascii: "n < 64 \<Longrightarrow> (of_char (b64_char n) :: nat) < 128"
  by (auto simp: b64_char_def)

lemma b64_encode_ascii: "c \<in> set (b64_encode s) \<Longrightarrow> (of_char c :: nat) < 128"
proof (induction s rule: b64_encode.induct)
  case (4 x y z s)
  have "of_char x * 256 + of_char y < (256 * 256 :: nat)" by (intro octets of_char_less)
  then have "(of_char x * 256 + of_char y) * 256 + of_char z < (256 * (256 * 256) :: nat)"
    by (intro octets of_char_less)
  with 4 show ?case by (auto simp: b64_char_ascii Let_def less_mult_imp_div_less)
next
  case (3 x y)
  have "of_char x * 256 + of_char y < (256 * 256 :: nat)" by (intro octets of_char_less)
  with 3 show ?case by (auto simp: b64_char_ascii Let_def less_mult_imp_div_less)
next
  case (2 x)
  then show ?case using of_char_less [of x] by (auto simp: b64_char_ascii Let_def less_mult_imp_div_less)
qed simp

lemma b64_decode_encode: "b64_decode (b64_encode s) = Some s"
  by (simp add: b64_decode_def b64_encode_plain b64_quanta_encode)

subsection \<open>SHA-1\<close>

definition be_bytes :: "nat \<Rightarrow> nat \<Rightarrow> string" where
  "be_bytes k n = map (\<lambda>i. char_of (n div 256 ^ i)) (rev [0..<k])"

definition sha1_pad :: "string \<Rightarrow> string" where
  "sha1_pad m =
     m @ [CHR 0x80] @ replicate ((119 - length m mod 64) mod 64) (CHR 0x00) @ be_bytes 8 (8 * length m)"

fun be_words :: "string \<Rightarrow> 32 word list" where
  "be_words (a # b # c # d # s) =
     word_of_nat (((of_char a * 256 + of_char b) * 256 + of_char c) * 256 + of_char d) # be_words s"
| "be_words _ = []"

text \<open>The message schedule, newest word first.\<close>

fun sha1_expand :: "nat \<Rightarrow> 32 word list \<Rightarrow> 32 word list" where
  "sha1_expand 0 ws = ws"
| "sha1_expand (Suc n) ws =
     sha1_expand n (word_rotl 1 (xor (xor (ws ! 2) (ws ! 7)) (xor (ws ! 13) (ws ! 15))) # ws)"

type_synonym sha1_state = "32 word \<times> 32 word \<times> 32 word \<times> 32 word \<times> 32 word"

definition sha1_round :: "sha1_state \<Rightarrow> nat \<times> 32 word \<Rightarrow> sha1_state" where
  "sha1_round st tw =
     (case (st, tw) of ((a, b, c, d, e), (t, w)) \<Rightarrow>
        let (f, k) =
          (if t < 20 then (or (and b c) (and (not b) d), 0x5A827999)
           else if t < 40 then (xor (xor b c) d, 0x6ED9EBA1)
           else if t < 60 then (or (or (and b c) (and b d)) (and c d), 0x8F1BBCDC)
           else (xor (xor b c) d, 0xCA62C1D6))
        in (word_rotl 5 a + f + e + k + w, a, word_rotl 30 b, c, d))"

definition sha1_block :: "sha1_state \<Rightarrow> 32 word list \<Rightarrow> sha1_state" where
  "sha1_block st ws =
     (case (st, foldl sha1_round st (zip [0..<80] (rev (sha1_expand 64 (rev ws))))) of
        ((a, b, c, d, e), (a', b', c', d', e')) \<Rightarrow> (a + a', b + b', c + c', d + d', e + e'))"

function sha1_blocks :: "sha1_state \<Rightarrow> 32 word list \<Rightarrow> sha1_state" where
  "sha1_blocks st ws = (if ws = [] then st else sha1_blocks (sha1_block st (take 16 ws)) (drop 16 ws))"
  by pat_completeness auto
termination by (relation "measure (\<lambda>(st, ws). length ws)") auto

declare sha1_blocks.simps [simp del]

definition sha1_Sum :: "string \<Rightarrow> string" where
  "sha1_Sum m =
     (case sha1_blocks (0x67452301, 0xEFCDAB89, 0x98BADCFE, 0x10325476, 0xC3D2E1F0) (be_words (sha1_pad m)) of
        (a, b, c, d, e) \<Rightarrow> concat (map (\<lambda>w. be_bytes 4 (unat w)) [a, b, c, d, e]))"

definition hex_lower :: "nat \<Rightarrow> char" where
  "hex_lower n = char_of (if n < 10 then n + 48 else n + 87)"

text \<open>\<open>fmt.Sprintf\<close> with the verb \<open>x\<close> on a byte array\<close>

definition hex_string :: "string \<Rightarrow> string" where
  "hex_string s = concat (map (\<lambda>c. [hex_lower (of_char c div 16), hex_lower (of_char c mod 16)]) s)"

end
