(* ===== verification/Decimal.thy ===== *)
theory Decimal
  imports Strconv
begin

text \<open>
  Decimal notation of \<open>float64\<close> values as encoding/json uses it: the shortest decimal that
  is rounded back to the value (\<open>strconv.AppendFloat\<close> with precision -1, the layout of
  \<open>floatEncoder\<close>) and the numbers of JSON (\<open>strconv.ParseFloat\<close> on the grammar the scanner
  accepts). Seventeen digits are always enough, so what is printed is read back exactly.
\<close>

subsection \<open>Values close to a representable one\<close>

lemma rhe_unique: "\<bar>x - of_int n\<bar> < 1 / 2 \<Longrightarrow> rhe x = n"
proof -
  assume "\<bar>x - of_int n\<bar> < 1 / 2"
  then have "\<bar>of_int (rhe x) - of_int n :: rat\<bar> < 1" using rhe_nearest [of x] by linarith
  then have "\<bar>of_int (rhe x - n) :: rat\<bar> < of_int 1" by simp
  then have "\<bar>rhe x - n\<bar> < 1" by (simp only: of_int_abs [symmetric] of_int_less_iff)
  then show ?thesis by simp
qed

text \<open>
  Half a unit around a representable value, a quarter below a power of two, is rounded to it.
\<close>

lemma rne_pos_unit:
  assumes "q = of_int M * 2 powi unit_exp v" and "\<bar>v - q\<bar> < 2 powi (unit_exp v - 1)"
  shows "rne_pos v = q"
proof -
  let ?u = "2 powi unit_exp v :: rat"
  have "v / ?u - of_int M = (v - q) / ?u" by (simp add: assms(1) diff_divide_distrib)
  then have "\<bar>v / ?u - of_int M\<bar> = \<bar>v - q\<bar> / ?u" by (simp only: abs_divide) simp
  also have "\<dots> < 1 / 2" using assms(2) by (simp add: divide_less_eq power_int_diff)
  finally have "rhe (v / ?u) = M" by (rule rhe_unique)
  then show ?thesis by (simp add: rne_pos_def Let_def assms(1))
qed

lemma powi2_half: "2 powi (k - 1) = (2 powi k / 2 :: rat)"
  by (simp add: power_int_diff)

lemma unit_exp_mono: "0 < a \<Longrightarrow> a \<le> b \<Longrightarrow> unit_exp a \<le> unit_exp b"
  using ilog2_mono [of a b] by (auto simp: unit_exp_def)

lemma less_powi2_ilog2: "0 < q \<Longrightarrow> q < 2 powi k \<Longrightarrow> ilog2 q < k"
  using ilog2_bounds [of q] by (metis le_less_trans powi2_less_iff)

lemma rne_pos_multiple:
  assumes "0 < q" and "rne q = q"
  obtains M where "q = of_int M * 2 powi unit_exp q" and "M < 2 ^ 53"
proof -
  let ?M = "rhe (q / 2 powi unit_exp q)"
  have q: "q = of_int ?M * 2 powi unit_exp q" using assms by (simp add: rne_def rne_pos_def Let_def)
  have "q < 2 powi (ilog2 q + 1)" using ilog2_bounds [OF assms(1)] by simp
  also have "\<dots> \<le> 2 powi (53 + unit_exp q)" by (rule powi2_mono) (simp add: unit_exp_def)
  also have "\<dots> = of_int (2 ^ 53) * 2 powi unit_exp q" by (simp add: powi2_add)
  finally have "of_int ?M * 2 powi unit_exp q < (of_int (2 ^ 53) * 2 powi unit_exp q :: rat)"
    using q by simp
  then have "?M < 2 ^ 53" by (simp only: mult_less_cancel_right of_int_less_iff) simp
  with q show ?thesis by (rule that)
qed

lemma rne_pos_above:
  assumes q: "0 < q" "rne q = q" and v: "q \<le> v" "v - q < 2 powi (unit_exp q - 1)"
  shows "rne_pos v = q"
proof -
  let ?U = "unit_exp q"
  obtain M where M: "q = of_int M * 2 powi ?U" "M < 2 ^ 53" using rne_pos_multiple [OF q] .
  have "v < q + 2 powi ?U" using v(2) powi2_pos [of ?U] unfolding powi2_half by linarith
  then have "v < of_int M * 2 powi ?U + 2 powi ?U" by (simp only: M(1) [symmetric])
  also have "\<dots> = of_int (M + 1) * 2 powi ?U" by (simp add: algebra_simps)
  also have "\<dots> \<le> of_int (2 ^ 53) * 2 powi ?U"
    using M(2) by (intro mult_right_mono) (simp_all only: of_int_le_iff, simp_all)
  also have "\<dots> = 2 powi (53 + ?U)" by (simp add: powi2_add)
  finally have "ilog2 v < 53 + ?U" using q(1) v(1) by (intro less_powi2_ilog2) auto
  then have "unit_exp v \<le> ?U" by (simp add: unit_exp_def)
  with unit_exp_mono [OF q(1) v(1)] have u: "unit_exp v = ?U" by simp
  show ?thesis by (rule rne_pos_unit) (use u M v in auto)
qed

lemma rne_pos_below:
  assumes q: "0 < q" "rne q = q" and v: "0 < v" "v < q" "q - v < 2 powi (unit_exp q - 1)"
    and power: "q = 2 powi ilog2 q \<Longrightarrow> q - v < 2 powi (unit_exp q - 2)"
  shows "rne_pos v = q"
proof -
  let ?U = "unit_exp q" and ?L = "ilog2 q"
  obtain M where M: "q = of_int M * 2 powi ?U" "M < 2 ^ 53" using rne_pos_multiple [OF q] .
  have le: "unit_exp v \<le> ?U" using v by (intro unit_exp_mono) auto
  show ?thesis
  proof (cases "unit_exp v = ?U")
    case True
    show ?thesis by (rule rne_pos_unit) (use True M v in auto)
  next
    case False
    with le have U: "?U = ?L - 52" and less: "ilog2 v < ?L" by (auto simp: unit_exp_def split: if_splits)
    have "v < 2 powi (ilog2 v + 1)" using ilog2_bounds [OF v(1)] by simp
    also have "\<dots> \<le> 2 powi ?L" using less by (intro powi2_mono) simp
    finally have vL: "v < 2 powi ?L" .
    have L: "2 powi ?L = of_int (2 ^ 52) * (2 powi ?U :: rat)" using powi2_add [of 52 ?U] by (simp add: U)
    have "of_int M * 2 powi ?U < of_int (2 ^ 52) * 2 powi ?U + (2 powi ?U :: rat)"
      using v(3) vL powi2_pos [of ?U] unfolding powi2_half L M(1) [symmetric] by linarith
    also have "\<dots> = of_int (2 ^ 52 + 1) * 2 powi ?U" by (simp add: algebra_simps)
    finally have "M \<le> 2 ^ 52" by (simp only: mult_less_cancel_right of_int_less_iff) simp
    then have "of_int M * 2 powi ?U \<le> of_int (2 ^ 52) * (2 powi ?U :: rat)"
      by (intro mult_right_mono) (simp_all only: of_int_le_iff, simp_all)
    then have "q \<le> 2 powi ?L" by (simp only: L M(1) [symmetric])
    with ilog2_bounds [OF q(1)] have qL: "q = 2 powi ?L" by simp
    note close = power [OF qL]
    have "2 powi (?U - 2) \<le> (2 powi (?L - 1) :: rat)" using U by (intro powi2_mono) simp
    then have "2 powi (?L - 1) \<le> v" using close qL by (simp add: power_int_diff)
    then have "?L - 1 \<le> ilog2 v" using ilog2_bounds [OF v(1)] by (metis le_less_trans powi2_less_iff zle_add1_eq_le)
    with False le U have u: "unit_exp v = ?U - 1" by (auto simp: unit_exp_def split: if_splits)
    show ?thesis
    proof (rule rne_pos_unit)
      show "q = of_int (2 ^ 53) * 2 powi unit_exp v" using powi2_add [of 53 "?U - 1"] by (simp add: u U qL [symmetric])
      show "\<bar>v - q\<bar> < 2 powi (unit_exp v - 1)" using close v(2) by (simp add: u)
    qed
  qed
qed

subsection \<open>The shortest decimal\<close>

text \<open>Digits of an integer, computed on integers: \<open>digits (int n) = dec n\<close>.\<close>

function digits :: "int \<Rightarrow> string" where
  "digits n = (if n < 10 then [char_of (n + 48)] else digits (n div 10) @ [char_of (n mod 10 + 48)])"
  by pat_completeness auto
termination by (relation "measure nat") auto

declare digits.simps [simp del]

definition ilog10 :: "rat \<Rightarrow> int" where
  "ilog10 q =
     (let (n, d) = quotient_of q; e = int (length (digits n)) - int (length (digits d))
      in if 10 powi e \<le> q then e else e - 1)"

text \<open>
  The shortest decimal is looked for among the decimals of \<open>n = 1, 2, \<dots>\<close> digits next to the
  value: where one of the two is rounded back to the value it is taken, where both are the
  nearer one is (\<open>roundShortest\<close>).
\<close>

definition decimal_unit :: "rat \<Rightarrow> nat \<Rightarrow> int" where
  "decimal_unit q n = ilog10 q + 1 - int n"

definition decimal_at :: "rat \<Rightarrow> nat \<Rightarrow> int option" where
  "decimal_at q n =
     (let k = decimal_unit q n; s = q / 10 powi k; lo = \<lfloor>s\<rfloor>;
          okdown = (rne (of_int lo * 10 powi k) = q); okup = (rne (of_int (lo + 1) * 10 powi k) = q)
      in if okdown \<and> okup then Some (rhe s) else if okdown then Some lo else if okup then Some (lo + 1) else None)"

function stripZeros :: "int \<Rightarrow> int \<Rightarrow> int \<times> int" where
  "stripZeros d k = (if 0 < d \<and> d mod 10 = 0 then stripZeros (d div 10) (k + 1) else (d, k))"
  by pat_completeness auto
termination by (relation "measure (\<lambda>(d, k). nat d)") auto

declare stripZeros.simps [simp del]

definition shortest :: "rat \<Rightarrow> int \<times> int" where
  "shortest q =
     (case find (\<lambda>n. decimal_at q n \<noteq> None) [1..<18] of
        None \<Rightarrow> (0, 0)
      | Some n \<Rightarrow> (case decimal_at q n of None \<Rightarrow> (0, 0) | Some d \<Rightarrow> stripZeros d (decimal_unit q n)))"

text \<open>
  The layout: plain notation from \<open>10^-6\<close> up to \<open>10^21\<close>, with an exponent otherwise, and
  the zero an exponent of one digit starts with taken away.
\<close>

definition plainLayout :: "string \<Rightarrow> int \<Rightarrow> string" where
  "plainLayout ds dp =
     (if dp \<le> 0 then ''0.'' @ replicate (nat (- dp)) (CHR ''0'') @ ds
      else if int (length ds) \<le> dp then ds @ replicate (nat dp - length ds) (CHR ''0'')
      else take (nat dp) ds @ CHR ''.'' # drop (nat dp) ds)"

definition exponentLayout :: "string \<Rightarrow> int \<Rightarrow> string" where
  "exponentLayout ds dp =
     (take 1 ds @ (if length ds = 1 then [] else CHR ''.'' # drop 1 ds) @
      CHR ''e'' # (if dp - 1 < 0 then CHR ''-'' else CHR ''+'') # digits \<bar>dp - 1\<bar>)"

definition FormatFloat_pos :: "rat \<Rightarrow> string" where
  "FormatFloat_pos q =
     (let (d, k) = shortest q; ds = digits d; dp = int (length ds) + k
      in if q < rne (1 / 10 ^ 6) \<or> 10 ^ 21 \<le> q then exponentLayout ds dp else plainLayout ds dp)"

fun FormatFloat :: "float64 \<Rightarrow> string" where
  "FormatFloat NaN = ''NaN''"
| "FormatFloat PInf = ''+Inf''"
| "FormatFloat NInf = ''-Inf''"
| "FormatFloat (Fin q) =
     (if q = 0 then ''0'' else if 0 < q then FormatFloat_pos q else CHR ''-'' # FormatFloat_pos (- q))"

subsection \<open>Numbers of JSON\<close>

definition span_digits :: "string \<Rightarrow> string \<times> string" where
  "span_digits s = (takeWhile is_digit s, dropWhile is_digit s)"

text \<open>The value of a number is exact; \<open>ParseFloat\<close> then rounds it and reports overflow.\<close>

definition fractionDigits :: "string \<Rightarrow> (string \<times> string) option" where
  "fractionDigits s =
     (case s of
        c # r \<Rightarrow> if c = CHR ''.'' then (case span_digits r of (fp, r) \<Rightarrow> if fp = [] then None else Some (fp, r))
          else Some ([], s)
      | [] \<Rightarrow> Some ([], s))"

definition exponentPart :: "string \<Rightarrow> (int \<times> string) option" where
  "exponentPart s =
     (case s of
        c # r \<Rightarrow>
          if c = CHR ''e'' \<or> c = CHR ''E''
          then (let (neg, r) = splitSign r; (ds, r) = span_digits r; e = decimal_value ds 0
                in if ds = [] then None else Some (if neg then - e else e, r))
          else Some (0, s)
      | [] \<Rightarrow> Some (0, s))"

definition unsignedNumber :: "string \<Rightarrow> (rat \<times> string) option" where
  "unsignedNumber s =
     (case s of
        [] \<Rightarrow> None
      | c # r \<Rightarrow>
          if \<not> is_digit c then None
          else let (ip, r) = (if c = CHR ''0'' then ([c], r) else span_digits s)
               in (case fractionDigits r of
                     None \<Rightarrow> None
                   | Some (fp, r) \<Rightarrow>
                       (case exponentPart r of
                          None \<Rightarrow> None
                        | Some (e, r) \<Rightarrow>
                            Some (of_int (decimal_value (ip @ fp) 0) * 10 powi (e - int (length fp)), r))))"

definition json_number :: "string \<Rightarrow> (rat \<times> string) option" where
  "json_number s =
     (case s of
        c # r \<Rightarrow> if c = CHR ''-'' then (case unsignedNumber r of None \<Rightarrow> None | Some (q, r) \<Rightarrow> Some (- q, r))
          else unsignedNumber s
      | [] \<Rightarrow> None)"

subsection \<open>Seventeen digits are enough\<close>

lemma digits_dec: "digits (int n) = dec n"
proof (induction n rule: dec.induct)
  case (1 n)
  have "int n div 10 = int (n div 10)" "int n mod 10 = int (n mod 10)" by (simp_all add: zdiv_int zmod_int)
  moreover have "char_of (int m + 48) = (char_of (m + 48) :: char)" for m
    using char_of_nat [of "m + 48", where 'a = int] by simp
  ultimately show ?case using 1 by (subst digits.simps, subst dec.simps) simp
qed

lemma digits_facts:
  assumes "0 \<le> n"
  shows "list_all is_digit (digits n)" "digits n \<noteq> []" "decimal_value (digits n) 0 = n"
  using dec_digits [of "nat n"] decimal_value_dec [of "nat n"] assms digits_dec [of "nat n"] by simp_all

lemma digits_bounds: "0 < n \<Longrightarrow> digits n \<noteq> [] \<and> hd (digits n) \<noteq> CHR ''0'' \<and>
    10 ^ (length (digits n) - 1) \<le> n \<and> n < 10 ^ length (digits n)"
proof (induction n rule: digits.induct)
  case (1 n)
  show ?case
  proof (cases "n < 10")
    case True
    with "1.prems" have "n \<in> {1, 2, 3, 4, 5, 6, 7, 8, 9}" by auto
    moreover have "digits n = [char_of (n + 48)]" using True by (subst digits.simps) simp
    ultimately show ?thesis by (auto simp: char_of_def)
  next
    case False
    define m where "m = n div 10"
    have m: "0 < m" "10 * m \<le> n" "n < 10 * m + 10" using False by (auto simp: m_def)
    have ih: "digits m \<noteq> []" "hd (digits m) \<noteq> CHR ''0''" "10 ^ (length (digits m) - 1) \<le> m" "m < 10 ^ length (digits m)"
      using "1.IH" False m(1) by (simp_all add: m_def)
    have eq: "digits n = digits m @ [char_of (n mod 10 + 48)]" using False by (subst digits.simps) (simp add: m_def)
    obtain j where j: "length (digits m) = Suc j" using ih(1) by (cases "digits m") auto
    have "10 ^ Suc j \<le> n" using ih(3) m(2) j by simp
    moreover have "m + 1 \<le> 10 ^ Suc j" using ih(4) j by simp
    then have "n < 10 ^ Suc (Suc j)" using m(3) by simp
    ultimately show ?thesis using ih(1,2) by (simp add: eq j hd_append)
  qed
qed

lemma powi10_pos [simp]: "(0::rat) < 10 powi k"
  by simp

lemma powi10_add: "(10::rat) powi (a + b) = 10 powi a * 10 powi b"
  by (simp add: power_int_add)

lemma digits_rat_bounds:
  assumes "0 < n"
  shows "10 powi (int (length (digits n)) - 1) \<le> (of_int n :: rat)" "(of_int n :: rat) < 10 powi int (length (digits n))"
proof -
  note b = digits_bounds [OF assms]
  obtain j where j: "length (digits n) = Suc j" using b by (cases "digits n") auto
  have "(of_int (10 ^ j) :: rat) \<le> of_int n" using b j by (simp only: of_int_le_iff) simp
  then show "10 powi (int (length (digits n)) - 1) \<le> (of_int n :: rat)" by (simp add: j)
  have "(of_int n :: rat) < of_int (10 ^ Suc j)" using b j by (simp only: of_int_less_iff)
  then show "(of_int n :: rat) < 10 powi int (length (digits n))"
    by (simp only: j power_int_of_nat of_int_power of_int_numeral)
qed

lemma ilog10_bounds:
  assumes "0 < q"
  shows "10 powi ilog10 q \<le> q \<and> q < 10 powi (ilog10 q + 1)"
proof -
  obtain n d where nd: "quotient_of q = (n, d)" by (cases "quotient_of q")
  have d: "d > 0" using nd by (rule quotient_of_denom_pos)
  have q: "q = of_int n / of_int d" using nd by (rule quotient_of_div)
  with assms d have n: "n > 0" by (simp add: zero_less_divide_iff)
  define e where "e = int (length (digits n)) - int (length (digits d))"
  note rn = digits_rat_bounds [OF n] and rd = digits_rat_bounds [OF d]
  have "of_int n < 10 powi (e + 1) * (10 powi (int (length (digits d)) - 1) :: rat)"
    using rn(2) by (simp only: powi10_add [symmetric]) (simp add: e_def)
  also have "\<dots> \<le> 10 powi (e + 1) * of_int d" using rd(1) by simp
  finally have up: "q < 10 powi (e + 1)" using d by (simp add: q divide_less_eq)
  have "10 powi (e - 1) * of_int d \<le> (10 powi (e - 1) * 10 powi (int (length (digits d))) :: rat)"
    using rd(2) by simp
  also have "\<dots> = 10 powi (int (length (digits n)) - 1)"
    by (simp only: powi10_add [symmetric]) (simp add: e_def)
  also have "\<dots> \<le> of_int n" by (rule rn(1))
  finally have lo: "10 powi (e - 1) \<le> q" using d by (simp add: q le_divide_eq)
  have "ilog10 q = (if 10 powi e \<le> q then e else e - 1)" by (simp add: ilog10_def nd e_def Let_def)
  with up lo show ?thesis by auto
qed


lemma decimal_at_value:
  assumes "decimal_at q n = Some d"
  shows "rne (of_int d * 10 powi decimal_unit q n) = q"
  using assms rhe_cases [of "q / 10 powi decimal_unit q n"]
  by (auto simp: decimal_at_def Let_def split: if_splits)

lemma ten16_powi: "(10::rat) powi k * 10 powi 16 \<le> 2 powi m \<Longrightarrow> 10 powi k < (2::rat) powi (m - 53)"
proof -
  assume a: "(10::rat) powi k * 10 powi 16 \<le> 2 powi m"
  have "(10::rat) powi k * 2 powi 53 < 10 powi k * 10 powi 16" by (rule mult_strict_left_mono) simp_all
  also have "\<dots> \<le> 2 powi (m - 53) * 2 powi 53" using a by (simp only: powi2_add [symmetric]) simp
  finally show ?thesis by simp
qed

lemma decimal_at_17:
  assumes q: "0 < q" "rne q = q"
  shows "decimal_at q 17 \<noteq> None"
proof -
  define k where "k = decimal_unit q 17"
  define d where "d = rhe (q / 10 powi k)"
  define v :: rat where "v = of_int d * 10 powi k"
  have k: "ilog10 q = k + 16" by (simp add: k_def decimal_unit_def)
  have lo: "10 powi k * 10 powi 16 \<le> q" using ilog10_bounds [OF q(1)] by (simp only: k powi10_add)
  moreover have "(10::rat) powi k * 1 \<le> 10 powi k * 10 powi 16" by (rule mult_left_mono) simp_all
  ultimately have "10 powi k \<le> q" by linarith
  then have "1 \<le> q / 10 powi k" by (simp add: le_divide_eq)
  then have "1 \<le> d" unfolding d_def by (intro rhe_ge) simp
  then have v0: "0 < v" by (simp add: v_def)
  have "v - q = (of_int d - q / 10 powi k) * 10 powi k" by (simp add: v_def left_diff_distrib)
  then have "\<bar>v - q\<bar> = \<bar>of_int d - q / 10 powi k\<bar> * 10 powi k" by (simp add: abs_mult)
  also have "\<dots> \<le> 1 / 2 * 10 powi k" unfolding d_def by (rule mult_right_mono [OF rhe_nearest]) simp
  finally have err: "\<bar>v - q\<bar> \<le> 10 powi k / 2" by simp
  have "q < 2 powi (ilog2 q + 1)" using ilog2_bounds [OF q(1)] by simp
  also have "\<dots> \<le> 2 powi (unit_exp q + 53)" by (rule powi2_mono) (simp add: unit_exp_def)
  finally have "10 powi k < (2::rat) powi unit_exp q" using lo ten16_powi [of k "unit_exp q + 53"] by simp
  with err have near: "\<bar>v - q\<bar> < 2 powi (unit_exp q - 1)" unfolding powi2_half by linarith
  have power: "\<bar>v - q\<bar> < 2 powi (unit_exp q - 2)" if "q = 2 powi ilog2 q"
  proof -
    have "10 powi k * 10 powi 16 \<le> (2 powi ilog2 q :: rat)" using lo that by simp
    also have "\<dots> \<le> 2 powi (unit_exp q + 52)" by (rule powi2_mono) (simp add: unit_exp_def)
    finally have "10 powi k < (2::rat) powi (unit_exp q - 1)" using ten16_powi [of k "unit_exp q + 52"] by simp
    with err show ?thesis using powi2_half [of "unit_exp q - 1"] by simp
  qed
  have "rne_pos v = q"
    using rne_pos_above [OF q, of v] rne_pos_below [OF q v0] near power by (cases "q \<le> v") auto
  then have "rne v = q" using v0 by (simp add: rne_def)
  then have "rne (of_int d * 10 powi k) = q" by (simp only: v_def)
  then show ?thesis using rhe_cases [of "q / 10 powi k"]
    by (auto simp: decimal_at_def Let_def d_def k_def)
qed

lemma stripZeros_value:
  "stripZeros d k = (d', k') \<Longrightarrow> (of_int d' * 10 powi k' :: rat) = of_int d * 10 powi k \<and> (0 < d \<longrightarrow> 0 < d')"
proof (induction d k arbitrary: d' k' rule: stripZeros.induct)
  case (1 d k)
  show ?case
  proof (cases "0 < d \<and> d mod 10 = 0")
    case True
    then obtain e where e: "d = 10 * e" "0 < e" by (metis mod_eq_0_iff_dvd dvdE zero_less_mult_iff zero_less_numeral not_numeral_less_zero)
    with True "1.prems" have "stripZeros e (k + 1) = (d', k')" by (subst (asm) stripZeros.simps) simp
    with "1.IH" True e show ?thesis by (simp add: powi10_add)
  next
    case False
    with "1.prems" show ?thesis by (subst (asm) stripZeros.simps) auto
  qed
qed

lemma shortest_value:
  assumes q: "0 < q" "rne q = q" and "shortest q = (d, k)"
  shows "0 < d" and "rne (of_int d * 10 powi k) = q"
proof -
  have "find (\<lambda>n. decimal_at q n \<noteq> None) [1..<18] \<noteq> None"
    using decimal_at_17 [OF q] by (auto simp: find_None_iff intro: exI [of _ 17])
  then obtain n d0 where n: "find (\<lambda>n. decimal_at q n \<noteq> None) [1..<18] = Some n" "decimal_at q n = Some d0"
    by (auto simp: find_Some_iff)
  let ?v = "of_int d0 * 10 powi decimal_unit q n :: rat"
  have v: "rne ?v = q" using decimal_at_value [OF n(2)] .
  have "0 < d0"
  proof (rule ccontr)
    assume "\<not> 0 < d0"
    then have "?v \<le> 0" by (simp add: mult_le_0_iff)
    then show False using rne_nonpos [of ?v] v q(1) by simp
  qed
  moreover have "stripZeros d0 (decimal_unit q n) = (d, k)" using assms(3) n by (simp add: shortest_def)
  ultimately show "0 < d" "rne (of_int d * 10 powi k) = q" using stripZeros_value v by metis+
qed

subsection \<open>Reading back what is printed\<close>

definition no_digit :: "string \<Rightarrow> bool" where
  "no_digit r \<longleftrightarrow> r = [] \<or> \<not> is_digit (hd r)"

text \<open>What may follow a number: nothing that would continue it.\<close>

definition number_end :: "string \<Rightarrow> bool" where
  "number_end r \<longleftrightarrow> r = [] \<or> (\<not> is_digit (hd r) \<and> hd r \<noteq> CHR ''.'' \<and> hd r \<noteq> CHR ''e'' \<and> hd r \<noteq> CHR ''E'')"

lemma number_end_no_digit: "number_end r \<Longrightarrow> no_digit r"
  by (auto simp: number_end_def no_digit_def)

lemma no_digit_simps [simp]: "no_digit []" "no_digit (CHR ''.'' # r)" "no_digit (CHR ''e'' # r)"
  by (simp_all add: no_digit_def is_digit_def)

lemma span_digits_app: "list_all is_digit ds \<Longrightarrow> no_digit r \<Longrightarrow> span_digits (ds @ r) = (ds, r)"
  by (cases r) (auto simp: span_digits_def no_digit_def list_all_iff takeWhile_append dropWhile_append)

lemma decimal_value_app: "decimal_value (a @ b) n = decimal_value b (decimal_value a n)"
  by (simp add: decimal_value_def)

lemma digit_0 [simp]: "digit (CHR ''0'') = 0"
  by (simp add: digit_def)

lemma is_digit_0 [simp]: "is_digit (CHR ''0'')"
  by (simp add: is_digit_def)

lemma decimal_value_zeros: "decimal_value (replicate m (CHR ''0'')) n = n * 10 ^ m"
  by (induction m arbitrary: n) (simp_all add: decimal_value_def)

lemma fractionDigits_none: "r = [] \<or> hd r \<noteq> CHR ''.'' \<Longrightarrow> fractionDigits r = Some ([], r)"
  by (cases r) (auto simp: fractionDigits_def)

lemma fractionDigits_digits:
  "list_all is_digit fp \<Longrightarrow> fp \<noteq> [] \<Longrightarrow> no_digit r \<Longrightarrow> fractionDigits (CHR ''.'' # fp @ r) = Some (fp, r)"
  by (simp add: fractionDigits_def span_digits_app)

lemma exponentPart_none: "number_end r \<Longrightarrow> exponentPart r = Some (0, r)"
  by (cases r) (auto simp: exponentPart_def number_end_def)

lemma exponentPart_digits:
  assumes "number_end r"
  shows "exponentPart (CHR ''e'' # (if e < 0 then CHR ''-'' else CHR ''+'') # digits \<bar>e\<bar> @ r) = Some (e, r)"
  using digits_facts [of "\<bar>e\<bar>"] span_digits_app [of "digits \<bar>e\<bar>" r] number_end_no_digit [OF assms]
  by (auto simp: exponentPart_def splitSign_def)

lemma unsignedNumber_parts:
  assumes "list_all is_digit ip" "ip = ''0'' \<or> (ip \<noteq> [] \<and> hd ip \<noteq> CHR ''0'')" "no_digit t"
    and "fractionDigits t = Some (fp, u)" and "exponentPart u = Some (e, r)"
  shows "unsignedNumber (ip @ t) = Some (of_int (decimal_value (ip @ fp) 0) * 10 powi (e - int (length fp)), r)"
proof (cases "ip = ''0''")
  case True
  then show ?thesis using assms by (simp add: unsignedNumber_def)
next
  case False
  with assms(2) obtain c ds where ip: "ip = c # ds" "c \<noteq> CHR ''0''" by (cases ip) auto
  have "span_digits (c # ds @ t) = (ip, t)" using span_digits_app [OF assms(1,3)] by (simp add: ip)
  with assms ip show ?thesis by (simp add: unsignedNumber_def)
qed

lemma plainLayout_read:
  assumes "list_all is_digit ds" "ds \<noteq> []" "hd ds \<noteq> CHR ''0''" "number_end r"
  shows "unsignedNumber (plainLayout ds dp @ r) =
    Some (of_int (decimal_value ds 0) * 10 powi (dp - int (length ds)), r)"
proof -
  note stop = number_end_no_digit [OF assms(4)] exponentPart_none [OF assms(4)]
  have dot: "r = [] \<or> hd r \<noteq> CHR ''.''" using assms(4) by (auto simp: number_end_def)
  consider "dp \<le> 0" | "0 < dp" "int (length ds) \<le> dp" | "0 < dp" "dp < int (length ds)" by linarith
  then show ?thesis
  proof cases
    case 1
    let ?fp = "replicate (nat (- dp)) (CHR ''0'') @ ds"
    have "unsignedNumber (''0'' @ CHR ''.'' # ?fp @ r) =
        Some (of_int (decimal_value (''0'' @ ?fp) 0) * 10 powi (0 - int (length ?fp)), r)"
      by (rule unsignedNumber_parts [where u = r])
        (use assms stop in \<open>auto simp: list_all_iff intro!: fractionDigits_digits [of ?fp, simplified]\<close>)
    moreover have "decimal_value (''0'' @ ?fp) 0 = decimal_value ds 0"
      using decimal_value_zeros [of "Suc (nat (- dp))" 0] decimal_value_app [of "''0'' @ replicate (nat (- dp)) (CHR ''0'')" ds 0]
      by simp
    ultimately show ?thesis using 1 by (simp add: plainLayout_def)
  next
    case 2
    let ?ip = "ds @ replicate (nat dp - length ds) (CHR ''0'')"
    have "unsignedNumber (?ip @ r) = Some (of_int (decimal_value (?ip @ []) 0) * 10 powi (0 - int (length ([] :: string))), r)"
      by (rule unsignedNumber_parts [where u = r])
        (use assms stop dot in \<open>auto simp: list_all_iff intro!: fractionDigits_none\<close>)
    moreover have "(10::rat) ^ (nat dp - length ds) = 10 powi (dp - int (length ds))"
      using 2 by (simp add: power_int_def nat_diff_distrib)
    ultimately show ?thesis using 2 by (simp add: plainLayout_def decimal_value_app decimal_value_zeros)
  next
    case 3
    let ?ip = "take (nat dp) ds" and ?fp = "drop (nat dp) ds"
    have d: "list_all is_digit ?ip" "list_all is_digit ?fp" using assms(1) by (auto simp: list_all_iff dest: in_set_takeD in_set_dropD)
    have "unsignedNumber (?ip @ CHR ''.'' # ?fp @ r) =
        Some (of_int (decimal_value (?ip @ ?fp) 0) * 10 powi (0 - int (length ?fp)), r)"
      by (rule unsignedNumber_parts [where u = r])
        (use assms stop d 3 in \<open>auto intro!: fractionDigits_digits simp: hd_take\<close>)
    then show ?thesis using 3 by (simp add: plainLayout_def)
  qed
qed

lemma exponentLayout_read:
  assumes "list_all is_digit ds" "ds \<noteq> []" "hd ds \<noteq> CHR ''0''" "number_end r"
  shows "unsignedNumber (exponentLayout ds dp @ r) =
    Some (of_int (decimal_value ds 0) * 10 powi (dp - int (length ds)), r)"
proof -
  let ?ex = "CHR ''e'' # (if dp - 1 < 0 then CHR ''-'' else CHR ''+'') # digits \<bar>dp - 1\<bar> @ r"
  obtain c fp where ds: "ds = c # fp" using assms(2) by (cases ds) auto
  have ex: "exponentPart ?ex = Some (dp - 1, r)" by (rule exponentPart_digits [OF assms(4)])
  have "unsignedNumber ([c] @ (if fp = [] then ?ex else CHR ''.'' # fp @ ?ex)) =
      Some (of_int (decimal_value ([c] @ fp) 0) * 10 powi (dp - 1 - int (length fp)), r)"
    by (rule unsignedNumber_parts [where u = ?ex])
      (use assms ds ex in \<open>auto simp: fractionDigits_none intro!: fractionDigits_digits\<close>)
  moreover have "dp - 1 - int (length fp) = dp - int (length ds)" by (simp add: ds)
  ultimately show ?thesis by (cases "fp = []") (simp_all add: exponentLayout_def ds)
qed


text \<open>Texts that the grammar of numbers reads completely, whatever follows.\<close>

definition unsigned_text :: "string \<Rightarrow> rat \<Rightarrow> bool" where
  "unsigned_text t v \<longleftrightarrow> (\<forall>r. number_end r \<longrightarrow> unsignedNumber (t @ r) = Some (v, r))"

definition number_text :: "string \<Rightarrow> rat \<Rightarrow> bool" where
  "number_text t v \<longleftrightarrow> (\<forall>r. number_end r \<longrightarrow> json_number (t @ r) = Some (v, r))"

lemma unsigned_text_digits:
  assumes "0 \<le> n"
  shows "unsigned_text (digits n) (of_int n)"
proof -
  have "digits n = ''0'' \<or> (digits n \<noteq> [] \<and> hd (digits n) \<noteq> CHR ''0'')"
  proof (cases "n = 0")
    case True
    then show ?thesis by (simp add: digits.simps char_of_def)
  next
    case False
    then show ?thesis using digits_bounds [of n] assms by simp
  qed
  then have "unsignedNumber (digits n @ r) = Some (of_int (decimal_value (digits n @ []) 0) * 10 powi (0 - int (length ([] :: string))), r)"
    if "number_end r" for r
    using that digits_facts [OF assms] by (intro unsignedNumber_parts [where u = r] fractionDigits_none exponentPart_none)
      (auto simp: number_end_no_digit number_end_def)
  then show ?thesis using digits_facts [OF assms] by (simp add: unsigned_text_def)
qed

lemma FormatFloat_pos_read:
  assumes "0 < q" and "rne q = q"
  obtains v where "unsigned_text (FormatFloat_pos q) v" and "rne v = q"
proof -
  obtain d k where s: "shortest q = (d, k)" by (cases "shortest q")
  note d = shortest_value [OF assms s]
  have ds: "list_all is_digit (digits d)" "digits d \<noteq> []" "hd (digits d) \<noteq> CHR ''0''" "decimal_value (digits d) 0 = d"
    using d(1) digits_facts [of d] digits_bounds [of d] by simp_all
  have "unsigned_text (FormatFloat_pos q) (of_int d * 10 powi k)"
    using plainLayout_read [OF ds(1-3), of _ "int (length (digits d)) + k"]
      exponentLayout_read [OF ds(1-3), of _ "int (length (digits d)) + k"]
    by (simp add: unsigned_text_def FormatFloat_pos_def s Let_def ds(4))
  with d(2) show ?thesis by (rule that [rotated])
qed

lemma unsignedNumber_digit: "unsignedNumber s = Some v \<Longrightarrow> s \<noteq> [] \<and> is_digit (hd s)"
  by (cases s) (auto simp: unsignedNumber_def split: if_splits)

lemma json_number_unsigned: "unsignedNumber s = Some v \<Longrightarrow> json_number s = Some v"
  using unsignedNumber_digit [of s v] by (cases s) (auto simp: json_number_def is_digit_def)

lemma number_text_unsigned: "unsigned_text t v \<Longrightarrow> number_text t v"
  by (simp add: unsigned_text_def number_text_def json_number_unsigned)

lemma number_text_minus: "unsigned_text t v \<Longrightarrow> number_text (CHR ''-'' # t) (- v)"
  by (simp add: unsigned_text_def number_text_def json_number_def)

definition FormatInt :: "int \<Rightarrow> string" where
  "FormatInt n = (if n < 0 then CHR ''-'' # digits (- n) else digits n)"

lemma number_text_Int: "number_text (FormatInt n) (of_int n)"
  using number_text_minus [OF unsigned_text_digits, of "- n"] number_text_unsigned [OF unsigned_text_digits, of n]
  by (simp add: FormatInt_def)

lemma number_text_Format:
  assumes "exact64 q"
  obtains v where "number_text (FormatFloat (Fin q)) v" and "f64 v = Fin q"
proof -
  have fin: "f64 v = Fin q" if "rne v = q" for v
    using assms that by (auto simp: f64_def exact64_def Let_def abs_less_iff)
  consider "q = 0" | "0 < q" | "q < 0" by linarith
  then show thesis
  proof cases
    case 1
    have "number_text ''0'' 0" using number_text_Int [of 0] by (simp add: FormatInt_def digits.simps char_of_def)
    with 1 fin show thesis by (intro that [of 0]) simp_all
  next
    case 2
    then obtain v where "unsigned_text (FormatFloat_pos q) v" "rne v = q"
      using FormatFloat_pos_read [of q] assms by (auto simp: exact64_def)
    with 2 show thesis by (intro that [of v] fin) (auto intro: number_text_unsigned)
  next
    case 3
    then obtain v where "unsigned_text (FormatFloat_pos (- q)) v" "rne v = - q"
      using FormatFloat_pos_read [of "- q"] assms by (auto simp: exact64_def rne_minus)
    with 3 show thesis by (intro that [of "- v"] fin) (auto simp: rne_minus intro: number_text_minus)
  qed
qed

lemma json_number_hd: "json_number s = Some v \<Longrightarrow> s \<noteq> [] \<and> (hd s = CHR ''-'' \<or> is_digit (hd s))"
  by (cases s) (auto simp: json_number_def dest: unsignedNumber_digit split: if_splits)

lemma number_text_empty: "number_text t v \<Longrightarrow> json_number t = Some (v, [])"
  unfolding number_text_def by (drule spec [of _ "[]"]) (simp add: number_end_def)

lemma number_text_hd: "number_text t v \<Longrightarrow> \<exists>c u. t = c # u \<and> (c = CHR ''-'' \<or> is_digit c)"
  using json_number_hd [OF number_text_empty, of t v] by (cases t) auto

subsection \<open>A number consumes its text\<close>

lemma span_digits_length: "span_digits s = (ds, r) \<Longrightarrow> length s = length ds + length r"
  using takeWhile_dropWhile_id [of is_digit s] by (metis span_digits_def Pair_inject length_append)

lemma fractionDigits_length: "fractionDigits s = Some (fp, r) \<Longrightarrow> length r \<le> length s"
  by (auto simp: fractionDigits_def split: list.splits if_splits prod.splits dest: span_digits_length)

lemma splitSign_length: "splitSign s = (neg, r) \<Longrightarrow> length r \<le> length s"
  by (auto simp: splitSign_def split: list.splits if_splits)

lemma exponentPart_length: "exponentPart s = Some (e, r) \<Longrightarrow> length r \<le> length s"
  by (fastforce simp: exponentPart_def Let_def split: list.splits if_splits prod.splits
      dest: span_digits_length splitSign_length)

lemma unsignedNumber_length:
  assumes "unsignedNumber s = Some (q, r)"
  shows "length r < length s"
proof -
  obtain c s1 where s: "s = c # s1" "is_digit c" using unsignedNumber_digit [OF assms] by (cases s) auto
  define ip where "ip = fst (if c = CHR ''0'' then ([c], s1) else span_digits s)"
  define t where "t = snd (if c = CHR ''0'' then ([c], s1) else span_digits s)"
  have "length t < length s"
    using s span_digits_length [of s ip t] by (auto simp: ip_def t_def span_digits_def)
  moreover obtain fp u e where "fractionDigits t = Some (fp, u)" "exponentPart u = Some (e, r)"
    using assms s by (auto simp: unsignedNumber_def Let_def t_def split: prod.splits option.splits if_splits)
  ultimately show ?thesis using fractionDigits_length [of t] exponentPart_length [of u] by fastforce
qed

lemma json_number_length: "json_number s = Some (q, r) \<Longrightarrow> length r < length s"
  by (auto simp: json_number_def split: list.splits if_splits option.splits dest: unsignedNumber_length)

end
