(* ===== verification/Json.thy ===== *)
theory Json
  imports NetUrl Encoding Decimal "HOL-Library.AList"
begin

text \<open>
  encoding/json: values, \<open>Marshal\<close> and the first value a \<open>Decoder\<close> reads from its input.
  A Go map is printed with its keys sorted (\<open>JObj\<close>), a struct in the order of its fields
  (\<open>JStruct\<close>). The decoder follows the scanner: white space, the grammar of the literals,
  the escapes of strings with surrogate pairs, invalid UTF-8 replaced, and the limit on the
  nesting depth. What is printed is read back, up to the order of the keys of maps, so two
  maps with the same JSON text are equal.
\<close>

subsection \<open>JSON\<close>

text \<open>
  \<open>JNegZero\<close> is the float64 \<open>-0\<close>: it is equal to 0 in Go, but an \<open>any\<close> decoded from \<open>-0\<close> holds it
  and is printed with the sign.
\<close>

datatype json =
  JNull | JBool bool | JInt int | JNum float64 | JNegZero | JStr string | JArr "json list"
  | JObj "(string \<times> json) list" | JStruct "(string \<times> json) list"

text \<open>
  What a text is parsed to: literals of numbers stay text until it is known what they are
  decoded into, and members stay in their order, repeated keys included.
\<close>

datatype json_tree =
  TNull | TBool bool | TNum string | TStr string | TArr "json_tree list" | TObj "(string \<times> json_tree) list"

text \<open>
  The length of the UTF-8 encoding at the start of a string, 0 if it is invalid
  (\<open>utf8.DecodeRune\<close>).
\<close>

definition cont :: "nat \<Rightarrow> nat \<Rightarrow> nat \<Rightarrow> bool" where
  "cont lo c hi \<longleftrightarrow> lo \<le> c \<and> c \<le> hi"

fun rune_length :: "nat list \<Rightarrow> nat" where
  "rune_length [] = 0"
| "rune_length (a # s) =
     (if a < 0x80 then 1
      else case s of
        [] \<Rightarrow> 0
      | b # r \<Rightarrow>
          if cont 0xC2 a 0xDF then (if cont 0x80 b 0xBF then 2 else 0)
          else if cont 0xE0 a 0xEF
          then (if cont (if a = 0xE0 then 0xA0 else 0x80) b (if a = 0xED then 0x9F else 0xBF)
                then (case r of [] \<Rightarrow> 0 | c # _ \<Rightarrow> if cont 0x80 c 0xBF then 3 else 0) else 0)
          else if cont 0xF0 a 0xF4
          then (if cont (if a = 0xF0 then 0x90 else 0x80) b (if a = 0xF4 then 0x8F else 0xBF)
                then (case r of c # d # _ \<Rightarrow> if cont 0x80 c 0xBF \<and> cont 0x80 d 0xBF then 4 else 0 | _ \<Rightarrow> 0) else 0)
          else 0)"

definition first_rune :: "string \<Rightarrow> nat" where
  "first_rune s = rune_length (map of_char (take 4 s))"

definition json_ascii :: "char \<Rightarrow> string" where
  "json_ascii c =
     (if c = CHR 0x22 \<or> c = CHR 0x5C then [CHR 0x5C, c]
      else if c = CHR 0x08 then [CHR 0x5C, CHR ''b'']
      else if c = CHR 0x0C then [CHR 0x5C, CHR ''f'']
      else if c = CHR 0x0A then [CHR 0x5C, CHR ''n'']
      else if c = CHR 0x0D then [CHR 0x5C, CHR ''r'']
      else if c = CHR 0x09 then [CHR 0x5C, CHR ''t'']
      else if (of_char c :: nat) < 32 \<or> c \<in> set ''<>&''
      then [CHR 0x5C, CHR ''u'', CHR ''0'', CHR ''0'', hex_lower (of_char c div 16), hex_lower (of_char c mod 16)]
      else [c])"

function json_chars :: "string \<Rightarrow> string" where
  "json_chars [] = []"
| "json_chars (c # s) =
     (if (of_char c :: nat) < 128 then json_ascii c @ json_chars s
      else let n = first_rune (c # s)
           in if n = 0 then CHR 0x5C # ''ufffd'' @ json_chars s
              else if take n (c # s) = [CHR 0xE2, CHR 0x80, CHR 0xA8] then CHR 0x5C # ''u2028'' @ json_chars (drop (n - 1) s)
              else if take n (c # s) = [CHR 0xE2, CHR 0x80, CHR 0xA9] then CHR 0x5C # ''u2029'' @ json_chars (drop (n - 1) s)
              else take n (c # s) @ json_chars (drop (n - 1) s))"
  by pat_completeness auto
termination by (relation "measure length") auto

declare json_chars.simps [simp del]

definition json_string :: "string \<Rightarrow> string" where
  "json_string s = CHR 0x22 # json_chars s @ [CHR 0x22]"

fun join_comma :: "string list \<Rightarrow> string" where
  "join_comma [] = []"
| "join_comma [e] = e"
| "join_comma (e # es) = e @ CHR '','' # join_comma es"

text \<open>
  \<open>json.Marshal\<close>: keys of maps are sorted; numbers that are not finite are an error.
\<close>

fun json_print :: "json \<Rightarrow> string" where
  "json_print JNull = ''null''"
| "json_print (JBool b) = (if b then ''true'' else ''false'')"
| "json_print (JInt n) = FormatInt n"
| "json_print (JNum x) = FormatFloat x"
| "json_print JNegZero = ''-0''"
| "json_print (JStr s) = json_string s"
| "json_print (JArr vs) = CHR ''['' # join_comma (map json_print vs) @ '']''"
| "json_print (JObj kvs) =
     CHR ''{'' # join_comma (map (\<lambda>e. json_string (fst e) @ CHR '':'' # snd e)
       (sort_key fst (map (\<lambda>e. (fst e, json_print (snd e))) kvs))) @ ''}''"
| "json_print (JStruct kvs) =
     CHR ''{'' # join_comma (map (\<lambda>e. json_string (fst e) @ CHR '':'' # json_print (snd e)) kvs) @ ''}''"

fun json_finite :: "json \<Rightarrow> bool" where
  "json_finite (JNum x) = is_finite x"
| "json_finite (JArr vs) = list_all json_finite vs"
| "json_finite (JObj kvs) = list_all (\<lambda>e. json_finite (snd e)) kvs"
| "json_finite (JStruct kvs) = list_all (\<lambda>e. json_finite (snd e)) kvs"
| "json_finite _ = True"

definition json_Marshal :: "json \<Rightarrow> string option" where
  "json_Marshal v = (if json_finite v then Some (json_print v) else None)"

subsection \<open>Reading strings\<close>

definition utf8_encode :: "nat \<Rightarrow> string" where
  "utf8_encode r =
     map char_of
       (if r < 0x80 then [r]
        else if r < 0x800 then [0xC0 + r div 64, 0x80 + r mod 64]
        else if r < 0x10000 then [0xE0 + r div 4096, 0x80 + r div 64 mod 64, 0x80 + r mod 64]
        else [0xF0 + r div 262144, 0x80 + r div 4096 mod 64, 0x80 + r div 64 mod 64, 0x80 + r mod 64])"

definition replacementChar :: string where
  "replacementChar = utf8_encode 0xFFFD"

definition between_nat :: "nat \<Rightarrow> nat \<Rightarrow> nat \<Rightarrow> bool" where
  "between_nat lo n hi \<longleftrightarrow> lo \<le> n \<and> n \<le> hi"

text \<open>Four hexadecimal digits.\<close>

definition getu4 :: "string \<Rightarrow> nat option" where
  "getu4 s =
     (case map unhex (take 4 s) of
        [Some a, Some b, Some c, Some d] \<Rightarrow> Some (a * 4096 + b * 256 + c * 16 + d)
      | _ \<Rightarrow> None)"

text \<open>The second half of a surrogate pair, if the input goes on with one.\<close>

definition lowSurrogate :: "string \<Rightarrow> nat option" where
  "lowSurrogate s =
     (if take 2 s = [CHR 0x5C, CHR ''u'']
      then (case getu4 (drop 2 s) of None \<Rightarrow> None | Some r \<Rightarrow> if between_nat 0xDC00 r 0xDFFF then Some r else None)
      else None)"

definition unicodeEscape :: "string \<Rightarrow> (string \<times> string) option" where
  "unicodeEscape s =
     (case getu4 s of
        None \<Rightarrow> None
      | Some r \<Rightarrow>
          let s = drop 4 s
          in if between_nat 0xD800 r 0xDFFF
             then (case lowSurrogate s of
                     None \<Rightarrow> Some (replacementChar, s)
                   | Some r2 \<Rightarrow>
                       if r < 0xDC00 then Some (utf8_encode (0x10000 + (r - 0xD800) * 1024 + (r2 - 0xDC00)), drop 6 s)
                       else Some (replacementChar, s))
             else Some (utf8_encode r, s))"

definition json_escape :: "string \<Rightarrow> (string \<times> string) option" where
  "json_escape s =
     (case s of
        [] \<Rightarrow> None
      | c # r \<Rightarrow>
          if c = CHR 0x22 \<or> c = CHR 0x5C \<or> c = CHR ''/'' then Some ([c], r)
          else if c = CHR ''b'' then Some ([CHR 0x08], r)
          else if c = CHR ''f'' then Some ([CHR 0x0C], r)
          else if c = CHR ''n'' then Some ([CHR 0x0A], r)
          else if c = CHR ''r'' then Some ([CHR 0x0D], r)
          else if c = CHR ''t'' then Some ([CHR 0x09], r)
          else if c = CHR ''u'' then unicodeEscape r
          else None)"

lemma json_escape_length: "json_escape s = Some (out, r) \<Longrightarrow> length r < length s"
  by (auto simp: json_escape_def unicodeEscape_def Let_def split: list.splits if_splits option.splits)

definition prefixed :: "string \<Rightarrow> (string \<times> string) option \<Rightarrow> (string \<times> string) option" where
  "prefixed out res = (case res of None \<Rightarrow> None | Some (s, r) \<Rightarrow> Some (out @ s, r))"

text \<open>The rest of a string after its opening quote.\<close>

function json_str :: "string \<Rightarrow> (string \<times> string) option" where
  "json_str [] = None"
| "json_str (c # s) =
     (if c = CHR 0x22 then Some ([], s)
      else if c = CHR 0x5C
      then (case json_escape s of None \<Rightarrow> None | Some (out, r) \<Rightarrow> prefixed out (json_str r))
      else if (of_char c :: nat) < 32 then None
      else if (of_char c :: nat) < 128 then prefixed [c] (json_str s)
      else let n = first_rune (c # s)
           in if n = 0 then prefixed replacementChar (json_str s)
              else prefixed (take n (c # s)) (json_str (drop (n - 1) s)))"
  by pat_completeness auto
termination by (relation "measure length") (auto dest: json_escape_length)

declare json_str.simps [simp del]

lemma prefixed_Some: "prefixed out res = Some (t, r) \<longleftrightarrow> (\<exists>u. res = Some (u, r) \<and> t = out @ u)"
  by (auto simp: prefixed_def split: option.splits)

lemma json_str_length: "json_str s = Some (t, r) \<Longrightarrow> length r < length s"
proof (induction s arbitrary: t r rule: json_str.induct)
  case (2 c s)
  define n where "n = first_rune (c # s)"
  consider (quote) "c = CHR 0x22" | (escaped) "c \<noteq> CHR 0x22" "c = CHR 0x5C"
    | (control) "c \<noteq> CHR 0x22" "c \<noteq> CHR 0x5C" "(of_char c :: nat) < 32"
    | (ascii) "c \<noteq> CHR 0x22" "c \<noteq> CHR 0x5C" "\<not> (of_char c :: nat) < 32" "(of_char c :: nat) < 128"
    | (bad) "c \<noteq> CHR 0x22" "c \<noteq> CHR 0x5C" "\<not> (of_char c :: nat) < 128" "n = 0"
    | (rune) "c \<noteq> CHR 0x22" "c \<noteq> CHR 0x5C" "\<not> (of_char c :: nat) < 128" "n \<noteq> 0"
    by linarith
  then show ?case
  proof cases
    case quote
    with "2.prems" show ?thesis by (simp add: json_str.simps)
  next
    case escaped
    with "2.prems" obtain out r' u where e: "json_escape s = Some (out, r')" "json_str r' = Some (u, r)"
      by (auto simp: json_str.simps prefixed_Some split: option.splits)
    then show ?thesis using "2.IH"(1) [OF escaped(1,2) e(1) refl e(2)] json_escape_length [OF e(1)] by simp
  next
    case control
    with "2.prems" show ?thesis by (simp add: json_str.simps)
  next
    case ascii
    with "2.prems" obtain u where "json_str s = Some (u, r)" by (auto simp: json_str.simps prefixed_Some)
    with "2.IH"(2) ascii show ?thesis by fastforce
  next
    case bad
    with "2.prems" obtain u where "json_str s = Some (u, r)"
      by (auto simp: json_str.simps prefixed_Some Let_def n_def)
    with "2.IH"(3) [OF _ _ _ _ n_def] bad show ?thesis by fastforce
  next
    case rune
    with "2.prems" obtain u where u: "json_str (drop (n - 1) s) = Some (u, r)"
      by (auto simp: json_str.simps prefixed_Some Let_def n_def)
    have "length r < length (drop (n - 1) s)" by (rule "2.IH"(4) [OF _ _ _ _ n_def _ u]) (use rune in auto)
    then show ?thesis by simp
  qed
qed (simp add: json_str.simps)

subsection \<open>Reading values\<close>

definition is_space :: "char \<Rightarrow> bool" where
  "is_space c \<longleftrightarrow> c = CHR '' '' \<or> c = CHR 0x09 \<or> c = CHR 0x0A \<or> c = CHR 0x0D"

definition skipSpace :: "string \<Rightarrow> string" where
  "skipSpace s = dropWhile is_space s"

definition json_literal :: "string \<Rightarrow> json_tree \<Rightarrow> string \<Rightarrow> (json_tree \<times> string) option" where
  "json_literal w v s = (if take (length w) s = w then Some (v, drop (length w) s) else None)"

text \<open>A member name with the colon after it.\<close>

definition memberName :: "string \<Rightarrow> (string \<times> string) option" where
  "memberName s =
     (case skipSpace s of
        [] \<Rightarrow> None
      | c # s \<Rightarrow>
          if c \<noteq> CHR 0x22 then None
          else (case json_str s of
                  None \<Rightarrow> None
                | Some (k, s) \<Rightarrow>
                    (case skipSpace s of
                       [] \<Rightarrow> None
                     | c # s \<Rightarrow> if c = CHR '':'' then Some (k, s) else None)))"

lemma skipSpace_length: "length (skipSpace s) \<le> length s"
  by (simp add: skipSpace_def length_dropWhile_le)

lemma skipSpace_Cons: "skipSpace s = c # r \<Longrightarrow> length r < length s"
  using skipSpace_length [of s] by simp

lemma memberName_length: "memberName s = Some (k, r) \<Longrightarrow> length r < length s"
  by (fastforce simp: memberName_def split: list.splits option.splits if_splits dest: json_str_length skipSpace_Cons)

text \<open>
  \<open>depth\<close> is the nesting that is still allowed. The tests on lengths always succeed (lemma
  \<open>json_lengths\<close>); they make the recursion evidently end.
\<close>

function (sequential)
  json_value :: "nat \<Rightarrow> string \<Rightarrow> (json_tree \<times> string) option" and
  json_elements :: "nat \<Rightarrow> string \<Rightarrow> (json_tree list \<times> string) option" and
  json_members :: "nat \<Rightarrow> string \<Rightarrow> ((string \<times> json_tree) list \<times> string) option"
where
  "json_value depth s =
     (case skipSpace s of
        [] \<Rightarrow> None
      | c # r \<Rightarrow>
          if c = CHR ''{''
          then (if depth = 0 then None
                else if take 1 (skipSpace r) = ''}'' then Some (TObj [], drop 1 (skipSpace r))
                else (case json_members (depth - 1) r of None \<Rightarrow> None | Some (kvs, r) \<Rightarrow> Some (TObj kvs, r)))
          else if c = CHR ''[''
          then (if depth = 0 then None
                else if take 1 (skipSpace r) = '']'' then Some (TArr [], drop 1 (skipSpace r))
                else (case json_elements (depth - 1) r of None \<Rightarrow> None | Some (vs, r) \<Rightarrow> Some (TArr vs, r)))
          else if c = CHR 0x22
          then (case json_str r of None \<Rightarrow> None | Some (t, r) \<Rightarrow> Some (TStr t, r))
          else if c = CHR ''t'' then json_literal ''true'' (TBool True) (c # r)
          else if c = CHR ''f'' then json_literal ''false'' (TBool False) (c # r)
          else if c = CHR ''n'' then json_literal ''null'' TNull (c # r)
          else (case json_number (c # r) of
                  None \<Rightarrow> None
                | Some (q, r') \<Rightarrow> Some (TNum (take (length (c # r) - length r') (c # r)), r')))"
| "json_elements depth s =
     (case json_value depth s of
        None \<Rightarrow> None
      | Some (v, s') \<Rightarrow>
          (case skipSpace s' of
             [] \<Rightarrow> None
           | c # r \<Rightarrow>
               if c = CHR '']'' then Some ([v], r)
               else if c = CHR '','' \<and> length r < length s
               then (case json_elements depth r of None \<Rightarrow> None | Some (vs, r) \<Rightarrow> Some (v # vs, r))
               else None))"
| "json_members depth s =
     (case memberName s of
        None \<Rightarrow> None
      | Some (k, s1) \<Rightarrow>
          (case json_value depth s1 of
             None \<Rightarrow> None
           | Some (v, s') \<Rightarrow>
               (case skipSpace s' of
                  [] \<Rightarrow> None
                | c # r \<Rightarrow>
                    if c = CHR ''}'' then Some ([(k, v)], r)
                    else if c = CHR '','' \<and> length r < length s
                    then (case json_members depth r of None \<Rightarrow> None | Some (kvs, r) \<Rightarrow> Some ((k, v) # kvs, r))
                    else None)))"
  by pat_completeness auto
termination
  by (relation "measure (\<lambda>x. case x of Inl (_, s) \<Rightarrow> 2 * length s
      | Inr (Inl (_, s)) \<Rightarrow> 2 * length s + 1 | Inr (Inr (_, s)) \<Rightarrow> 2 * length s + 1)")
    (auto dest: skipSpace_Cons memberName_length)

declare json_value.simps [simp del] json_elements.simps [simp del] json_members.simps [simp del]

lemma json_literal_length: "json_literal w v s = Some (v', r) \<Longrightarrow> w \<noteq> [] \<Longrightarrow> length r < length s"
  by (cases s) (auto simp: json_literal_def split: if_splits)

lemma drop_skipSpace_length: "length (drop n (skipSpace r)) \<le> length r"
  using skipSpace_length [of r] by simp

lemma json_lengths:
  "json_value d s = Some (v, r) \<Longrightarrow> length r < length s"
  "json_elements d s = Some (vs, r) \<Longrightarrow> length r < length s"
  "json_members d s = Some (kvs, r) \<Longrightarrow> length r < length s"
proof (induction d s and d s and d s arbitrary: v r and vs r and kvs r
    rule: json_value_json_elements_json_members.induct)
  case (1 depth s)
  then obtain c t where s: "skipSpace s = c # t" by (auto simp: json_value.simps [of depth s] split: list.splits)
  have t: "length (c # t) \<le> length s" using skipSpace_length [of s] s by simp
  show ?case
    using "1.prems" "1.IH" [OF s] s t drop_skipSpace_length [of 1 t]
    by (subst (asm) json_value.simps)
      (auto split: if_splits option.splits dest: json_literal_length json_str_length json_number_length)
next
  case (2 depth s)
  then obtain w s' c t where s: "json_value depth s = Some (w, s')" "skipSpace s' = c # t"
    by (auto simp: json_elements.simps [of depth s] split: list.splits option.splits)
  have "length t < length s" using skipSpace_Cons [OF s(2)] "2.IH"(1) [OF s(1)] by simp
  then show ?case
    using "2.prems" "2.IH"(2) [OF s(1) refl s(2)] s
    by (subst (asm) json_elements.simps) (auto split: if_splits option.splits)
next
  case (3 depth s)
  then obtain k s1 w s' c t where s: "memberName s = Some (k, s1)" "json_value depth s1 = Some (w, s')" "skipSpace s' = c # t"
    by (auto simp: json_members.simps [of depth s] split: list.splits option.splits)
  have "length t < length s"
    using skipSpace_Cons [OF s(3)] "3.IH"(1) [OF s(1) refl s(2)] memberName_length [OF s(1)] by simp
  then show ?case
    using "3.prems" "3.IH"(2) [OF s(1) refl s(2) refl s(3)] s
    by (subst (asm) json_members.simps) (auto split: if_splits option.splits)
qed


text \<open>The tests on lengths in the parser never fail.\<close>

lemma json_elements_step:
  "json_elements depth s =
     (case json_value depth s of
        None \<Rightarrow> None
      | Some (v, s') \<Rightarrow>
          (case skipSpace s' of
             [] \<Rightarrow> None
           | c # r \<Rightarrow>
               if c = CHR '']'' then Some ([v], r)
               else if c = CHR '',''
               then (case json_elements depth r of None \<Rightarrow> None | Some (vs, r) \<Rightarrow> Some (v # vs, r))
               else None))"
  using json_lengths(1) [of depth s] skipSpace_Cons
  by (subst json_elements.simps) (fastforce split: option.split list.split)

lemma json_members_step:
  "json_members depth s =
     (case memberName s of
        None \<Rightarrow> None
      | Some (k, s1) \<Rightarrow>
          (case json_value depth s1 of
             None \<Rightarrow> None
           | Some (v, s') \<Rightarrow>
               (case skipSpace s' of
                  [] \<Rightarrow> None
                | c # r \<Rightarrow>
                    if c = CHR ''}'' then Some ([(k, v)], r)
                    else if c = CHR '',''
                    then (case json_members depth r of None \<Rightarrow> None | Some (kvs, r) \<Rightarrow> Some ((k, v) # kvs, r))
                    else None)))"
proof -
  have "length r < length s"
    if "memberName s = Some (k, s1)" "json_value depth s1 = Some (v, s')" "skipSpace s' = c # r" for k s1 v s' c r
    using memberName_length [OF that(1)] json_lengths(1) [OF that(2)] skipSpace_Cons [OF that(3)] by simp
  then show ?thesis by (subst json_members.simps) (fastforce split: option.split list.split)
qed

subsection \<open>Strings are read back\<close>

function valid_utf8 :: "string \<Rightarrow> bool" where
  "valid_utf8 [] = True"
| "valid_utf8 (c # s) =
     (if (of_char c :: nat) < 128 then valid_utf8 s
      else let n = first_rune (c # s) in n \<noteq> 0 \<and> valid_utf8 (drop (n - 1) s))"
  by pat_completeness auto
termination by (relation "measure length") auto

declare valid_utf8.simps [simp del]

lemma rune_length_prefix:
  assumes "rune_length l \<noteq> 0"
  shows "rune_length l \<le> length l \<and> rune_length l \<le> 4 \<and> rune_length (take (rune_length l) l @ l') = rune_length l"
proof -
  obtain a l1 where l: "l = a # l1" using assms by (cases l) auto
  show ?thesis
  proof (cases "a < 0x80")
    case True
    then show ?thesis by (simp add: l)
  next
    case False
    with assms l obtain b l2 where l1: "l1 = b # l2" by (cases l1) auto
    show ?thesis
    proof (cases "cont 0xC2 a 0xDF")
      case True
      with assms False show ?thesis by (auto simp: l l1 split: if_splits)
    next
      case F2: False
      show ?thesis
      proof (cases "cont 0xE0 a 0xEF")
        case True
        with assms False F2 show ?thesis by (cases l2) (auto simp: l l1 split: if_splits)
      next
        case F3: False
        with assms False F2 show ?thesis
          by (cases l2; cases "tl l2") (auto simp: l l1 split: if_splits list.splits)
      qed
    qed
  qed
qed

lemma first_rune_take:
  assumes "first_rune s \<noteq> 0"
  shows "first_rune s \<le> length s \<and> first_rune (take (first_rune s) s @ x) = first_rune s"
proof -
  let ?n = "first_rune s"
  note p = rune_length_prefix [of "map of_char (take 4 s)" "map of_char (take (4 - ?n) x)", folded first_rune_def, OF assms]
  have n: "?n \<le> length s" "?n \<le> 4" using p by auto
  have "map of_char (take 4 (take ?n s @ x)) = take ?n (map of_char (take 4 s)) @ map of_char (take (4 - ?n) x)"
    using n by (simp add: take_map min_def)
  then have "rune_length (map of_char (take 4 (take ?n s @ x))) = ?n" using p by metis
  then have "first_rune (take ?n s @ x) = ?n" by (simp only: first_rune_def [of "take ?n s @ x"])
  with n show ?thesis by simp
qed

lemma unhex_hex_lower: "n < 16 \<Longrightarrow> unhex (hex_lower n) = Some n"
  by (auto simp: unhex_def hex_lower_def between_def)

lemma getu4_ascii:
  assumes "(of_char c :: nat) < 128"
  shows "getu4 (''00'' @ [hex_lower (of_char c div 16), hex_lower (of_char c mod 16)] @ r) = Some (of_char c)"
proof -
  have "(of_char c :: nat) div 16 < 16" "(of_char c :: nat) mod 16 < 16" using assms by auto
  moreover have "unhex (CHR ''0'') = Some 0" by code_simp
  ultimately show ?thesis using unhex_hex_lower [of "of_char c div 16"] unhex_hex_lower [of "of_char c mod 16"]
    by (simp add: getu4_def)
qed


lemma json_str_escape:
  "json_escape s = Some (out, r) \<Longrightarrow> json_str (CHR 0x5C # s) = prefixed out (json_str r)"
  by (simp add: json_str.simps)

lemma json_str_ascii:
  assumes "(of_char c :: nat) < 128"
  shows "json_str (json_ascii c @ r) = prefixed [c] (json_str r)"
proof -
  consider (simple) x where "json_ascii c = [CHR 0x5C, x]" "\<And>r. json_escape (x # r) = Some ([c], r)"
    | (unicode) "json_ascii c = CHR 0x5C # ''u00'' @ [hex_lower (of_char c div 16), hex_lower (of_char c mod 16)]"
    | (plain) "json_ascii c = [c]" "c \<noteq> CHR 0x22" "c \<noteq> CHR 0x5C" "\<not> (of_char c :: nat) < 32"
    by (atomize_elim) (auto simp: json_ascii_def json_escape_def)
  then show ?thesis
  proof cases
    case simple
    then show ?thesis by (simp add: json_str_escape)
  next
    case unicode
    have "\<not> between_nat 0xD800 (of_char c) 0xDFFF" using assms by (simp add: between_nat_def)
    then have "json_escape (''u00'' @ [hex_lower (of_char c div 16), hex_lower (of_char c mod 16)] @ r) = Some ([c], r)"
      using getu4_ascii [OF assms, of r] assms
      by (simp add: json_escape_def unicodeEscape_def utf8_encode_def)
    then show ?thesis using unicode by (simp add: json_str_escape)
  next
    case plain
    with assms show ?thesis by (simp add: json_str.simps)
  qed
qed

lemma json_str_rune:
  assumes "\<not> (of_char c :: nat) < 128" and n: "first_rune (c # s) = n" "n \<noteq> 0"
  shows "json_str (take n (c # s) @ x) = prefixed (take n (c # s)) (json_str x)"
proof -
  have "c \<noteq> CHR 0x22" "c \<noteq> CHR 0x5C" using assms(1) by auto
  moreover obtain m where "n = Suc m" using n(2) by (cases n) auto
  moreover have "m \<le> length s" "first_rune (take n (c # s) @ x) = n"
    using first_rune_take [of "c # s" x] n \<open>n = Suc m\<close> by simp_all
  ultimately show ?thesis using assms(1) by (simp add: json_str.simps)
qed

lemma json_str_separator:
  "json_str (CHR 0x5C # ''u2028'' @ x) = prefixed [CHR 0xE2, CHR 0x80, CHR 0xA8] (json_str x)"
  "json_str (CHR 0x5C # ''u2029'' @ x) = prefixed [CHR 0xE2, CHR 0x80, CHR 0xA9] (json_str x)"
proof -
  have "unhex (CHR ''2'') = Some 2" "unhex (CHR ''0'') = Some 0" "unhex (CHR ''8'') = Some 8" "unhex (CHR ''9'') = Some 9"
    by code_simp+
  then have "getu4 (''2028'' @ x) = Some 0x2028" "getu4 (''2029'' @ x) = Some 0x2029" by (simp_all add: getu4_def)
  moreover have "utf8_encode 0x2028 = [CHR 0xE2, CHR 0x80, CHR 0xA8]" "utf8_encode 0x2029 = [CHR 0xE2, CHR 0x80, CHR 0xA9]"
    by (simp_all add: utf8_encode_def char_of_def bit_Suc_0_iff)
  ultimately have "json_escape (''u2028'' @ x) = Some ([CHR 0xE2, CHR 0x80, CHR 0xA8], x)"
    "json_escape (''u2029'' @ x) = Some ([CHR 0xE2, CHR 0x80, CHR 0xA9], x)"
    by (simp_all add: json_escape_def unicodeEscape_def between_nat_def)
  then show "json_str (CHR 0x5C # ''u2028'' @ x) = prefixed [CHR 0xE2, CHR 0x80, CHR 0xA8] (json_str x)"
    "json_str (CHR 0x5C # ''u2029'' @ x) = prefixed [CHR 0xE2, CHR 0x80, CHR 0xA9] (json_str x)"
    by (simp_all add: json_str_escape)
qed

lemma json_str_chars: "valid_utf8 s \<Longrightarrow> json_str (json_chars s @ CHR 0x22 # r) = Some (s, r)"
proof (induction s rule: json_chars.induct)
  case 1
  then show ?case by (simp add: json_chars.simps json_str.simps)
next
  case (2 c s)
  define n where "n = first_rune (c # s)"
  show ?case
  proof (cases "(of_char c :: nat) < 128")
    case True
    with 2 show ?thesis by (simp add: json_chars.simps json_str_ascii valid_utf8.simps prefixed_def)
  next
    case False
    with "2.prems" have n: "n \<noteq> 0" "valid_utf8 (drop (n - 1) s)" by (simp_all add: valid_utf8.simps n_def Let_def)
    have ih: "json_str (json_chars (drop (n - 1) s) @ CHR 0x22 # r) = Some (drop (n - 1) s, r)"
      using "2.IH"(3-5) False n n_def by metis
    obtain m where m: "n = Suc m" using n(1) by (cases n) auto
    have "json_str (json_chars (c # s) @ CHR 0x22 # r) =
        prefixed (take n (c # s)) (json_str (json_chars (drop (n - 1) s) @ CHR 0x22 # r))"
      using False n(1) json_str_rune [OF False n_def [symmetric] n(1)] json_str_separator
      by (simp add: json_chars.simps Let_def flip: n_def)
    also have "\<dots> = Some (take n (c # s) @ drop (n - 1) s, r)" by (simp only: ih prefixed_def) simp
    also have "take n (c # s) @ drop (n - 1) s = c # s" by (simp add: m)
    finally show ?thesis .
  qed
qed

subsection \<open>Values are read back\<close>

text \<open>
  The values that survive: finite numbers and valid UTF-8. \<open>json_tree_of\<close> is what the text of
  a value is parsed to: maps come back with their keys sorted, structs in the order of their
  fields.
\<close>

fun json_ok :: "json \<Rightarrow> bool" where
  "json_ok JNull = True"
| "json_ok (JBool b) = True"
| "json_ok (JInt n) \<longleftrightarrow> \<bar>n\<bar> < 2 ^ 64"
| "json_ok (JNum x) = (case x of Fin q \<Rightarrow> exact64 q | _ \<Rightarrow> False)"
| "json_ok JNegZero = True"
| "json_ok (JStr s) = valid_utf8 s"
| "json_ok (JArr vs) = list_all json_ok vs"
| "json_ok (JObj kvs) = list_all (\<lambda>e. valid_utf8 (fst e) \<and> json_ok (snd e)) kvs"
| "json_ok (JStruct kvs) = list_all (\<lambda>e. valid_utf8 (fst e) \<and> json_ok (snd e)) kvs"

fun json_depth :: "json \<Rightarrow> nat" where
  "json_depth (JArr vs) = Suc (Max (set (0 # map json_depth vs)))"
| "json_depth (JObj kvs) = Suc (Max (set (0 # map (\<lambda>e. json_depth (snd e)) kvs)))"
| "json_depth (JStruct kvs) = Suc (Max (set (0 # map (\<lambda>e. json_depth (snd e)) kvs)))"
| "json_depth _ = 0"

fun json_tree_of :: "json \<Rightarrow> json_tree" where
  "json_tree_of JNull = TNull"
| "json_tree_of (JBool b) = TBool b"
| "json_tree_of (JInt n) = TNum (FormatInt n)"
| "json_tree_of (JNum x) = TNum (FormatFloat x)"
| "json_tree_of JNegZero = TNum ''-0''"
| "json_tree_of (JStr s) = TStr s"
| "json_tree_of (JArr vs) = TArr (map json_tree_of vs)"
| "json_tree_of (JObj kvs) = TObj (sort_key fst (map (\<lambda>e. (fst e, json_tree_of (snd e))) kvs))"
| "json_tree_of (JStruct kvs) = TObj (map (\<lambda>e. (fst e, json_tree_of (snd e))) kvs)"

lemma sort_key_map_snd:
  fixes f :: "'b \<Rightarrow> 'c" and kvs :: "('a :: linorder \<times> 'b) list"
  shows "sort_key fst (map (\<lambda>e. (fst e, f (snd e))) kvs) = map (\<lambda>e. (fst e, f (snd e))) (sort_key fst kvs)"
proof -
  have "insort_key fst (fst e, f (snd e)) (map (\<lambda>e. (fst e, f (snd e))) es) =
      map (\<lambda>e. (fst e, f (snd e))) (insort_key fst e es)" for e and es :: "('a \<times> 'b) list"
    by (induction es) auto
  then show ?thesis by (induction kvs) simp_all
qed

text \<open>What may follow a value.\<close>

definition value_end :: "string \<Rightarrow> bool" where
  "value_end r \<longleftrightarrow> r = [] \<or> hd r \<in> set '',]} '' \<union> {CHR 0x0A}"

lemma value_end_number: "value_end r \<Longrightarrow> number_end r"
  by (auto simp: value_end_def number_end_def is_digit_def)

lemma value_end_simps [simp]: "value_end (CHR '','' # r)" "value_end (CHR '']'' # r)" "value_end (CHR ''}'' # r)" "value_end []"
  by (simp_all add: value_end_def)

lemma skipSpace_token [simp]: "\<not> is_space c \<Longrightarrow> skipSpace (c # s) = c # s"
  by (simp add: skipSpace_def)

lemma json_value_number:
  assumes "number_text t v" and "number_end r"
  shows "json_value d (t @ r) = Some (TNum t, r)"
proof -
  obtain c u where c: "t = c # u" "c = CHR ''-'' \<or> is_digit c" using number_text_hd [OF assms(1)] by blast
  then have "\<not> is_space c" "c \<noteq> CHR 0x22" "c \<noteq> CHR ''{''" "c \<noteq> CHR ''[''" "c \<noteq> CHR ''t''" "c \<noteq> CHR ''f''" "c \<noteq> CHR ''n''"
    by (auto simp: is_space_def is_digit_def)
  moreover have "json_number (c # u @ r) = Some (v, r)" using assms c(1) by (simp add: number_text_def)
  ultimately show ?thesis by (simp add: json_value.simps c(1))
qed

lemma number_text_negative_zero: "number_text ''-0'' 0"
  using number_text_minus [OF unsigned_text_digits [of 0]] by (simp add: digits.simps char_of_def)

text \<open>The text of a value starts with a token and not with a closing bracket.\<close>

lemma ok_number:
  assumes "json_ok (JNum x)"
  obtains v where "number_text (FormatFloat x) v" and "f64 v = x"
proof -
  obtain q where q: "x = Fin q" "exact64 q" using assms by (cases x) auto
  from number_text_Format [OF q(2)] that q(1) show thesis by metis
qed

lemma json_print_hd:
  assumes "json_ok v"
  shows "\<exists>c t. json_print v = c # t \<and> \<not> is_space c \<and> c \<noteq> CHR '']'' \<and> c \<noteq> CHR ''}''"
proof -
  have number: "\<exists>c u. t = c # u \<and> \<not> is_space c \<and> c \<noteq> CHR '']'' \<and> c \<noteq> CHR ''}''" if "number_text t q" for t q
    using number_text_hd [OF that] by (auto simp: is_space_def is_digit_def)
  show ?thesis
  proof (cases v)
    case (JNum x)
    with assms obtain q where "number_text (FormatFloat x) q" using ok_number [of x] by auto
    with number JNum show ?thesis by simp
  next
    case (JInt n)
    with number [OF number_text_Int] show ?thesis by simp
  next
    case JNegZero
    then show ?thesis by (simp add: is_space_def)
  qed (auto simp: is_space_def json_string_def)
qed

lemma json_value_string:
  assumes "valid_utf8 s"
  shows "json_value d (json_string s @ r) = Some (TStr s, r)"
  using json_str_chars [OF assms, of r] by (simp add: json_value.simps json_string_def is_space_def)

lemma memberName_print:
  assumes "valid_utf8 k"
  shows "memberName (json_string k @ CHR '':'' # r) = Some (k, r)"
  using json_str_chars [OF assms, of "CHR '':'' # r"] by (simp add: memberName_def json_string_def is_space_def)

text \<open>A value is read back from its text, whatever follows.\<close>

definition reads_back :: "nat \<Rightarrow> json \<Rightarrow> bool" where
  "reads_back d v \<longleftrightarrow> (\<forall>r. value_end r \<longrightarrow> json_value d (json_print v @ r) = Some (json_tree_of v, r))"

lemma json_elements_print:
  assumes "vs \<noteq> []" and "\<forall>v \<in> set vs. reads_back d v"
  shows "json_elements d (join_comma (map json_print vs) @ CHR '']'' # r) = Some (map json_tree_of vs, r)"
  using assms
proof (induction vs rule: list_nonempty_induct)
  case (single v)
  then show ?case by (subst json_elements_step) (simp add: reads_back_def is_space_def)
next
  case (cons v vs)
  then obtain w ws where vs: "vs = w # ws" by (cases vs) auto
  have "json_elements d (join_comma (map json_print vs) @ CHR '']'' # r) = Some (map json_tree_of vs, r)"
    using cons by simp
  then show ?case using cons.prems by (subst json_elements_step) (simp add: reads_back_def is_space_def vs)
qed

definition member_text :: "string \<times> json \<Rightarrow> string" where
  "member_text e = json_string (fst e) @ CHR '':'' # json_print (snd e)"

definition member_tree :: "string \<times> json \<Rightarrow> string \<times> json_tree" where
  "member_tree e = (fst e, json_tree_of (snd e))"

lemma json_members_print:
  assumes "es \<noteq> []" and "\<forall>e \<in> set es. valid_utf8 (fst e) \<and> reads_back d (snd e)"
  shows "json_members d (join_comma (map member_text es) @ CHR ''}'' # r) = Some (map member_tree es, r)"
  using assms
proof (induction es rule: list_nonempty_induct)
  case (single e)
  then show ?case
    by (subst json_members_step) (simp add: reads_back_def is_space_def member_text_def member_tree_def memberName_print)
next
  case (cons e es)
  then obtain f fs where es: "es = f # fs" by (cases es) auto
  have "json_members d (join_comma (map member_text es) @ CHR ''}'' # r) = Some (map member_tree es, r)"
    using cons by simp
  then show ?case using cons.prems
    by (subst json_members_step) (simp add: reads_back_def is_space_def member_text_def [of e] member_tree_def [of e] memberName_print es)
qed

lemma json_print_members:
  "json_print (JObj kvs) = CHR ''{'' # join_comma (map member_text (sort_key fst kvs)) @ ''}''"
  "json_print (JStruct kvs) = CHR ''{'' # join_comma (map member_text kvs) @ ''}''"
  by (simp_all add: sort_key_map_snd comp_def member_text_def [abs_def])

lemma json_tree_members:
  "json_tree_of (JObj kvs) = TObj (map member_tree (sort_key fst kvs))"
  "json_tree_of (JStruct kvs) = TObj (map member_tree kvs)"
  by (simp_all add: sort_key_map_snd comp_def member_tree_def [abs_def])

lemma reads_back_members:
  assumes "\<forall>e \<in> set es. valid_utf8 (fst e) \<and> reads_back d (snd e)"
  shows "json_value (Suc d) (CHR ''{'' # join_comma (map member_text es) @ CHR ''}'' # r) = Some (TObj (map member_tree es), r)"
proof (cases "es = []")
  case True
  then show ?thesis by (simp add: json_value.simps is_space_def)
next
  case False
  then obtain e fs where es: "es = e # fs" by (cases es) auto
  obtain t where "join_comma (map member_text es) = CHR 0x22 # t"
    by (cases fs) (simp_all add: es member_text_def json_string_def)
  with json_members_print [OF False assms, of r] show ?thesis
    by (simp add: json_value.simps is_space_def)
qed

lemma reads_back_array:
  assumes "\<forall>v \<in> set vs. reads_back d v" and "\<forall>v \<in> set vs. json_ok v"
  shows "json_value (Suc d) (CHR ''['' # join_comma (map json_print vs) @ CHR '']'' # r) = Some (TArr (map json_tree_of vs), r)"
proof (cases vs)
  case Nil
  then show ?thesis by (simp add: json_value.simps is_space_def)
next
  case (Cons v ws)
  with assms(2) obtain c t where c: "json_print v = c # t" "\<not> is_space c" "c \<noteq> CHR '']''" using json_print_hd [of v] by auto
  then obtain u where "join_comma (map json_print vs) = c # u" by (cases ws) (simp_all add: Cons)
  with json_elements_print [OF _ assms(1), of r] c(2,3) Cons show ?thesis
    by (simp add: json_value.simps is_space_def)
qed

lemma depth_Max: "Suc (Max (set (0 # map f xs))) \<le> d \<longleftrightarrow> (\<exists>n. d = Suc n \<and> (\<forall>x \<in> set xs. f x \<le> n))"
  by (cases d) auto

lemma json_reads_back: "json_ok v \<Longrightarrow> json_depth v \<le> d \<Longrightarrow> reads_back d v"
proof (induction v arbitrary: d rule: json_print.induct)
  case (3 n)
  then show ?case using json_value_number [OF number_text_Int value_end_number] by (simp add: reads_back_def)
next
  case (4 x)
  then obtain v where "number_text (FormatFloat x) v" using ok_number [of x] by auto
  then show ?case using json_value_number [OF _ value_end_number] by (auto simp: reads_back_def)
next
  case 5
  then show ?case
    using json_value_number [OF number_text_negative_zero value_end_number] by (simp add: reads_back_def)
next
  case (6 s)
  then show ?case by (simp add: reads_back_def json_value_string)
next
  case (7 vs)
  then obtain n where n: "d = Suc n" "\<forall>v \<in> set vs. json_depth v \<le> n" by (auto simp only: json_depth.simps depth_Max)
  with 7 have "\<forall>v \<in> set vs. reads_back n v" "\<forall>v \<in> set vs. json_ok v" by (auto simp: list_all_iff)
  from reads_back_array [OF this] show ?case by (simp add: reads_back_def n)
next
  case (8 kvs)
  then obtain n where n: "d = Suc n" "\<forall>e \<in> set kvs. json_depth (snd e) \<le> n" by (auto simp only: json_depth.simps depth_Max)
  with 8 have "\<forall>e \<in> set (sort_key fst kvs). valid_utf8 (fst e) \<and> reads_back n (snd e)" by (auto simp: list_all_iff)
  from reads_back_members [OF this] show ?case
    by (simp add: reads_back_def n json_print_members json_tree_members del: json_print.simps json_tree_of.simps)
next
  case (9 kvs)
  then obtain n where n: "d = Suc n" "\<forall>e \<in> set kvs. json_depth (snd e) \<le> n" by (auto simp only: json_depth.simps depth_Max)
  with 9 have "\<forall>e \<in> set kvs. valid_utf8 (fst e) \<and> reads_back n (snd e)" by (auto simp: list_all_iff)
  from reads_back_members [OF this] show ?case
    by (simp add: reads_back_def n json_print_members json_tree_members del: json_print.simps json_tree_of.simps)
qed (simp_all add: reads_back_def json_value.simps json_literal_def is_space_def)

lemma reads_back_whole: "reads_back d v \<Longrightarrow> json_value d (json_print v) = Some (json_tree_of v, [])"
  unfolding reads_back_def by (drule spec [of _ "[]"]) simp

text \<open>Equal texts come from equal values, up to the order of the keys of maps.\<close>

lemma json_print_inj:
  assumes "json_ok v" and "json_ok w" and "json_print v = json_print w"
  shows "json_tree_of v = json_tree_of w"
proof -
  let ?d = "max (json_depth v) (json_depth w)"
  have "json_value ?d (json_print v) = Some (json_tree_of v, [])" "json_value ?d (json_print w) = Some (json_tree_of w, [])"
    using json_reads_back [OF assms(1), of ?d] json_reads_back [OF assms(2), of ?d] by (auto intro: reads_back_whole)
  then show ?thesis using assms(3) by simp
qed


subsection \<open>Decoding into a map\<close>

text \<open>
  The Go value of an object: for a repeated key the last value counts. \<open>DecodeArgs\<close> is
  \<open>NewDecoder(body).Decode(&m)\<close> for a nil \<open>map[string]interface{}\<close>: \<open>None\<close> is an error,
  \<open>Some None\<close> leaves the map nil. Only the first value of the body is read; an error of
  the body matters only where the end of the value has not been seen. A number out of range
  is an error.
\<close>

definition dedup :: "(string \<times> 'a) list \<Rightarrow> (string \<times> 'a) list" where
  "dedup es = foldl (\<lambda>m e. AList.update (fst e) (snd e) m) [] es"

definition number_value :: "string \<Rightarrow> float64" where
  "number_value s = (case json_number s of None \<Rightarrow> NaN | Some (q, _) \<Rightarrow> f64 q)"

definition number_json :: "string \<Rightarrow> json" where
  "number_json s =
     (let x = number_value s in if x = Fin 0 \<and> prefix ''-'' s then JNegZero else JNum x)"

fun to_interface :: "json_tree \<Rightarrow> json" where
  "to_interface TNull = JNull"
| "to_interface (TBool b) = JBool b"
| "to_interface (TNum s) = number_json s"
| "to_interface (TStr s) = JStr s"
| "to_interface (TArr ts) = JArr (map to_interface ts)"
| "to_interface (TObj kts) = JObj (dedup (map (\<lambda>e. (fst e, to_interface (snd e))) kts))"

fun in_range :: "json_tree \<Rightarrow> bool" where
  "in_range (TNum s) = is_finite (number_value s)"
| "in_range (TArr ts) = list_all in_range ts"
| "in_range (TObj kts) = list_all (\<lambda>e. in_range (snd e)) kts"
| "in_range _ = True"

definition maxNestingDepth :: nat where "maxNestingDepth = 10000"

definition DecodeArgs :: "body \<Rightarrow> (string \<times> json) list option option" where
  "DecodeArgs b =
     (case json_value maxNestingDepth (fst b) of
        None \<Rightarrow> None
      | Some (t, r) \<Rightarrow>
          (case t of
             TNull \<Rightarrow> if r = [] \<and> snd b \<noteq> None then None else Some None
           | TObj kts \<Rightarrow>
               if in_range t then (case to_interface t of JObj m \<Rightarrow> Some (Some m) | _ \<Rightarrow> None) else None
           | _ \<Rightarrow> None))"

text \<open>What becomes of a value that is sent as JSON and decoded.\<close>

fun json_canon :: "json \<Rightarrow> json" where
  "json_canon (JInt n) = JNum (f64 (of_int n))"
| "json_canon (JArr vs) = JArr (map json_canon vs)"
| "json_canon (JObj kvs) = JObj (sort_key fst (map (\<lambda>e. (fst e, json_canon (snd e))) kvs))"
| "json_canon (JStruct kvs) = JObj (map (\<lambda>e. (fst e, json_canon (snd e))) kvs)"
| "json_canon v = v"

definition canon_args :: "(string \<times> json) list \<Rightarrow> (string \<times> json) list" where
  "canon_args m = map (\<lambda>e. (fst e, json_canon (snd e))) (sort_key fst m)"

fun json_distinct :: "json \<Rightarrow> bool" where
  "json_distinct (JArr vs) = list_all json_distinct vs"
| "json_distinct (JObj kvs) = (distinct (map fst kvs) \<and> list_all (\<lambda>e. json_distinct (snd e)) kvs)"
| "json_distinct (JStruct kvs) = (distinct (map fst kvs) \<and> list_all (\<lambda>e. json_distinct (snd e)) kvs)"
| "json_distinct _ = True"

lemma update_new: "k \<notin> set (map fst m) \<Longrightarrow> AList.update k v m = m @ [(k, v)]"
  by (induction m) auto

lemma dedup_distinct: "distinct (map fst es) \<Longrightarrow> dedup es = es"
proof -
  have "foldl (\<lambda>m e. AList.update (fst e) (snd e) m) m es = m @ es"
    if "distinct (map fst (m @ es))" for m
    using that
  proof (induction es arbitrary: m)
    case (Cons e es)
    have "AList.update (fst e) (snd e) m = m @ [e]" using Cons.prems update_new [of "fst e" m "snd e"] by simp
    with Cons.IH [of "m @ [e]"] Cons.prems show ?case by simp
  qed simp
  from this [of "[]"] show "distinct (map fst es) \<Longrightarrow> dedup es = es" by (simp add: dedup_def)
qed

lemma distinct_sort_key: "distinct (map f (sort_key f xs)) = distinct (map f xs)"
  by (simp add: distinct_map)

lemma number_value_text: "number_text t v \<Longrightarrow> number_value t = f64 v"
  by (simp add: number_value_def number_text_empty)

lemma number_value_Format: "json_ok (JNum x) \<Longrightarrow> number_value (FormatFloat x) = x"
  using ok_number [of x] number_value_text by metis

lemma f64_of_int_finite: "\<bar>n\<bar> < 2 ^ 64 \<Longrightarrow> is_finite (f64 (of_int n))"
proof -
  assume "\<bar>n\<bar> < 2 ^ 64"
  then have "\<bar>of_int n :: rat\<bar> \<le> of_int (2 ^ 64)" by (simp only: of_int_abs [symmetric] of_int_le_iff)
  moreover have "exact64 (2 ^ 64)" using exact64_scaled [of 1 64] by simp
  ultimately have "frange (- (2 ^ 64)) (2 ^ 64) (f64 (of_int n))" by (intro f64_frange) (auto simp: abs_le_iff)
  then show ?thesis by (cases "f64 (of_int n)") auto
qed

lemma number_json_simps:
  "json_ok (JNum x) \<Longrightarrow> number_json (FormatFloat x) = JNum x"
  "number_json (FormatInt n) = JNum (f64 (of_int n))"
  "number_json ''-0'' = JNegZero"
proof -
  show "number_json (FormatFloat x) = JNum x" if "json_ok (JNum x)"
    using number_value_Format [OF that] by (auto simp: number_json_def Let_def)
  have "f64 (of_int n) \<noteq> Fin 0" if "n < 0"
  proof -
    have "rne (of_int n) \<le> rne (- 1)" using that by (intro rne_mono) simp
    then show ?thesis by (auto simp: f64_def Let_def rne_minus)
  qed
  moreover have "\<not> prefix ''-'' (FormatInt n)" if "\<not> n < 0"
    using digits_facts [of n] that by (cases "digits n") (auto simp: FormatInt_def is_digit_def)
  ultimately show "number_json (FormatInt n) = JNum (f64 (of_int n))"
    using number_value_text [OF number_text_Int, of n] by (auto simp: number_json_def Let_def)
  show "number_json ''-0'' = JNegZero"
    using number_value_text [OF number_text_negative_zero] by (simp add: number_json_def f64_0_1)
qed

lemma tree_members_interface:
  assumes "\<forall>e \<in> set es. to_interface (json_tree_of (snd e)) = json_canon (snd e)" and "distinct (map fst es)"
  shows "to_interface (TObj (map member_tree es)) = JObj (map (\<lambda>e. (fst e, json_canon (snd e))) es)"
proof -
  let ?c = "map (\<lambda>e. (fst e, json_canon (snd e))) es"
  have "map (\<lambda>e. (fst e, to_interface (snd e))) (map member_tree es) = ?c"
    using assms(1) by (auto simp: member_tree_def)
  then have "to_interface (TObj (map member_tree es)) = JObj (dedup ?c)" by (simp only: to_interface.simps)
  moreover have "map fst ?c = map fst es" by simp
  ultimately show ?thesis using dedup_distinct [of ?c] assms(2) by (simp only:)
qed

lemma tree_interface: "json_ok v \<Longrightarrow> json_distinct v \<Longrightarrow> to_interface (json_tree_of v) = json_canon v"
proof (induction v rule: json_canon.induct)
  case (1 n)
  then show ?case by (simp add: number_json_simps)
next
  case (3 kvs)
  have "to_interface (json_tree_of (JObj kvs)) = JObj (map (\<lambda>e. (fst e, json_canon (snd e))) (sort_key fst kvs))"
    unfolding json_tree_members using 3 by (intro tree_members_interface) (auto simp: list_all_iff distinct_sort_key)
  then show ?case by (simp only: json_canon.simps sort_key_map_snd)
next
  case (4 kvs)
  have "to_interface (json_tree_of (JStruct kvs)) = JObj (map (\<lambda>e. (fst e, json_canon (snd e))) kvs)"
    unfolding json_tree_members using 4 by (intro tree_members_interface) (auto simp: list_all_iff)
  then show ?case by (simp only: json_canon.simps)
qed (auto simp: list_all_iff number_json_simps)

lemma tree_in_range: "json_ok v \<Longrightarrow> in_range (json_tree_of v)"
proof (induction v rule: json_canon.induct)
  case (1 n)
  then show ?case using number_value_text [OF number_text_Int, of n] f64_of_int_finite [of n] by simp
next
  case (3 kvs)
  then show ?case unfolding json_tree_members by (auto simp: list_all_iff member_tree_def)
next
  case (4 kvs)
  then show ?case unfolding json_tree_members by (auto simp: list_all_iff member_tree_def)
qed (auto simp: list_all_iff number_value_Format number_value_text [OF number_text_negative_zero] f64_0_1 zero_float64_def split: float64.splits)

lemma ok_finite: "json_ok v \<Longrightarrow> json_finite v"
  by (induction v rule: json_finite.induct) (auto simp: list_all_iff split: float64.splits)

text \<open>A map sent as JSON arrives as the same map, nested maps included.\<close>

lemma DecodeArgs_print:
  assumes "json_ok (JObj m)" and "json_distinct (JObj m)" and "json_depth (JObj m) \<le> maxNestingDepth" and "value_end r"
  shows "DecodeArgs (json_print (JObj m) @ r, e) = Some (Some (canon_args m))"
proof -
  obtain kts where c: "json_tree_of (JObj m) = TObj kts" by simp
  have "json_value maxNestingDepth (json_print (JObj m) @ r) = Some (TObj kts, r)"
    using json_reads_back [OF assms(1,3)] assms(4) by (simp only: reads_back_def c)
  moreover have "in_range (TObj kts)" using tree_in_range [OF assms(1)] by (simp only: c)
  moreover have "to_interface (TObj kts) = JObj (canon_args m)"
    using tree_interface [OF assms(1,2)] by (simp only: c canon_args_def json_canon.simps sort_key_map_snd)
  ultimately show ?thesis by (simp add: DecodeArgs_def del: json_print.simps to_interface.simps in_range.simps)
qed

lemma map_of_canon_args:
  assumes "distinct (map fst m)"
  shows "map_of (canon_args m) k = map_option json_canon (map_of m k)"
proof -
  have "map_of (map (\<lambda>e. (fst e, json_canon (snd e))) es) k = map_option json_canon (map_of es k)" for es
    by (induction es) auto
  moreover have "map_of (sort_key fst m) = map_of m"
    using assms by (simp add: map_of_inject_set distinct_sort_key)
  ultimately show ?thesis by (simp add: canon_args_def)
qed


subsection \<open>Decoded values survive\<close>

lemma valid_utf8_app: "valid_utf8 a \<Longrightarrow> valid_utf8 b \<Longrightarrow> valid_utf8 (a @ b)"
proof (induction a rule: valid_utf8.induct)
  case (2 c s)
  define n where "n = first_rune (c # s)"
  show ?case
  proof (cases "(of_char c :: nat) < 128")
    case True
    with 2 show ?thesis by (simp add: valid_utf8.simps)
  next
    case False
    with "2.prems" have n: "n \<noteq> 0" "valid_utf8 (drop (n - 1) s)" by (simp_all add: valid_utf8.simps n_def Let_def)
    then have ih: "valid_utf8 (drop (n - 1) s @ b)" using "2.IH"(2) [OF False n_def] "2.prems"(2) by simp
    obtain m where m: "n = Suc m" using n(1) by (cases n) auto
    have "m \<le> length s" "first_rune (take n (c # s) @ drop n (c # s) @ b) = n"
      using first_rune_take [of "c # s" "drop n (c # s) @ b"] n(1) m by (simp_all add: n_def)
    then show ?thesis using False n(1) ih m by (simp add: valid_utf8.simps Let_def flip: append_assoc)
  qed
qed simp

lemma valid_utf8_block:
  assumes "\<not> (of_char c :: nat) < 128" and "first_rune (c # s) = n" and "n \<noteq> 0"
  shows "valid_utf8 (take n (c # s))"
proof -
  obtain m where m: "n = Suc m" using assms(3) by (cases n) auto
  have "first_rune (take n (c # s) @ []) = n" "m \<le> length s"
    using first_rune_take [of "c # s" "[]"] assms m by simp_all
  then show ?thesis using assms m by (simp add: valid_utf8.simps)
qed

lemma valid_utf8_bytes:
  assumes "rune_length bs = length bs" and "bs \<noteq> []" and "length bs \<le> 4" and "\<forall>b \<in> set bs. b < 256"
  shows "valid_utf8 (map char_of bs)"
proof -
  obtain b cs where bs: "bs = b # cs" using assms(2) by (cases bs) auto
  have "map of_char (map char_of bs :: string) = bs" using assms(4) by (induction bs) auto
  then have f: "first_rune (map char_of bs) = length bs" using assms(1,3) by (simp add: first_rune_def)
  show ?thesis
  proof (cases "b < 128")
    case True
    with assms(1) bs have "cs = []" by (cases cs) auto
    with bs True show ?thesis by (simp add: valid_utf8.simps)
  next
    case False
    with f bs assms(4) show ?thesis by (simp add: valid_utf8.simps)
  qed
qed

lemma base64_digits:
  "(r :: nat) = r div 4096 * 4096 + r div 64 mod 64 * 64 + r mod 64"
  "(r :: nat) = r div 262144 * 262144 + r div 4096 mod 64 * 4096 + r div 64 mod 64 * 64 + r mod 64"
proof -
  have d: "r div 64 div 64 = r div 4096" "r div 4096 div 64 = r div 262144" by (simp_all flip: div_mult2_eq)
  note m = div_mult_mod_eq [of r 64] div_mult_mod_eq [of "r div 64" 64] div_mult_mod_eq [of "r div 4096" 64]
  show "r = r div 4096 * 4096 + r div 64 mod 64 * 64 + r mod 64" using m(1,2) unfolding d by linarith
  show "r = r div 262144 * 262144 + r div 4096 mod 64 * 4096 + r div 64 mod 64 * 64 + r mod 64" using m unfolding d by linarith
qed

lemma valid_utf8_encode:
  assumes "r < 0x110000" and "\<not> between_nat 0xD800 r 0xDFFF"
  shows "valid_utf8 (utf8_encode r)"
proof -
  consider "r < 0x80" | "0x80 \<le> r" "r < 0x800" | "0x800 \<le> r" "r < 0x10000" | "0x10000 \<le> r" by linarith
  then show ?thesis
  proof cases
    case 1
    then show ?thesis using valid_utf8_bytes [of "[r]"] by (simp add: utf8_encode_def)
  next
    case 2
    then have "r div 64 < 32" "2 \<le> r div 64" "r mod 64 < 64" by auto
    with 2 show ?thesis using valid_utf8_bytes [of "[0xC0 + r div 64, 0x80 + r mod 64]"]
      by (simp add: utf8_encode_def cont_def)
  next
    case 3
    define a b c where "a = r div 4096" and "b = r div 64 mod 64" and "c = r mod 64"
    have lt: "b < 64" "c < 64" by (simp_all add: b_def c_def)
    have r: "r = a * 4096 + b * 64 + c" using base64_digits(1) [of r] by (simp add: a_def b_def c_def)
    have a: "a < 16" using 3 r by linarith
    have "a = 0 \<longrightarrow> 32 \<le> b" using 3 r lt by linarith
    moreover have "a = 13 \<longrightarrow> b < 32" using assms(2) r lt unfolding between_nat_def by linarith
    ultimately have "rune_length [0xE0 + a, 0x80 + b, 0x80 + c] = 3"
      using a lt by (cases "a = 0"; cases "a = 13") (simp_all add: cont_def)
    then have "valid_utf8 (map char_of [0xE0 + a, 0x80 + b, 0x80 + c])"
      using a lt by (intro valid_utf8_bytes) (simp_all del: rune_length.simps)
    then show ?thesis using 3 by (simp add: utf8_encode_def a_def b_def c_def)
  next
    case 4
    define a b c e where "a = r div 262144" and "b = r div 4096 mod 64" and "c = r div 64 mod 64" and "e = r mod 64"
    have lt: "b < 64" "c < 64" "e < 64" by (simp_all add: b_def c_def e_def)
    have r: "r = a * 262144 + b * 4096 + c * 64 + e" using base64_digits(2) [of r] by (simp add: a_def b_def c_def e_def)
    have a: "a \<le> 4" using assms(1) r by linarith
    have "a = 0 \<longrightarrow> 16 \<le> b" using 4 r lt by linarith
    moreover have "a = 4 \<longrightarrow> b < 16" using assms(1) r lt by linarith
    ultimately have "rune_length [0xF0 + a, 0x80 + b, 0x80 + c, 0x80 + e] = 4"
      using a lt by (cases "a = 0"; cases "a = 4") (simp_all add: cont_def)
    then have "valid_utf8 (map char_of [0xF0 + a, 0x80 + b, 0x80 + c, 0x80 + e])"
      using a lt by (intro valid_utf8_bytes) (simp_all del: rune_length.simps)
    then show ?thesis using 4 by (simp add: utf8_encode_def a_def b_def c_def e_def)
  qed
qed


lemma valid_utf8_ascii: "(of_char c :: nat) < 128 \<Longrightarrow> valid_utf8 [c]"
  by (simp add: valid_utf8.simps)

lemma ascii_utf8: "\<forall>c \<in> set s. (of_char c :: nat) < 128 \<Longrightarrow> valid_utf8 s"
  by (induction s) (simp_all add: valid_utf8.simps)

lemma b64_utf8: "valid_utf8 (b64_encode s)"
  using ascii_utf8 b64_encode_ascii by blast

text \<open>The text of a string is on one line.\<close>

lemma json_ascii_line: "CHR 0x0A \<notin> set (json_ascii c)"
proof -
  have "CHR 0x0A \<noteq> hex_lower n" if "n < 16" for n
  proof
    assume "CHR 0x0A = hex_lower n"
    then show False using unhex_hex_lower [OF that] by (simp add: unhex_def between_def flip: \<open>CHR 0x0A = hex_lower n\<close>)
  qed
  moreover have "(of_char c :: nat) div 16 < 16" "(of_char c :: nat) mod 16 < 16"
    using of_char_less [of c] by (simp_all add: less_mult_imp_div_less)
  ultimately show ?thesis by (auto simp: json_ascii_def)
qed

lemma cont_high:
  "cont 0x80 b hi \<Longrightarrow> \<not> b < 128" "cont 0x90 b hi \<Longrightarrow> \<not> b < 128" "cont 0xA0 b hi \<Longrightarrow> \<not> b < 128"
  by (simp_all add: cont_def)

lemma rune_length_high:
  assumes "\<not> a < 128"
  shows "\<forall>b \<in> set (take (rune_length (a # s)) (a # s)). \<not> b < 128"
proof -
  consider "s = []" | b where "s = [b]" | b c where "s = [b, c]" | b c d r where "s = b # c # d # r"
    by (metis list.exhaust)
  then show ?thesis
  proof cases
    case 1
    then show ?thesis using assms by simp
  next
    case 2
    then show ?thesis using assms by (auto dest: cont_high)
  next
    case 3
    then show ?thesis using assms by (auto dest: cont_high)
  next
    case 4
    then show ?thesis using assms by (auto dest: cont_high)
  qed
qed

lemma first_rune_high:
  assumes "\<not> (of_char c :: nat) < 128"
  shows "CHR 0x0A \<notin> set (take (first_rune (c # s)) (c # s))"
proof
  let ?n = "first_rune (c # s)" and ?l = "map of_char (take 4 (c # s)) :: nat list"
  assume "CHR 0x0A \<in> set (take ?n (c # s))"
  then have "?n \<noteq> 0" by (cases ?n) simp_all
  then have "?n \<le> 4" using rune_length_prefix [of ?l] by (simp add: first_rune_def)
  then have "take ?n (take 4 (c # s)) = take ?n (c # s)" unfolding take_take by (simp only: min_absorb1)
  then have t: "take ?n ?l = map of_char (take ?n (c # s))" by (simp only: take_map)
  have "(10 :: nat) \<in> of_char ` set (take ?n (c # s))"
    using \<open>CHR 0x0A \<in> _\<close> by (rule rev_image_eqI) simp
  then have "10 \<in> set (take ?n ?l)" unfolding t by simp
  moreover have "?n = rune_length ?l" by (simp only: first_rune_def)
  moreover have "?l = of_char c # map of_char (take 3 s)" by simp
  ultimately have "(10 :: nat) \<in> set (take (rune_length (of_char c # map of_char (take 3 s))) (of_char c # map of_char (take 3 s)))"
    by (simp only:)
  with rune_length_high [OF assms, of "map of_char (take 3 s)"] have "\<not> 10 < (128 :: nat)" by (rule bspec)
  then show False by simp
qed

lemma json_chars_line: "CHR 0x0A \<notin> set (json_chars s)"
proof (induction s rule: json_chars.induct)
  case (2 c s)
  show ?case
  proof (cases "(of_char c :: nat) < 128")
    case True
    then show ?thesis using 2(1) json_ascii_line by (simp add: json_chars.simps)
  next
    case False
    then show ?thesis using 2(2-5) [OF False refl] first_rune_high [OF False, of s]
      by (subst json_chars.simps) (simp add: Let_def)
  qed
qed (simp add: json_chars.simps)

lemma json_string_line: "CHR 0x0A \<notin> set (json_string s)"
  using json_chars_line by (simp add: json_string_def)

lemma getu4_range:
  assumes "getu4 s = Some r"
  shows "r < 0x10000"
proof -
  have u: "a < 16" if "unhex c = Some a" for c a
    using that by (auto simp: unhex_def between_def split: if_splits)
  obtain a b c d where s: "map unhex (take 4 s) = [Some a, Some b, Some c, Some d]"
    using assms by (auto simp: getu4_def split: list.splits option.splits)
  have "\<forall>v \<in> set (map unhex (take 4 s)). \<forall>a. v = Some a \<longrightarrow> a < 16" using u by auto
  then have "a < 16" "b < 16" "c < 16" "d < 16" unfolding s by simp_all
  then show ?thesis using assms s by (simp add: getu4_def)
qed

lemma json_escape_valid:
  assumes "json_escape s = Some (out, r)"
  shows "valid_utf8 out"
proof -
  have repl: "valid_utf8 replacementChar"
    unfolding replacementChar_def by (rule valid_utf8_encode) (simp_all add: between_nat_def)
  have uni: "valid_utf8 out" if u: "unicodeEscape s' = Some (out, r')" for s' r'
  proof -
    obtain n where n: "getu4 s' = Some n" using u by (auto simp: unicodeEscape_def split: option.splits)
    note range = getu4_range [OF n]
    show ?thesis
    proof (cases "between_nat 0xD800 n 0xDFFF")
      case True
      show ?thesis
      proof (cases "lowSurrogate (drop 4 s')")
        case None
        then show ?thesis using u n True repl by (auto simp: unicodeEscape_def Let_def)
      next
        case (Some n2)
        then have n2: "between_nat 0xDC00 n2 0xDFFF" by (auto simp: lowSurrogate_def split: if_splits option.splits)
        have "valid_utf8 (utf8_encode (0x10000 + (n - 0xD800) * 1024 + (n2 - 0xDC00)))" if "n < 0xDC00"
          using n2 that True by (intro valid_utf8_encode) (auto simp: between_nat_def)
        then show ?thesis using u n True repl Some by (auto simp: unicodeEscape_def Let_def split: if_splits)
      qed
    next
      case False
      then have "valid_utf8 (utf8_encode n)" using range by (intro valid_utf8_encode) auto
      then show ?thesis using u n False by (simp add: unicodeEscape_def Let_def)
    qed
  qed
  show ?thesis
    using assms by (auto simp: json_escape_def valid_utf8_ascii split: list.splits if_splits dest: uni)
qed

lemma json_str_valid: "json_str s = Some (t, r) \<Longrightarrow> valid_utf8 t"
proof (induction s arbitrary: t r rule: json_str.induct)
  case (2 c s)
  define n where "n = first_rune (c # s)"
  have repl: "valid_utf8 replacementChar"
    unfolding replacementChar_def by (rule valid_utf8_encode) (simp_all add: between_nat_def)
  consider (quote) "c = CHR 0x22" | (escaped) "c \<noteq> CHR 0x22" "c = CHR 0x5C"
    | (control) "c \<noteq> CHR 0x22" "c \<noteq> CHR 0x5C" "(of_char c :: nat) < 32"
    | (ascii) "c \<noteq> CHR 0x22" "c \<noteq> CHR 0x5C" "\<not> (of_char c :: nat) < 32" "(of_char c :: nat) < 128"
    | (bad) "c \<noteq> CHR 0x22" "c \<noteq> CHR 0x5C" "\<not> (of_char c :: nat) < 128" "n = 0"
    | (rune) "c \<noteq> CHR 0x22" "c \<noteq> CHR 0x5C" "\<not> (of_char c :: nat) < 128" "n \<noteq> 0"
    by linarith
  then show ?case
  proof cases
    case quote
    with "2.prems" show ?thesis by (simp add: json_str.simps valid_utf8.simps)
  next
    case escaped
    with "2.prems" obtain out r' u where e: "json_escape s = Some (out, r')" "json_str r' = Some (u, r)" "t = out @ u"
      by (auto simp: json_str.simps prefixed_Some split: option.splits)
    then show ?thesis using "2.IH"(1) [OF escaped(1,2) e(1) refl e(2)] json_escape_valid [OF e(1)]
      by (simp add: valid_utf8_app)
  next
    case control
    with "2.prems" show ?thesis by (simp add: json_str.simps)
  next
    case ascii
    with "2.prems" obtain u where "json_str s = Some (u, r)" "t = [c] @ u" by (auto simp: json_str.simps prefixed_Some)
    with "2.IH"(2) ascii show ?thesis using valid_utf8_app [OF valid_utf8_ascii] by fastforce
  next
    case bad
    with "2.prems" obtain u where "json_str s = Some (u, r)" "t = replacementChar @ u"
      by (auto simp: json_str.simps prefixed_Some Let_def n_def)
    with "2.IH"(3) [OF _ _ _ _ n_def] bad show ?thesis using valid_utf8_app [OF repl] by fastforce
  next
    case rune
    with "2.prems" obtain u where u: "json_str (drop (n - 1) s) = Some (u, r)" "t = take n (c # s) @ u"
      by (auto simp: json_str.simps prefixed_Some Let_def n_def)
    have "valid_utf8 u" by (rule "2.IH"(4) [OF _ _ _ _ n_def _ u(1)]) (use rune in auto)
    then show ?thesis
      using u(2) valid_utf8_app [OF valid_utf8_block [OF rune(3) n_def [symmetric] rune(4)]] by simp
  qed
qed (simp add: json_str.simps)

fun tree_utf8 :: "json_tree \<Rightarrow> bool" where
  "tree_utf8 (TStr s) = valid_utf8 s"
| "tree_utf8 (TArr ts) = list_all tree_utf8 ts"
| "tree_utf8 (TObj kts) = list_all (\<lambda>e. valid_utf8 (fst e) \<and> tree_utf8 (snd e)) kts"
| "tree_utf8 _ = True"

fun tree_depth :: "json_tree \<Rightarrow> nat" where
  "tree_depth (TArr ts) = Suc (Max (set (0 # map tree_depth ts)))"
| "tree_depth (TObj kts) = Suc (Max (set (0 # map (\<lambda>e. tree_depth (snd e)) kts)))"
| "tree_depth _ = 0"

lemma memberName_valid: "memberName s = Some (k, r) \<Longrightarrow> valid_utf8 k"
  by (fastforce simp: memberName_def split: list.splits option.splits if_splits dest: json_str_valid)

lemma json_literal_Some: "json_literal w v s = Some (t, r) \<Longrightarrow> t = v"
  by (simp add: json_literal_def split: if_splits)

lemma json_value_clean:
  "json_value d s = Some (v, r) \<Longrightarrow> tree_utf8 v \<and> tree_depth v \<le> d"
  "json_elements d s = Some (vs, r) \<Longrightarrow> \<forall>v \<in> set vs. tree_utf8 v \<and> tree_depth v \<le> d"
  "json_members d s = Some (kvs, r) \<Longrightarrow> \<forall>e \<in> set kvs. valid_utf8 (fst e) \<and> tree_utf8 (snd e) \<and> tree_depth (snd e) \<le> d"
proof (induction d s and d s and d s arbitrary: v r and vs r and kvs r
    rule: json_value_json_elements_json_members.induct)
  case (1 depth s)
  then obtain c t where s: "skipSpace s = c # t" by (auto simp: json_value.simps [of depth s] split: list.splits)
  show ?case
    using "1.prems" "1.IH" [OF s] s
    by (subst (asm) json_value.simps)
      (fastforce simp: list_all_iff Suc_le_eq split: if_splits option.splits
        dest!: json_literal_Some dest: json_str_valid)
next
  case (2 depth s)
  then obtain w s' c t where s: "json_value depth s = Some (w, s')" "skipSpace s' = c # t"
    by (auto simp: json_elements_step [of depth s] split: list.splits option.splits)
  have "length t < length s" using skipSpace_Cons [OF s(2)] json_lengths(1) [OF s(1)] by simp
  then show ?case
    using "2.prems" "2.IH"(1) [OF s(1)] "2.IH"(2) [OF s(1) refl s(2)] s
    by (subst (asm) json_elements_step) (auto split: if_splits option.splits)
next
  case (3 depth s)
  then obtain k s1 w s' c t where s: "memberName s = Some (k, s1)" "json_value depth s1 = Some (w, s')" "skipSpace s' = c # t"
    by (auto simp: json_members_step [of depth s] split: list.splits option.splits)
  have "length t < length s"
    using skipSpace_Cons [OF s(3)] json_lengths(1) [OF s(2)] memberName_length [OF s(1)] by simp
  then show ?case
    using "3.prems" "3.IH"(1) [OF s(1) refl s(2)] "3.IH"(2) [OF s(1) refl s(2) refl s(3)] s memberName_valid [OF s(1)]
    by (subst (asm) json_members_step) (fastforce split: if_splits option.splits)
qed


text \<open>Values as a decoder yields them: they can be sent on and arrive unchanged.\<close>

definition clean :: "nat \<Rightarrow> json \<Rightarrow> bool" where
  "clean d v \<longleftrightarrow> json_ok v \<and> json_distinct v \<and> json_depth v \<le> d"

definition clean_args :: "nat \<Rightarrow> (string \<times> json) list \<Rightarrow> bool" where
  "clean_args d m \<longleftrightarrow> distinct (map fst m) \<and> (\<forall>e \<in> set m. valid_utf8 (fst e) \<and> clean d (snd e))"

lemma clean_args_JObj: "clean (Suc d) (JObj m) \<longleftrightarrow> clean_args d m"
  by (auto simp: clean_def clean_args_def list_all_iff)

lemma clean_JNull [simp]: "clean d JNull"
  by (simp add: clean_def)

lemma exact64_number: "number_value s = Fin q \<Longrightarrow> exact64 q"
  by (auto simp: number_value_def f64_def Let_def exact64_def abs_less_iff not_le split: option.splits if_splits)

lemma mem_update: "e \<in> set (AList.update k v m) \<Longrightarrow> e = (k, v) \<or> e \<in> set m"
  by (induction m) (auto split: if_splits)

lemma clean_args_update: "clean_args d m \<Longrightarrow> valid_utf8 k \<Longrightarrow> clean d v \<Longrightarrow> clean_args d (AList.update k v m)"
  by (auto simp: clean_args_def map_ok_update dest!: mem_update)

lemma clean_args_dedup:
  assumes "\<forall>e \<in> set es. valid_utf8 (fst e) \<and> clean d (snd e)"
  shows "clean_args d (dedup es)"
proof -
  have "clean_args d (foldl (\<lambda>m e. AList.update (fst e) (snd e) m) m es)" if "clean_args d m" for m
    using that assms by (induction es arbitrary: m) (auto intro: clean_args_update)
  from this [of "[]"] show ?thesis by (simp add: dedup_def clean_args_def)
qed

lemma clean_interface: "tree_utf8 t \<Longrightarrow> in_range t \<Longrightarrow> tree_depth t \<le> d \<Longrightarrow> clean d (to_interface t)"
proof (induction t arbitrary: d rule: to_interface.induct)
  case (3 s)
  then obtain q where "number_value s = Fin q" by (cases "number_value s") auto
  then show ?case by (simp add: clean_def exact64_number number_json_def)
next
  case (5 ts)
  then obtain n where "d = Suc n" "\<forall>t \<in> set ts. tree_depth t \<le> n" by (auto simp only: tree_depth.simps depth_Max)
  with 5 show ?case by (auto simp: clean_def list_all_iff)
next
  case (6 kts)
  then obtain n where n: "d = Suc n" "\<forall>e \<in> set kts. tree_depth (snd e) \<le> n" by (auto simp only: tree_depth.simps depth_Max)
  with 6 have "\<forall>e \<in> set (map (\<lambda>e. (fst e, to_interface (snd e))) kts). valid_utf8 (fst e) \<and> clean n (snd e)"
    by (auto simp: list_all_iff)
  from clean_args_dedup [OF this] show ?case by (simp add: n(1) clean_args_JObj)
qed (simp_all add: clean_def)

text \<open>Decoded values have one text each, whatever the order of their maps.\<close>

fun decoded :: "json \<Rightarrow> bool" where
  "decoded (JInt n) \<longleftrightarrow> False"
| "decoded (JStruct kvs) \<longleftrightarrow> False"
| "decoded (JArr vs) \<longleftrightarrow> list_all decoded vs"
| "decoded (JObj kvs) \<longleftrightarrow> list_all (\<lambda>e. decoded (snd e)) kvs"
| "decoded v \<longleftrightarrow> True"

lemma decoded_dedup:
  assumes "\<forall>e \<in> set es. decoded (snd e)"
  shows "\<forall>e \<in> set (dedup es). decoded (snd e)"
proof -
  have "\<forall>e \<in> set (foldl (\<lambda>m e. AList.update (fst e) (snd e) m) m es). decoded (snd e)"
    if "\<forall>e \<in> set m. decoded (snd e)" for m :: "(string \<times> json) list"
    using that assms
  proof (induction es arbitrary: m)
    case (Cons e es)
    have "\<forall>e' \<in> set (AList.update (fst e) (snd e) m). decoded (snd e')" using Cons.prems by (auto dest!: mem_update)
    with Cons.IH Cons.prems(2) show ?case by simp
  qed simp
  from this [of "[]"] show ?thesis by (simp add: dedup_def)
qed

lemma decoded_interface: "decoded (to_interface t)"
proof (induction t rule: to_interface.induct)
  case (6 kts)
  then show ?case using decoded_dedup [of "map (\<lambda>e. (fst e, to_interface (snd e))) kts"] by (auto simp: list_all_iff)
qed (auto simp: list_all_iff number_json_def Let_def)

lemma decoded_print: "decoded v \<Longrightarrow> json_print (json_canon v) = json_print v"
proof (induction v rule: json_canon.induct)
  case (2 vs)
  then have "map (\<lambda>v. json_print (json_canon v)) vs = map json_print vs" by (auto simp: list_all_iff)
  then show ?case unfolding json_canon.simps json_print.simps map_map comp_def by (simp only:)
next
  case (3 kvs)
  let ?c = "\<lambda>e. (fst e, json_canon (snd e))"
  have "sort_key fst (sort_key fst kvs) = sort_key fst kvs" by (rule sort_key_id_if_sorted) simp
  then have "sort_key fst (sort_key fst (map ?c kvs)) = map ?c (sort_key fst kvs)"
    by (simp only: sort_key_map_snd)
  moreover have "map member_text (map ?c (sort_key fst kvs)) = map member_text (sort_key fst kvs)"
    using 3 by (auto simp: member_text_def list_all_iff)
  ultimately show ?case unfolding json_canon.simps json_print_members by (simp only:)
qed simp_all

lemma DecodeArgs_decoded:
  assumes "DecodeArgs b = Some (Some m)"
  shows "decoded (JObj m)"
proof -
  obtain kts where "to_interface (TObj kts) = JObj m"
    using assms by (auto simp: DecodeArgs_def split: option.splits json_tree.splits if_splits)
  then show ?thesis using decoded_interface by metis
qed

lemma DecodeArgs_clean:
  assumes "DecodeArgs b = Some (Some m)"
  shows "clean_args (maxNestingDepth - 1) m"
proof -
  obtain kts r where t: "json_value maxNestingDepth (fst b) = Some (TObj kts, r)" "in_range (TObj kts)"
    "to_interface (TObj kts) = JObj m"
    using assms by (auto simp: DecodeArgs_def split: option.splits json_tree.splits if_splits)
  have "clean maxNestingDepth (to_interface (TObj kts))"
    using json_value_clean(1) [OF t(1)] t(2) by (intro clean_interface) auto
  then have "clean (Suc (maxNestingDepth - 1)) (JObj m)" by (simp only: t(3)) (simp add: maxNestingDepth_def)
  then show ?thesis by (simp only: clean_args_JObj)
qed

text \<open>Sending and decoding again changes nothing but the order of keys.\<close>

lemma DecodeArgs_send:
  assumes "clean_args (maxNestingDepth - 1) m"
  shows "DecodeArgs (json_print (JObj m), e) = Some (Some (canon_args m))"
proof -
  have "clean (Suc (maxNestingDepth - 1)) (JObj m)" using assms by (simp only: clean_args_JObj)
  then show ?thesis using DecodeArgs_print [of m "[]" e] by (simp add: clean_def maxNestingDepth_def del: json_print.simps)
qed

end
