(* ===== verification/Flow.thy ===== *)
theory Flow
  imports Proxy Json
begin

text \<open>
  The flow handler of src/proxy/proxy.go with the flow types of src/types/flows.go and the
  cache clients of src/types/cache.go. A flow request is answered from the cache when it can
  be; otherwise the handler runs the flows of its children, sends their outputs with the
  arguments to the function, and stores the function's response.

  The state is the response writer, the world and the orchestrator (or nil). The cache server
  and the network are parameters that act on the world. A Go map that may be nil is an option; \<open>requestBody\<close> and \<open>flowInput.Args\<close> are the
  same map in the code, hence one variable here.
\<close>

subsection \<open>Flows\<close>

record FlowChild =
  ch_args_map :: "(string, string) gomap"
  ch_function :: string

record Flow =
  fl_args :: "string list"
  fl_children :: "(string, FlowChild) gomap"
  fl_caching :: bool
  fl_cache_ttl :: "64 word"
  fl_is_third_party :: bool
  fl_third_party_url :: "string option"

type_synonym Flows = "(string, Flow) gomap"

record FlowOutput =
  fo_data :: string
  fo_function :: string

type_synonym args = "(string, json) gomap"

record FlowInput =
  fi_args :: "args option"
  fi_children :: "(string, FlowOutput) gomap"

definition no_flow :: Flow where
  "no_flow = \<lparr>fl_args = [], fl_children = [], fl_caching = False, fl_cache_ttl = 0,
     fl_is_third_party = False, fl_third_party_url = None\<rparr>"

text \<open>Reading a missing entry of the map yields the zero value.\<close>

definition flowOf :: "Flows \<Rightarrow> string \<Rightarrow> Flow" where
  "flowOf flows n = (case map_of flows n of None \<Rightarrow> no_flow | Some f \<Rightarrow> f)"

subsection \<open>Cache clients\<close>

text \<open>
  \<open>Get\<close> returns bytes (or nil) and an error; a failed \<open>SetEx\<close> returns an error. The client
  libraries are parameters.
\<close>

record 'x cache_client =
  cc_Get :: "string \<Rightarrow> 'x \<Rightarrow> (string option \<times> string option) \<times> 'x"
  cc_SetEx :: "string \<Rightarrow> string \<Rightarrow> duration \<Rightarrow> 'x \<Rightarrow> string option \<times> 'x"

record 'x redis_client =
  rd_Get :: "string \<Rightarrow> 'x \<Rightarrow> (string option \<times> string option) \<times> 'x"
  rd_SetEx :: "string \<Rightarrow> string \<Rightarrow> duration \<Rightarrow> 'x \<Rightarrow> string option \<times> 'x"

record 'x paper_client =
  pc_Get :: "string \<Rightarrow> 'x \<Rightarrow> (string + string) \<times> 'x"
  pc_Set :: "string \<Rightarrow> string \<Rightarrow> 32 word \<Rightarrow> 'x \<Rightarrow> string option \<times> 'x"

definition RedisClientWrapper :: "'x redis_client \<Rightarrow> 'x cache_client" where
  "RedisClientWrapper c = \<lparr>cc_Get = rd_Get c, cc_SetEx = rd_SetEx c\<rparr>"

text \<open>
  A conversion of a float64 to \<open>uint32\<close> truncates; out of range its value depends on the
  implementation, the argument \<open>oor\<close>.
\<close>

definition u32_of_f64 :: "(float64 \<Rightarrow> 32 word) \<Rightarrow> float64 \<Rightarrow> 32 word" where
  "u32_of_f64 oor x =
     (case f64_trunc x of
        Some n \<Rightarrow> if 0 \<le> n \<and> n < 2 ^ 32 then word_of_int n else oor x
      | None \<Rightarrow> oor x)"

definition PaperCacheClientWrapper :: "(float64 \<Rightarrow> 32 word) \<Rightarrow> 'x paper_client \<Rightarrow> 'x cache_client" where
  "PaperCacheClientWrapper oor c =
     \<lparr>cc_Get = (\<lambda>key x. case pc_Get c key x of
        (Inl err, x) \<Rightarrow> ((None, Some err), x)
      | (Inr val, x) \<Rightarrow> ((Some val, None), x)),
      cc_SetEx = (\<lambda>key value ttl. pc_Set c key value (u32_of_f64 oor (duration_seconds ttl)))\<rparr>"

subsection \<open>The environment\<close>

record ('w, 'x) flow_env =
  fe_proxy :: "('w, 'x) proxy_env"
  fe_cache :: "'x cache_client"
  fe_orch :: "'x env"

type_synonym ('w, 'x) flow_state = "'w \<times> 'x \<times> orchestrator option"

definition flowNameField :: string where "flowNameField = ''openfaas_flow_function_name''"

definition args_json :: "args option \<Rightarrow> json" where
  "args_json m = (case m of None \<Rightarrow> JNull | Some es \<Rightarrow> JObj es)"

definition flowInput_json :: "FlowInput \<Rightarrow> json" where
  "flowInput_json fi =
     JObj [(''args'', args_json (fi_args fi)),
       (''children'', JObj (map (\<lambda>(alias, out).
          (alias, JObj [(''data'', JStr (b64_encode (fo_data out))), (''function'', JStr (fo_function out))]))
        (fi_children fi)))]"

text \<open>Errors of \<open>json.Marshal\<close> are printed or ignored, and the bytes are then nil.\<close>

definition marshalOrEmpty :: "json \<Rightarrow> string" where
  "marshalOrEmpty v = (case json_Marshal v of None \<Rightarrow> [] | Some b \<Rightarrow> b)"

definition cacheKey :: "args \<Rightarrow> string" where
  "cacheKey requestBody = hex_string (sha1_Sum (marshalOrEmpty (JObj requestBody)))"

definition nilPanic :: string where "nilPanic = ''invalid memory address or nil pointer dereference''"

subsection \<open>Running the children\<close>

definition childArgs :: "args option \<Rightarrow> FlowChild \<Rightarrow> args" where
  "childArgs fargs child =
     map (\<lambda>(argField, mapField).
       (argField, case fargs of None \<Rightarrow> JNull | Some m \<Rightarrow> (case map_of m mapField of None \<Rightarrow> JNull | Some v \<Rightarrow> v)))
     (ch_args_map child)"

text \<open>\<open>None\<close>: the nil pointer \<open>ThirdPartyURL\<close> is dereferenced.\<close>

definition childURL :: "Flows \<Rightarrow> FlowChild \<Rightarrow> string option" where
  "childURL flows child =
     (let f = flowOf flows (ch_function child)
      in if fl_is_third_party f then fl_third_party_url f
         else Some (''http://127.0.0.1:8081/flow/'' @ ch_function child))"

definition childRequest :: "Flows \<Rightarrow> args option \<Rightarrow> FlowChild \<Rightarrow> request option" where
  "childRequest flows fargs child =
     (case childURL flows child of
        None \<Rightarrow> None
      | Some destURL \<Rightarrow>
          (let childRequestBody = marshalOrEmpty (JObj (childArgs fargs child))
           in case http_NewRequest ''POST'' destURL (Some (childRequestBody, None)) of
                None \<Rightarrow> None
              | Some req \<Rightarrow>
                  Some (req\<lparr>rq_header := header_Set ''Content-Type'' ''application/json'' (rq_header req)\<rparr>)))"

text \<open>
  One child. Failed calls are only printed: a nil request or response is then used, and the
  handler panics, as it does on the nil pointer of a third party without a URL.
\<close>

definition runChild ::
    "('w, 'x) flow_env \<Rightarrow> Flows \<Rightarrow> args option \<Rightarrow> FlowChild \<Rightarrow> 'x \<Rightarrow> FlowOutput outcome \<times> 'x" where
  "runChild env flows fargs child x =
     (case childRequest flows fargs child of
        None \<Rightarrow> (Panics nilPanic, x)
      | Some req \<Rightarrow>
          (case http_do (fe_proxy env) sharedHTTPClient req x of
             ((None, err), x) \<Rightarrow> (Panics nilPanic, x)
           | ((Some resp, err), x) \<Rightarrow>
               (case rs_body resp of
                  None \<Rightarrow> (Panics nilPanic, x)
                | Some (data, readErr) \<Rightarrow>
                    (Done \<lparr>fo_data = data, fo_function = ch_function child\<rparr>, x))))"

fun runChildren ::
    "('w, 'x) flow_env \<Rightarrow> Flows \<Rightarrow> (string \<times> FlowChild) list \<Rightarrow> FlowInput \<Rightarrow> 'x \<Rightarrow> FlowInput outcome \<times> 'x" where
  "runChildren env flows [] fi x = (Done fi, x)"
| "runChildren env flows ((alias, child) # cs) fi x =
     then_do (runChild env flows (fi_args fi) child x) (\<lambda>out x.
       runChildren env flows cs (fi\<lparr>fi_children := AList.update alias out (fi_children fi)\<rparr>) x)"

subsection \<open>The handler\<close>

definition recordAccess ::
    "('w, 'x) flow_env \<Rightarrow> string \<Rightarrow> bool \<Rightarrow> 'x \<times> orchestrator option \<Rightarrow> 'x \<times> orchestrator option" where
  "recordAccess env key isHit s =
     (case s of
        (x, None) \<Rightarrow> (x, None)
      | (x, Some orc) \<Rightarrow> (case orch_RecordAccess (fe_orch env) orc key isHit x of (orc, x) \<Rightarrow> (x, Some orc)))"

definition on_response :: "('w \<Rightarrow> 'a outcome \<times> 'w) \<Rightarrow> ('w, 'x) flow_state \<Rightarrow> 'a outcome \<times> ('w, 'x) flow_state" where
  "on_response f s = (case f (fst s) of (a, w) \<Rightarrow> (a, w, snd s))"

text \<open>The status goes out before the content type is set.\<close>

definition serveCached :: "'w writer \<Rightarrow> string option \<Rightarrow> 'w \<Rightarrow> unit outcome \<times> 'w" where
  "serveCached ops cachedResponseBytes w =
     then_do (w_write_header ops 200 w) (\<lambda>_ w.
       let w = w_set_header ops (header_Set ''Content-Type'' ''application/json'' (w_header ops w)) w
       in io_Copy ops (case cachedResponseBytes of None \<Rightarrow> [] | Some b \<Rightarrow> b) w)"

definition storeResponse ::
    "('w, 'x) flow_env \<Rightarrow> string \<Rightarrow> Flow \<Rightarrow> args option \<Rightarrow> string option \<Rightarrow> ('w, 'x) flow_state \<Rightarrow>
     unit outcome \<times> ('w, 'x) flow_state" where
  "storeResponse env functionName flow fargs cacheResponse s =
     (case s of (w, x, orc) \<Rightarrow>
        (case fargs of
           None \<Rightarrow> (Panics ''assignment to entry in nil map'', s)
         | Some requestBody \<Rightarrow>
             (let requestBody = AList.update flowNameField (JStr functionName) requestBody;
                  hashString = cacheKey requestBody
              in case cacheResponse of
                   None \<Rightarrow> (Panics nilPanic, s)
                 | Some responseBytes \<Rightarrow>
                     (case cc_SetEx (fe_cache env) hashString responseBytes (seconds_u64 (fl_cache_ttl flow)) x of
                        (err, x) \<Rightarrow> (Done (), w, x, orc)))))"

text \<open>The body of the request is replaced by the input of the function.\<close>

definition functionRequest :: "request \<Rightarrow> FlowInput \<Rightarrow> request" where
  "functionRequest r fi = r\<lparr>rq_body := Some (marshalOrEmpty (flowInput_json fi), None)\<rparr>"

definition runFlow ::
    "'w writer \<Rightarrow> ('w, 'x) flow_env \<Rightarrow> faas_config \<Rightarrow> 'x resolver \<Rightarrow> Flows \<Rightarrow> (string \<times> FlowChild) range_order \<Rightarrow>
     request \<Rightarrow> string \<Rightarrow> Flow \<Rightarrow> args option \<Rightarrow> ('w, 'x) flow_state \<Rightarrow> unit outcome \<times> ('w, 'x) flow_state" where
  "runFlow ops env config resolver flows ord r functionName flow fargs s =
     (case s of (w, x, orc) \<Rightarrow>
        (case runChildren env flows (ord (fl_children flow)) \<lparr>fi_args = fargs, fi_children = []\<rparr> x of
           (Panics m, x) \<Rightarrow> (Panics m, w, x, orc)
         | (Done flowInput, x) \<Rightarrow>
             (let r = functionRequest r flowInput;
                  caching = (fc_enable_caching config \<and> fl_caching flow)
              in case proxyRequest ops (fe_proxy env) (NewProxyClientFromConfig config) resolver caching r (w, x) of
                   (Panics m, w, x) \<Rightarrow> (Panics m, w, x, orc)
                 | (Done cacheResponse, w, x) \<Rightarrow>
                     if caching
                     then storeResponse env functionName flow (fi_args flowInput) cacheResponse (w, x, orc)
                     else (Done (), w, x, orc))))"

definition flowHandler ::
    "'w writer \<Rightarrow> ('w, 'x) flow_env \<Rightarrow> faas_config \<Rightarrow> 'x resolver \<Rightarrow> Flows \<Rightarrow> (string \<times> FlowChild) range_order \<Rightarrow>
     ('w, 'x) flow_state handler" where
  "flowHandler ops env config resolver flows ord r s =
     (let functionName = path_var r ''name''
      in if functionName = []
         then on_response (Errorf ops 400 ''Provide function name in the request path'' []) s
         else
           let flow = flowOf flows functionName
           in then_do
                (if map_of flows functionName = None
                 then on_response (Errorf ops 400 ''Can not find this kind of function in flows config'' []) s
                 else (Done (), s)) (\<lambda>_ s.
                case rq_body r of
                  None \<Rightarrow> (Panics nilPanic, s)
                | Some bdy \<Rightarrow>
                    (case DecodeArgs bdy of
                       None \<Rightarrow> on_response (http_Error ops ''Bad request'' 400) s
                     | Some requestBody \<Rightarrow>
                         if fc_enable_caching config \<and> fl_caching flow
                         then (case requestBody of
                                 None \<Rightarrow> (Panics ''assignment to entry in nil map'', s)
                               | Some m \<Rightarrow>
                                   (let m = AList.update flowNameField (JStr functionName) m;
                                        hashString = cacheKey m;
                                        (w, x, orc) = s;
                                        ((cachedResponseBytes, err), x) = cc_Get (fe_cache env) hashString x;
                                        isHit = (err = None \<and> cachedResponseBytes \<noteq> None);
                                        (x, orc) = recordAccess env hashString isHit (x, orc)
                                    in if err = None
                                       then on_response (serveCached ops cachedResponseBytes) (w, x, orc)
                                       else runFlow ops env config resolver flows ord r functionName flow (Some m) (w, x, orc)))
                         else runFlow ops env config resolver flows ord r functionName flow requestBody s)))"

subsection \<open>Construction\<close>

text \<open>
  The orchestrator is used only with both features enabled and a PaperCache client (the type
  assertion \<open>isPaper\<close>), and only if its initialisation succeeds; its loop is then started in
  a goroutine.
\<close>

definition initOrchestrator ::
    "'x env \<Rightarrow> orders \<Rightarrow> faas_config \<Rightarrow> bool \<Rightarrow> 'x \<Rightarrow> orchestrator option \<times> 'x" where
  "initOrchestrator env ords config isPaper x =
     (if \<not> fc_enable_orchestrator config then (None, x)
      else if \<not> fc_enable_caching config then (None, x)
      else if isPaper
      then (case NewIntelligentOrchestrator env (Some (buildOrchestratorConfig config)) x of
              (orc, x) \<Rightarrow>
                (case orch_Initialize env ords orc x of
                   (Some err, _, x) \<Rightarrow> (None, x)
                 | (None, orc, x) \<Rightarrow> (Some orc, x)))
      else (None, x))"

definition NewFlowHandler ::
    "'w writer \<Rightarrow> ('w, 'x) flow_env \<Rightarrow> orders \<Rightarrow> faas_config \<Rightarrow> bool \<Rightarrow> 'x resolver option \<Rightarrow> Flows \<Rightarrow>
     (string \<times> FlowChild) range_order \<Rightarrow> 'x \<Rightarrow> (('w, 'x) flow_state handler \<times> orchestrator option) outcome \<times> 'x" where
  "NewFlowHandler ops env ords config isPaper resolver flows ord x =
     (case resolver of
        None \<Rightarrow> (Panics ''NewFlowHandler: empty proxy handler resolver, cannot be nil'', x)
      | Some resolver \<Rightarrow>
          (case initOrchestrator (fe_orch env) ords config isPaper x of
             (orc, x) \<Rightarrow> (Done (flowHandler ops env config resolver flows ord, orc), x)))"

subsection \<open>Answers from the cache\<close>

text \<open>A request of a caching flow, with its decoded arguments and the name field added.\<close>

definition cached_request ::
    "faas_config \<Rightarrow> Flows \<Rightarrow> request \<Rightarrow> Flow \<Rightarrow> args \<Rightarrow> bool" where
  "cached_request config flows r flow m \<longleftrightarrow>
     path_var r ''name'' \<noteq> [] \<and> map_of flows (path_var r ''name'') = Some flow \<and>
     fc_enable_caching config \<and> fl_caching flow \<and>
     (\<exists>b m0. rq_body r = Some b \<and> DecodeArgs b = Some (Some m0) \<and>
        m = AList.update flowNameField (JStr (path_var r ''name'')) m0)"

lemma flowHandler_cached:
  assumes "cached_request config flows r flow m"
    and "cc_Get (fe_cache env) (cacheKey m) x = ((bytes, err), x1)"
    and "recordAccess env (cacheKey m) (err = None \<and> bytes \<noteq> None) (x1, orc) = (x2, orc2)"
  shows "flowHandler ops env config resolver flows ord r (w, x, orc) =
    (if err = None then on_response (serveCached ops bytes) (w, x2, orc2)
     else runFlow ops env config resolver flows ord r (path_var r ''name'') flow (Some m) (w, x2, orc2))"
  using assms by (auto simp: cached_request_def flowHandler_def flowOf_def Let_def)

definition fresh :: "server_writer \<Rightarrow> bool" where
  "fresh w \<longleftrightarrow> sw_sent w = None \<and> \<not> sw_hijacked w \<and> contentLimit (sw_header w) = None"

lemma serveCached_response:
  assumes "fresh w"
  shows "\<exists>w'. serveCached server_ops bytes w = (Done (), w') \<and> sw_sent w' = Some (200, sw_header w) \<and>
    sw_body w' = sw_body w @ (case bytes of None \<Rightarrow> [] | Some b \<Rightarrow> b)"
proof -
  let ?d = "case bytes of None \<Rightarrow> [] | Some b \<Rightarrow> b"
  let ?w = "w\<lparr>sw_sent := Some (200, sw_header w),
    sw_header := header_Set ''Content-Type'' ''application/json'' (sw_header w)\<rparr>"
  obtain w' where "io_Copy server_ops ?d ?w = (Done (), w')" "sw_sent w' = Some (200, sw_header w)"
    "sw_body w' = sw_body w @ ?d"
    using server.io_Copy_sent [of ?w 200 "sw_header w" ?d] assms by (auto simp: fresh_def bodyAllowed_def)
  then show ?thesis
    using assms by (auto simp: serveCached_def fresh_def sw_ok_simps sw_WriteHeader_def Let_def)
qed

text \<open>
  A cache hit is answered with status 200 and exactly the cached bytes; the
  world is left as the cache lookup and the recorded access leave it, so no child and no
  function is called. The content type that the code sets is not among the headers sent.
\<close>

theorem cache_hit:
  assumes "cached_request config flows r flow m" and "fresh w"
    and "cc_Get (fe_cache env) (cacheKey m) x = ((Some bytes, None), x1)"
    and "recordAccess env (cacheKey m) True (x1, orc) = (x2, orc2)"
  shows "\<exists>w'. flowHandler server_ops env config resolver flows ord r (w, x, orc) = (Done (), w', x2, orc2) \<and>
    sw_sent w' = Some (200, sw_header w) \<and> sw_body w' = sw_body w @ bytes"
  using flowHandler_cached [OF assms(1,3), of orc x2 orc2] assms(4) serveCached_response [OF assms(2), of "Some bytes"]
  by (auto simp: on_response_def)

subsection \<open>Running a flow\<close>

lemma runFlow_relay:
  assumes "runChildren env flows (ord (fl_children flow)) \<lparr>fi_args = fargs, fi_children = []\<rparr> x = (Done fi, x1)"
    and "decide (fe_proxy env) (NewProxyClientFromConfig config) resolver (functionRequest r fi) x1 = (Relay rs, x2)"
    and "copyResponse ops (functionRequest r fi) rs (fc_enable_caching config \<and> fl_caching flow) w = (Done c, w')"
  shows "runFlow ops env config resolver flows ord r n flow fargs (w, x, orc) =
    (if fc_enable_caching config \<and> fl_caching flow then storeResponse env n flow (fi_args fi) c (w', x2, orc)
     else (Done (), w', x2, orc))"
  using assms by (simp add: runFlow_def Let_def proxyRequest_decide perform_def on_writer_def)

lemma runChildren_args:
  "runChildren env flows cs fi x = (Done fi', x') \<Longrightarrow> fi_args fi' = fi_args fi"
proof (induction env flows cs fi x rule: runChildren.induct)
  case (2 env flows a child cs fi x)
  then show ?case by (cases "runChild env flows (fi_args fi) child x"; cases "fst (runChild env flows (fi_args fi) child x)") auto
qed simp

lemma cached_request_args:
  assumes "cached_request config flows r flow m"
  shows "AList.update flowNameField (JStr (path_var r ''name'')) m = m"
proof -
  have "AList.update k v (AList.update k v m0) = AList.update k v m0" for k v and m0 :: args
    by (induction m0) auto
  with assms show ?thesis by (auto simp: cached_request_def)
qed

text \<open>A successful run after a miss, and what it leaves.\<close>

definition miss_run ::
    "(server_writer, 'x) flow_env \<Rightarrow> faas_config \<Rightarrow> 'x resolver \<Rightarrow> Flows \<Rightarrow> (string \<times> FlowChild) range_order \<Rightarrow>
     request \<Rightarrow> Flow \<Rightarrow> args \<Rightarrow> 'x \<times> orchestrator option \<Rightarrow> response \<Rightarrow> string \<Rightarrow> string option \<Rightarrow>
     'x \<times> orchestrator option \<Rightarrow> bool" where
  "miss_run env config resolver flows ord r flow m s rs data setErr s' \<longleftrightarrow>
     (\<exists>x orc bytes err x1 x2 orc2 fi x3 x4 x5 readErr.
        s = (x, orc) \<and> s' = (x5, orc2) \<and>
        cc_Get (fe_cache env) (cacheKey m) x = ((bytes, Some err), x1) \<and>
        recordAccess env (cacheKey m) False (x1, orc) = (x2, orc2) \<and>
        runChildren env flows (ord (fl_children flow)) \<lparr>fi_args = Some m, fi_children = []\<rparr> x2 = (Done fi, x3) \<and>
        decide (fe_proxy env) (NewProxyClientFromConfig config) resolver (functionRequest r fi) x3 = (Relay rs, x4) \<and>
        rs_body rs = Some (data, readErr) \<and> 200 \<le> rs_status rs \<and> rs_status rs \<le> 999 \<and>
        cc_SetEx (fe_cache env) (cacheKey m) data (seconds_u64 (fl_cache_ttl flow)) x4 = (setErr, x5))"

lemma miss_run_response:
  assumes "cached_request config flows r flow m" and "fresh w"
    and "miss_run env config resolver flows ord r flow m (x, orc) rs data setErr (x5, orc2)"
  shows "\<exists>w' h. flowHandler server_ops env config resolver flows ord r (w, x, orc) = (Done (), w', x5, orc2) \<and>
    sw_sent w' = Some (rs_status rs, h) \<and>
    (bodyAllowed (rs_status rs) \<and> contentLimit h = None \<longrightarrow> sw_body w' = sw_body w @ data)"
proof -
  obtain bytes err x1 x2 fi x3 x4 readErr where run:
    "cc_Get (fe_cache env) (cacheKey m) x = ((bytes, Some err), x1)"
    "recordAccess env (cacheKey m) False (x1, orc) = (x2, orc2)"
    "runChildren env flows (ord (fl_children flow)) \<lparr>fi_args = Some m, fi_children = []\<rparr> x2 = (Done fi, x3)"
    "decide (fe_proxy env) (NewProxyClientFromConfig config) resolver (functionRequest r fi) x3 = (Relay rs, x4)"
    "rs_body rs = Some (data, readErr)" "200 \<le> rs_status rs" "rs_status rs \<le> 999"
    "cc_SetEx (fe_cache env) (cacheKey m) data (seconds_u64 (fl_cache_ttl flow)) x4 = (setErr, x5)"
    using assms(3) by (auto simp: miss_run_def)
  have caching: "fc_enable_caching config \<and> fl_caching flow" using assms(1) by (simp add: cached_request_def)
  obtain w' where w': "copyResponse server_ops (functionRequest r fi) rs True w = (Done (Some data), w')"
    "sw_sent w' = Some (rs_status rs, relayed_header (functionRequest r fi) rs (sw_header w))"
    "bodyAllowed (rs_status rs) \<and> contentLimit (relayed_header (functionRequest r fi) rs (sw_header w)) = None \<longrightarrow>
       sw_body w' = sw_body w @ data"
    using server.copyResponse_response [of w rs data readErr "functionRequest r fi" True] assms(2) run(5-7)
    by (auto simp: fresh_def sw_ok_simps)
  have fi: "fi_args fi = Some m" using runChildren_args [OF run(3)] by simp
  have "runFlow server_ops env config resolver flows ord r (path_var r ''name'') flow (Some m) (w, x2, orc2) =
      (Done (), w', x5, orc2)"
    using runFlow_relay [where ord = ord and flow = flow, OF run(3,4), of server_ops w "Some data" w'] w'(1) caching fi
      cached_request_args [OF assms(1)] run(8)
    by (simp add: storeResponse_def Let_def)
  with flowHandler_cached [OF assms(1) run(1), of orc x2 orc2] run(2) w'(2,3) show ?thesis by auto
qed

text \<open>
  Property C16: on a miss the children run first, the function gets their outputs with the
  arguments (to which the cache has added the name field), the client gets the function's
  response, and exactly its body is stored, under the key of the lookup and whatever the
  status of the response is.
\<close>

theorem cache_miss_stores:
  assumes "cached_request config flows r flow m" and "fresh w"
    and "miss_run env config resolver flows ord r flow m (x, orc) rs data setErr (x', orc')"
  shows "\<exists>w' h. flowHandler server_ops env config resolver flows ord r (w, x, orc) = (Done (), w', x', orc') \<and>
    sw_sent w' = Some (rs_status rs, h) \<and>
    (bodyAllowed (rs_status rs) \<and> contentLimit h = None \<longrightarrow> sw_body w' = sw_body w @ data)"
  using assms by (rule miss_run_response)

text \<open>What the flow handler relies on: a value just stored can be looked up.\<close>

definition cache_ok :: "'x cache_client \<Rightarrow> bool" where
  "cache_ok c \<longleftrightarrow> (\<forall>k v ttl x x'. cc_SetEx c k v ttl x = (None, x') \<longrightarrow> fst (cc_Get c k x') = (Some v, None))"

text \<open>
  Property C2: the round trip through the cache: after a successful run the next request with
  the same arguments gets the same body, without a child or a function being called, but
  always with status 200, also for the error response of a function.
\<close>

theorem cache_roundtrip:
  assumes "cache_ok (fe_cache env)" and "cached_request config flows r1 flow m"
    and "cached_request config flows r2 flow m" and "fresh w1" and "fresh w2"
    and "miss_run env config resolver flows ord r1 flow m (x, orc) rs data None (x1, orc1)"
  shows "(\<exists>w1' h. flowHandler server_ops env config resolver flows ord r1 (w1, x, orc) = (Done (), w1', x1, orc1) \<and>
      sw_sent w1' = Some (rs_status rs, h) \<and>
      (bodyAllowed (rs_status rs) \<and> contentLimit h = None \<longrightarrow> sw_body w1' = sw_body w1 @ data)) \<and>
    (\<exists>w2' x2 orc2. flowHandler server_ops env config resolver flows ord r2 (w2, x1, orc1) = (Done (), w2', x2, orc2) \<and>
      (x2, orc2) = recordAccess env (cacheKey m) True
        (snd (cc_Get (fe_cache env) (cacheKey m) x1), orc1) \<and>
      sw_sent w2' = Some (200, sw_header w2) \<and> sw_body w2' = sw_body w2 @ data)"
proof (rule conjI)
  show "\<exists>w1' h. flowHandler server_ops env config resolver flows ord r1 (w1, x, orc) = (Done (), w1', x1, orc1) \<and>
      sw_sent w1' = Some (rs_status rs, h) \<and>
      (bodyAllowed (rs_status rs) \<and> contentLimit h = None \<longrightarrow> sw_body w1' = sw_body w1 @ data)"
    using assms(2,4,6) by (rule miss_run_response)
  let ?k = "cacheKey m"
  have "fst (cc_Get (fe_cache env) ?k x1) = (Some data, None)"
    using assms(1,6) unfolding miss_run_def cache_ok_def by blast
  then obtain x2 where get: "cc_Get (fe_cache env) ?k x1 = ((Some data, None), x2)" by (metis prod.collapse)
  obtain x3 orc3 where rec: "recordAccess env ?k True (x2, orc1) = (x3, orc3)" by (metis prod.collapse)
  show "\<exists>w2' x2 orc2. flowHandler server_ops env config resolver flows ord r2 (w2, x1, orc1) = (Done (), w2', x2, orc2) \<and>
      (x2, orc2) = recordAccess env ?k True (snd (cc_Get (fe_cache env) ?k x1), orc1) \<and>
      sw_sent w2' = Some (200, sw_header w2) \<and> sw_body w2' = sw_body w2 @ data"
    using flowHandler_cached [OF assms(3) get, of orc1 x3 orc3] rec get serveCached_response [OF assms(5), of "Some data"]
    by (auto simp: on_response_def)
qed

subsection \<open>Errors\<close>

definition unknownFlow :: string where
  "unknownFlow = ''Can not find this kind of function in flows config''"

lemma unknownFlow_Errorf: "Errorf ops 400 ''Can not find this kind of function in flows config'' [] =
    http_Error ops unknownFlow 400"
  by (simp add: fun_eq_iff Errorf_def unknownFlow_def)

text \<open>
  Property C38: an unknown flow is reported, but the handler goes on: the function is resolved
  and called with the client's arguments, and its output is appended to the error message.
\<close>

theorem unknown_flow_still_runs:
  assumes "path_var r ''name'' \<noteq> []" and "map_of flows (path_var r ''name'') = None"
    and "rq_body r = Some b" and "DecodeArgs b = Some m" and "is_range_order ord" and "fresh w"
    and "decide (fe_proxy env) (NewProxyClientFromConfig config) resolver
      (functionRequest r \<lparr>fi_args = m, fi_children = []\<rparr>) x = (Relay rs, x')"
    and "rs_body rs = Some (data, readErr)"
  shows "\<exists>w' h. flowHandler server_ops env config resolver flows ord r (w, x, orc) = (Done (), w', x', orc) \<and>
    sw_sent w' = Some (400, h) \<and> sw_body w' = sw_body w @ unknownFlow @ newline @ data"
proof -
  obtain w1 where w1: "http_Error server_ops unknownFlow 400 w = (Done (), w1)"
    "sw_sent w1 = Some (400, error_header (sw_header w))" "sw_body w1 = sw_body w @ unknownFlow @ newline"
    "\<not> sw_hijacked w1"
    using server.http_Error_response [of w 400 unknownFlow] assms(6) by (auto simp: fresh_def bodyAllowed_def sw_ok_simps)
  have flow: "flowOf flows (path_var r ''name'') = no_flow" using assms(2) by (simp add: flowOf_def)
  have "ord [] = []" using range_order_length [OF assms(5), of "[]"] by simp
  then have ch: "runChildren env flows (ord (fl_children no_flow)) \<lparr>fi_args = m, fi_children = []\<rparr> x =
      (Done \<lparr>fi_args = m, fi_children = []\<rparr>, x)" by (simp add: no_flow_def)
  obtain w2 where w2: "copyResponse server_ops (functionRequest r \<lparr>fi_args = m, fi_children = []\<rparr>) rs False w1 = (Done None, w2)"
    "sw_sent w2 = Some (400, error_header (sw_header w))" "sw_body w2 = sw_body w @ unknownFlow @ newline @ data"
    using server.copyResponse_too_late [OF _ w1(2) assms(8), of "functionRequest r \<lparr>fi_args = m, fi_children = []\<rparr>" False]
      w1(3,4) by (auto simp: server.contentLimit_error_header bodyAllowed_def)
  have "runFlow server_ops env config resolver flows ord r (path_var r ''name'') no_flow m (w1, x, orc) =
      (Done (), w2, x', orc)"
    using runFlow_relay [where ord = ord and flow = no_flow, OF ch assms(7), of server_ops w1 None w2] w2(1)
    by (simp add: no_flow_def)
  then have "flowHandler server_ops env config resolver flows ord r (w, x, orc) = (Done (), w2, x', orc)"
    using assms(1-4) flow w1(1)
    by (simp add: flowHandler_def unknownFlow_Errorf on_response_def Let_def) (simp add: no_flow_def)
  with w2 show ?thesis by blast
qed

text \<open>
  When caching is on, a function that cannot be reached makes the handler panic:
  the error response is written first, and nothing is stored.
\<close>

theorem caching_unreachable_panics:
  assumes "cached_request config flows r flow m" and "fresh w"
    and "cc_Get (fe_cache env) (cacheKey m) x = ((bytes, Some err), x1)"
    and "recordAccess env (cacheKey m) False (x1, orc) = (x2, orc2)"
    and "runChildren env flows (ord (fl_children flow)) \<lparr>fi_args = Some m, fi_children = []\<rparr> x2 = (Done fi, x3)"
    and "decide (fe_proxy env) (NewProxyClientFromConfig config) resolver (functionRequest r fi) x3 =
      (Reject code msg, x4)"
  shows "\<exists>w' h. flowHandler server_ops env config resolver flows ord r (w, x, orc) = (Panics nilPanic, w', x4, orc2) \<and>
    sw_sent w' = Some (code, h) \<and> sw_body w' = sw_body w @ msg @ newline"
proof -
  have caching: "fc_enable_caching config \<and> fl_caching flow" using assms(1) by (simp add: cached_request_def)
  have "code \<in> {400, 500, 503}" using assms(6) by (rule decide_codes)
  then have range: "200 \<le> code" "code \<le> 999" "bodyAllowed code" by (auto simp: bodyAllowed_def)
  let ?h = "header_Add openFaaSInternalHeader ''proxy'' (sw_header w)"
  obtain w' where w': "http_Error server_ops msg code (w\<lparr>sw_header := ?h\<rparr>) = (Done (), w')"
    "sw_sent w' = Some (code, error_header ?h)" "sw_body w' = sw_body w @ msg @ newline"
    using server.http_Error_response [OF _ _ range, of "w\<lparr>sw_header := ?h\<rparr>" msg] assms(2)
    by (auto simp: fresh_def sw_ok_simps)
  then have "proxyRequest server_ops (fe_proxy env) (NewProxyClientFromConfig config) resolver True
      (functionRequest r fi) (w, x3) = (Done None, w', x4)"
    using assms(6) by (simp add: proxyRequest_decide perform_def on_writer_def sw_ok_simps)
  then have "runFlow server_ops env config resolver flows ord r (path_var r ''name'') flow (Some m) (w, x2, orc2) =
      (Panics nilPanic, w', x4, orc2)"
    using assms(5) runChildren_args [OF assms(5)] caching
    by (simp add: runFlow_def storeResponse_def Let_def)
  with flowHandler_cached [OF assms(1,3), of orc x2 orc2] assms(4) w'(2,3) show ?thesis by auto
qed

lemma runChild_fails:
  assumes "childURL flows child = None \<or>
    (\<forall>q. \<exists>e x'. http_do (fe_proxy env) sharedHTTPClient q x = ((None, Some e), x'))"
  shows "\<exists>x'. runChild env flows fargs child x = (Panics nilPanic, x')"
proof (cases "childRequest flows fargs child")
  case None
  then show ?thesis by (simp add: runChild_def)
next
  case (Some q)
  then have "childURL flows child \<noteq> None" by (auto simp: childRequest_def split: option.splits)
  with assms have "\<forall>q. \<exists>e x'. http_do (fe_proxy env) sharedHTTPClient q x = ((None, Some e), x')" by blast
  then obtain e x' where "http_do (fe_proxy env) sharedHTTPClient q x = ((None, Some e), x')" by blast
  with Some show ?thesis by (simp add: runChild_def)
qed


text \<open>
  A child that cannot be called makes the handler panic, whether the third-party
  URL is missing or the call fails: no error response is written and the function itself is
  not called.
\<close>

theorem failed_child_panics:
  assumes "path_var r ''name'' \<noteq> []" and "map_of flows (path_var r ''name'') = Some flow"
    and "\<not> (fc_enable_caching config \<and> fl_caching flow)"
    and "rq_body r = Some b" and "DecodeArgs b = Some m" and "ord (fl_children flow) = (a, child) # cs"
    and "childURL flows child = None \<or>
      (\<forall>q. \<exists>e x'. http_do (fe_proxy env) sharedHTTPClient q x = ((None, Some e), x'))"
  shows "\<exists>x'. flowHandler server_ops env config resolver flows ord r (w, x, orc) = (Panics nilPanic, w, x', orc)"
proof -
  obtain x' where "runChild env flows m child x = (Panics nilPanic, x')" using runChild_fails [OF assms(7)] by blast
  then have "runChildren env flows (ord (fl_children flow)) \<lparr>fi_args = m, fi_children = []\<rparr> x = (Panics nilPanic, x')"
    using assms(6) by simp
  then show ?thesis using assms(1-5) by (auto simp: flowHandler_def flowOf_def runFlow_def Let_def)
qed

text \<open>
  The JSON body \<open>null\<close> decodes to a nil map without an error, and a caching flow
  then panics on the first assignment, before it looks anything up.
\<close>

theorem null_body_panics:
  assumes "path_var r ''name'' \<noteq> []" and "map_of flows (path_var r ''name'') = Some flow"
    and "fc_enable_caching config \<and> fl_caching flow" and "rq_body r = Some b" and "DecodeArgs b = Some None"
  shows "flowHandler ops env config resolver flows ord r s = (Panics ''assignment to entry in nil map'', s)"
  using assms by (simp add: flowHandler_def flowOf_def Let_def)

subsection \<open>What travels between flows\<close>

text \<open>The names that the route of the flows accepts, and the URL they give.\<close>

definition flow_name :: "string \<Rightarrow> bool" where
  "flow_name n \<longleftrightarrow> n \<noteq> [] \<and> n \<noteq> ''.'' \<and> n \<noteq> ''..'' \<and> list_all (\<lambda>c. is_alnum c \<or> c \<in> set ''-_.'') n"

lemma flow_name_plain:
  assumes "flow_name n"
  shows "url_escape EncodePath n = n"
proof -
  have "url_escape EncodePath s = s" if "list_all (\<lambda>c. is_alnum c \<or> c \<in> set ''-_.'') s" for s
    using that by (induction s) (auto simp: shouldEscape_def)
  with assms show ?thesis by (simp add: flow_name_def)
qed

lemma flow_url_request:
  assumes "flow_name n"
  shows "\<exists>rp. http_NewRequest ''POST'' (''http://127.0.0.1:8081/flow/'' @ n) b =
    Some \<lparr>rq_method = ''POST'',
      rq_url = no_url\<lparr>u_scheme := ''http'', u_host := ''127.0.0.1:8081'', u_path := ''/flow/'' @ n, u_raw_path := rp\<rparr>,
      rq_header = (\<lambda>_. None), rq_host = ''127.0.0.1:8081'', rq_remote_addr = [], rq_body = b, rq_vars = (\<lambda>_. None)\<rparr>"
proof -
  have ok: "validMethod ''POST''" "scheme_ok ''http''" "host_ok ''127.0.0.1:8081''"
    "removeEmptyPort ''127.0.0.1:8081'' = ''127.0.0.1:8081''" "query_ok []"
    "url_escape EncodeHost ''127.0.0.1:8081'' = ''127.0.0.1:8081''" "url_escape EncodePath ''/flow/'' = ''/flow/''"
    by code_simp+
  have app: "url_escape EncodePath (a @ c) = url_escape EncodePath a @ url_escape EncodePath c" for a c
    by (induction a) auto
  have "url_escape EncodePath (''/flow/'' @ n) = ''/flow/'' @ n"
    unfolding app ok(7) flow_name_plain [OF assms] ..
  then have "url_String (no_url\<lparr>u_scheme := ''http'', u_host := ''127.0.0.1:8081'', u_path := ''/flow/'' @ n, u_raw_query := []\<rparr>) =
      ''http://127.0.0.1:8081/flow/'' @ n"
    by (simp add: url_String_def url_EscapedPath_def no_url_def ok(6) Let_def del: url_escape.simps)
  then show ?thesis
    using http_NewRequest_ok [OF ok(1-5), of "''/flow/'' @ n" b] by (simp add: slashed_def no_url_def)
qed

lemma childRequest_internal:
  assumes "flow_name (ch_function child)" and "\<not> fl_is_third_party (flowOf flows (ch_function child))"
  shows "\<exists>q. childRequest flows fargs child = Some q \<and> rq_method q = ''POST'' \<and>
    u_host (rq_url q) = ''127.0.0.1:8081'' \<and> u_path (rq_url q) = ''/flow/'' @ ch_function child \<and>
    rq_body q = Some (marshalOrEmpty (JObj (childArgs fargs child)), None)"
  using flow_url_request [OF assms(1), of "Some (marshalOrEmpty (JObj (childArgs fargs child)), None)"] assms(2)
  by (auto simp: childRequest_def childURL_def Let_def)

lemma marshal_clean: "clean (Suc d) (JObj m) \<Longrightarrow> marshalOrEmpty (JObj m) = json_print (JObj m)"
  using ok_finite [of "JObj m"] by (simp add: marshalOrEmpty_def json_Marshal_def clean_def del: json_print.simps json_finite.simps)

text \<open>The arguments a flow works with: the decoded body, with the name field if the flow is cached.\<close>

definition flow_args :: "body \<Rightarrow> string \<Rightarrow> args \<Rightarrow> bool" where
  "flow_args b n m \<longleftrightarrow>
     (\<exists>m0. DecodeArgs b = Some (Some m0) \<and> (m = m0 \<or> m = AList.update flowNameField (JStr n) m0)) \<and> valid_utf8 n"

lemma flow_args_clean:
  assumes "flow_args b n m"
  shows "clean_args (maxNestingDepth - 1) m"
proof -
  obtain m0 where m0: "DecodeArgs b = Some (Some m0)" "m = m0 \<or> m = AList.update flowNameField (JStr n) m0" "valid_utf8 n"
    using assms by (auto simp: flow_args_def)
  have "valid_utf8 flowNameField" by (simp add: flowNameField_def valid_utf8.simps)
  moreover have "clean (maxNestingDepth - 1) (JStr n)" using m0(3) by (simp add: clean_def)
  ultimately show ?thesis using m0 DecodeArgs_clean [OF m0(1)] clean_args_update by metis
qed

definition argument :: "args \<Rightarrow> string \<Rightarrow> json" where
  "argument m f = (case map_of m f of None \<Rightarrow> JNull | Some v \<Rightarrow> v)"

lemma clean_argument: "clean_args d m \<Longrightarrow> clean d (argument m f)"
  by (auto simp: argument_def clean_args_def dest: map_of_SomeD split: option.split)

definition argument_names_ok :: "FlowChild \<Rightarrow> bool" where
  "argument_names_ok child \<longleftrightarrow> map_ok (ch_args_map child) \<and> (\<forall>e \<in> set (ch_args_map child). valid_utf8 (fst e))"

lemma childArgs_eq: "childArgs (Some m) child = map (\<lambda>e. (fst e, argument m (snd e))) (ch_args_map child)"
  by (auto simp: childArgs_def argument_def split: prod.split)

lemma childArgs_clean:
  assumes "clean_args d m" and "argument_names_ok child"
  shows "clean_args d (childArgs (Some m) child)"
proof -
  have "\<forall>f. clean d (argument m f)" using clean_argument [OF assms(1)] by blast
  with assms(2) show ?thesis unfolding clean_args_def childArgs_eq argument_names_ok_def by (auto simp: comp_def)
qed

text \<open>
  Property C9: arguments survive the hop from a flow to its children: the request for a child
  is a POST of JSON that the child's flow handler decodes without an error, to exactly the
  arguments of the child's map, each with the value of the parent's argument it is mapped to
  and null for an argument the parent does not have.
\<close>

theorem child_arguments_arrive:
  assumes "flow_args b n m" and "argument_names_ok child" and "childRequest flows (Some m) child = Some q"
  shows "\<exists>text m'. rq_method q = ''POST'' \<and> rq_body q = Some (text, None) \<and>
    header_Get (rq_header q) ''Content-Type'' = ''application/json'' \<and> DecodeArgs (text, None) = Some (Some m') \<and>
    (\<forall>k. map_of m' k = map_option (\<lambda>f. json_canon (argument m f)) (map_of (ch_args_map child) k))"
proof -
  let ?c = "childArgs (Some m) child"
  have c: "clean_args (maxNestingDepth - 1) ?c" using childArgs_clean flow_args_clean assms(1,2) by blast
  then have t: "marshalOrEmpty (JObj ?c) = json_print (JObj ?c)" by (intro marshal_clean) (simp only: clean_args_JObj)
  obtain u q0 where q0: "http_NewRequest ''POST'' u (Some (json_print (JObj ?c), None)) = Some q0"
    "q = q0\<lparr>rq_header := header_Set ''Content-Type'' ''application/json'' (rq_header q0)\<rparr>"
    using assms(3) t by (auto simp: childRequest_def Let_def split: option.splits simp del: json_print.simps)
  then have "rq_method q0 = ''POST''" "rq_body q0 = Some (json_print (JObj ?c), None)"
    by (auto simp: http_NewRequest_def Let_def split: option.splits if_splits simp del: json_print.simps)
  moreover have "map_of (canon_args ?c) k = map_option (\<lambda>f. json_canon (argument m f)) (map_of (ch_args_map child) k)" for k
  proof -
    have "map_of (map (\<lambda>e. (fst e, argument m (snd e))) es) k = map_option (argument m) (map_of es k)" for es
      by (induction es) auto
    then show ?thesis using map_of_canon_args [of ?c k] c
      by (simp add: clean_args_def childArgs_eq option.map_comp comp_def)
  qed
  ultimately show ?thesis using q0(2) DecodeArgs_send [OF c, of None]
    by (auto simp: header_Get_Set simp del: json_print.simps)
qed














subsection \<open>Cache keys\<close>

lemma hex_digits: "m < 16 \<Longrightarrow> n < 16 \<Longrightarrow> hex_lower m = hex_lower n \<longleftrightarrow> m = n"
  using unhex_hex_lower by (metis option.inject)

lemma hex_string_inj: "hex_string a = hex_string b \<Longrightarrow> a = b"
proof (induction a arbitrary: b)
  case Nil
  then show ?case by (cases b) (simp_all add: hex_string_def)
next
  case (Cons c a)
  then obtain d b' where b: "b = d # b'" by (cases b) (simp_all add: hex_string_def)
  have "(of_char x :: nat) div 16 < 16" "(of_char x :: nat) mod 16 < 16" for x
    using of_char_less [of x] by (simp_all add: less_mult_imp_div_less)
  with Cons.prems b have "(of_char c :: nat) div 16 = of_char d div 16" "(of_char c :: nat) mod 16 = of_char d mod 16"
    "hex_string a = hex_string b'" by (simp_all add: hex_string_def hex_digits)
  then have "(of_char c :: nat) = of_char d" by (metis div_mult_mod_eq)
  with Cons.IH [OF \<open>hex_string a = hex_string b'\<close>] b show ?case by simp
qed

text \<open>The argument object that is hashed, with the name of the flow.\<close>

definition keyed :: "string \<Rightarrow> args \<Rightarrow> args" where
  "keyed n m = AList.update flowNameField (JStr n) m"

lemma keyed_clean: "DecodeArgs b = Some (Some m) \<Longrightarrow> valid_utf8 n \<Longrightarrow> clean_args (maxNestingDepth - 1) (keyed n m)"
  by (rule flow_args_clean [of b n]) (auto simp: flow_args_def keyed_def)

lemma cacheKey_text: "clean_args d m \<Longrightarrow> cacheKey m = hex_string (sha1_Sum (json_print (JObj m)))"
  unfolding cacheKey_def by (subst marshal_clean) (simp_all only: clean_args_JObj)

lemma same_text:
  assumes "clean_args d m1" and "clean_args d m2" and "json_print (JObj m1) = json_print (JObj m2)"
  shows "canon_args m1 = canon_args m2"
proof -
  have c: "clean (Suc d) (JObj m1)" "clean (Suc d) (JObj m2)" using assms by (simp_all only: clean_args_JObj)
  then have "json_tree_of (JObj m1) = json_tree_of (JObj m2)" using json_print_inj assms(3) by (simp only: clean_def)
  then have "json_canon (JObj m1) = json_canon (JObj m2)" using tree_interface c by (metis clean_def)
  then show ?thesis by (simp only: canon_args_def json_canon.simps sort_key_map_snd json.inject)
qed

lemma keyed_text:
  assumes "DecodeArgs b1 = Some (Some m1)" and "DecodeArgs b2 = Some (Some m2)"
    and "canon_args (keyed n1 m1) = canon_args (keyed n2 m2)"
  shows "json_print (JObj (keyed n1 m1)) = json_print (JObj (keyed n2 m2))"
proof -
  have d: "decoded (JObj (keyed n m))" if "DecodeArgs b = Some (Some m)" for b n m
    using DecodeArgs_decoded [OF that] by (auto simp: keyed_def list_all_iff dest!: mem_update)
  have "json_canon (JObj (keyed n1 m1)) = json_canon (JObj (keyed n2 m2))"
    using assms(3) by (simp only: canon_args_def json_canon.simps sort_key_map_snd)
  then show ?thesis using decoded_print [OF d [OF assms(1)]] decoded_print [OF d [OF assms(2)]] by metis
qed

text \<open>
  Property C21: cache keys stand for requests. Two requests have the same key if and only if they
  are for the same function and carry the same arguments (in any order, at any depth; numbers
  are compared with the sign of a zero), unless their two texts collide under SHA-1.
\<close>

theorem cacheKey_separates:
  assumes "DecodeArgs b1 = Some (Some m1)" and "DecodeArgs b2 = Some (Some m2)" and "valid_utf8 n1" and "valid_utf8 n2"
  shows "cacheKey (keyed n1 m1) = cacheKey (keyed n2 m2) \<longleftrightarrow>
    (n1 = n2 \<and> canon_args (keyed n1 m1) = canon_args (keyed n2 m2)) \<or>
    (let t1 = json_print (JObj (keyed n1 m1)); t2 = json_print (JObj (keyed n2 m2))
     in t1 \<noteq> t2 \<and> sha1_Sum t1 = sha1_Sum t2)"
proof -
  have c: "clean_args (maxNestingDepth - 1) (keyed n1 m1)" "clean_args (maxNestingDepth - 1) (keyed n2 m2)"
    using keyed_clean assms by blast+
  then have ok: "map_ok (keyed n1 m1)" "map_ok (keyed n2 m2)" by (simp_all only: clean_args_def)
  have "map_of (canon_args (keyed n m)) flowNameField = Some (JStr n)" if "map_ok (keyed n m)" for n m
  proof -
    have "map_of (keyed n m) flowNameField = Some (JStr n)" by (simp only: keyed_def update_conv fun_upd_same)
    then show ?thesis by (simp only: map_of_canon_args [OF that] option.map json_canon.simps)
  qed
  then have "n1 = n2" if "canon_args (keyed n1 m1) = canon_args (keyed n2 m2)" using that ok by (metis json.inject(4) option.inject)
  then show ?thesis
    using keyed_text [OF assms(1,2)] same_text [OF c] cacheKey_text [OF c(1)] cacheKey_text [OF c(2)] hex_string_inj
    unfolding Let_def by metis
qed

subsection \<open>Times to live\<close>

lemma u32_small:
  assumes "uint (w :: 64 word) < 2 ^ 32"
  shows "u32_of_f64 oor (duration_seconds (seconds_u64 w)) = ucast w"
proof -
  have "uint w \<le> 9223372036" using assms by simp
  then have "seconds_u64 w = uint w * second" by (rule seconds_u64_small)
  moreover have "0 \<le> uint w" "uint w < 2 ^ 53" using assms by simp_all
  ultimately have "f64_trunc (duration_seconds (seconds_u64 w)) = Some (uint w)" by (simp only: trunc_seconds)
  then show ?thesis using assms ucast_eq [of w, symmetric] by (simp add: u32_of_f64_def)
qed

text \<open>
  A time to live below \<open>2^32\<close> seconds reaches the PaperCache server as it is
  configured.
\<close>

theorem PaperCache_ttl:
  assumes "uint (fl_cache_ttl flow) < 2 ^ 32"
  shows "cc_SetEx (PaperCacheClientWrapper oor c) key value (seconds_u64 (fl_cache_ttl flow)) x =
    pc_Set c key value (ucast (fl_cache_ttl flow)) x"
  using u32_small [OF assms] by (simp add: PaperCacheClientWrapper_def)

theorem PaperCache_ttl_witness:
  "cc_SetEx (PaperCacheClientWrapper (\<lambda>_. 0) \<lparr>pc_Get = (\<lambda>k x. (Inl ''none'', x)), pc_Set = (\<lambda>k v t x. (None, t # x))\<rparr>)
     ''key'' ''value'' (seconds_u64 (fl_cache_ttl (no_flow\<lparr>fl_cache_ttl := 3600\<rparr>))) [] = (None, [3600])"
proof -
  have "uint (fl_cache_ttl (no_flow\<lparr>fl_cache_ttl := 3600\<rparr>)) < 2 ^ 32" by simp
  from PaperCache_ttl [OF this, of "\<lambda>_. 0"
      "\<lparr>pc_Get = (\<lambda>k x. (Inl ''none'', x)), pc_Set = (\<lambda>k v t x. (None, t # x))\<rparr>" "''key''" "''value''" "[]"]
  show ?thesis by simp
qed

text \<open>
  Beyond that it does not: \<open>2^32\<close> seconds are outside the range of the conversion,
  whose result then depends on the implementation, and 9223372037 seconds wrap around to a
  negative duration.
\<close>

theorem PaperCache_ttl_overflow:
  "u32_of_f64 oor (duration_seconds (seconds_u64 4294967296)) = oor (Fin 4294967296) \<and>
   seconds_u64 9223372037 = - 9223372036709551616"
proof -
  have "duration_seconds (seconds_u64 4294967296) = Fin 4294967296" by code_simp
  moreover have "seconds_u64 9223372037 = - 9223372036709551616" by code_simp
  ultimately show ?thesis by (simp add: u32_of_f64_def)
qed

subsection \<open>The orchestrator of the handler\<close>

text \<open>
  An orchestrator that the handler is built with is initialised, in a state from
  which its loop keeps all invariants, and its loop does not panic at the start; it exists
  only if both features are on and the cache is a PaperCache.
\<close>

theorem initOrchestrator_ready:
  assumes "settings_ok config" and "initOrchestrator env ords config isPaper x = (Some orc, x')"
  shows "fc_enable_orchestrator config \<and> fc_enable_caching config \<and> isPaper \<and>
    sys_inv clk (orc, Outside, x') \<and> or_config orc = buildOrchestratorConfig config \<and>
    fst (Start env es orc w) \<noteq> PanicsNewTicker"
proof -
  obtain orc0 x0 where n: "NewIntelligentOrchestrator env (Some (buildOrchestratorConfig config)) x = (orc0, x0)"
    by (metis prod.collapse)
  from assms(2) n have on: "fc_enable_orchestrator config" "fc_enable_caching config" "isPaper"
    and i: "orch_Initialize env ords orc0 x0 = (None, orc, x')"
    by (auto simp: initOrchestrator_def split: if_splits prod.splits option.splits)
  note pos = buildOrchestratorConfig_pos [OF assms(1)]
  have "sys_inv clk (initial_state env (Some (buildOrchestratorConfig config)) ords x)"
    using pos(2) by (intro sys_inv_initial) simp
  then have inv: "sys_inv clk (orc, Outside, x')" by (simp add: initial_state_def n i)
  have c: "or_config orc0 = buildOrchestratorConfig config"
    using New_config(1) [of env "buildOrchestratorConfig config" x] n by simp
  from i have "or_config orc = or_config orc0" by (cases rule: orch_Initialize_cases) simp_all
  with on inv c pos(1) show ?thesis by (simp add: Start_panics_iff)
qed

lemma recordAccess_orc:
  assumes "recordAccess env key hit (x, Some orc) = (x', orc')"
  shows "\<exists>o'. orc' = Some o' \<and> orch_step (fe_orch env) rely (LAccess key hit) (orc, pc, x) (o', pc, x')"
  using assms by (auto simp: recordAccess_def split: prod.splits intro: orch_step.access)

lemma runFlow_orc:
  assumes "runFlow ops env config resolver flows ord r n flow fargs (w, x, orc) = (res, w', x', orc')"
  shows "orc' = orc"
  using assms
  by (auto simp: runFlow_def storeResponse_def Let_def split: prod.splits outcome.splits if_splits option.splits)

lemma on_response_orc: "on_response f (w, x, orc) = (res, w', x', orc') \<Longrightarrow> x' = x \<and> orc' = orc"
  by (auto simp: on_response_def split: prod.splits)

lemma flowHandler_orc:
  assumes "flowHandler ops env config resolver flows ord r (w, x, orc) = (res, w', x', orc')"
  shows "orc' = orc \<or> (\<exists>key hit x1 x2. recordAccess env key hit (x1, orc) = (x2, orc'))"
proof (cases "path_var r ''name'' = []")
  case True
  then show ?thesis using assms on_response_orc by (fastforce simp: flowHandler_def Let_def)
next
  case named: False
  let ?n = "path_var r ''name''"
  define first where "first = (if map_of flows ?n = None
    then on_response (Errorf ops 400 ''Can not find this kind of function in flows config'' []) (w, x, orc)
    else (Done (), w, x, orc))"
  have "\<exists>e w1. on_response f (w, x, orc) = (e, w1, x, orc)" for f :: "'a \<Rightarrow> unit outcome \<times> 'a"
    by (cases "f w") (simp add: on_response_def)
  then obtain e w1 where first: "first = (e, w1, x, orc)" by (fastforce simp: first_def)
  note run = assms [unfolded flowHandler_def Let_def, folded first_def, unfolded first]
  show ?thesis
  proof (cases e)
    case (Panics m)
    with run named show ?thesis by simp
  next
    case (Done u)
    show ?thesis
    proof (cases "rq_body r")
      case None
      with run named Done show ?thesis by simp
    next
      case (Some b)
      let ?caching = "fc_enable_caching config \<and> fl_caching (flowOf flows ?n)"
      show ?thesis
      proof (cases "?caching \<and> DecodeArgs b \<notin> {None, Some None}")
        case False
        then show ?thesis
          using run named Done Some runFlow_orc on_response_orc
          by (auto split: option.splits if_splits dest: runFlow_orc on_response_orc)
      next
        case True
        then obtain m where m: "DecodeArgs b = Some (Some m)" by auto
        let ?m = "AList.update flowNameField (JStr ?n) m"
        obtain bytes err x1 where get: "cc_Get (fe_cache env) (cacheKey ?m) x = ((bytes, err), x1)"
          by (metis prod.collapse)
        obtain x2 orc2 where rec: "recordAccess env (cacheKey ?m) (err = None \<and> bytes \<noteq> None) (x1, orc) = (x2, orc2)"
          by (metis prod.collapse)
        have "orc' = orc2"
          using run named Done Some True m get rec
          by (auto split: if_splits dest: runFlow_orc on_response_orc)
        with rec show ?thesis by blast
      qed
    qed
  qed
qed

text \<open>
  Property C37: whatever request the flow handler serves, and however it ends, it does to the
  orchestrator nothing but at most one recorded access, a step of the orchestrator's step
  relation; without an orchestrator it creates none.
\<close>

theorem flowHandler_orchestrator_step:
  assumes "flowHandler ops env config resolver flows ord r (w, x, orc) = (res, w', x', orc')"
  shows "orc' = orc \<or>
    (\<exists>o1 o2 key hit x1 x2. orc = Some o1 \<and> orc' = Some o2 \<and>
       orch_step (fe_orch env) rely (LAccess key hit) (o1, pc, x1) (o2, pc, x2))"
proof -
  have "orc' = orc \<or> (\<exists>key hit x1 x2. recordAccess env key hit (x1, orc) = (x2, orc'))"
    using assms by (rule flowHandler_orc)
  then show ?thesis
  proof (elim disjE exE)
    fix key hit x1 x2
    assume "recordAccess env key hit (x1, orc) = (x2, orc')"
    then show ?thesis using recordAccess_orc by (cases orc) (fastforce simp: recordAccess_def)+
  qed simp
qed

text \<open>
  A configuration read from the environment never enables caching or the
  orchestrator, whatever the environment holds.
\<close>

theorem Read_never_enables:
  assumes "Read getenv = Inr c"
  shows "\<not> fc_enable_caching c \<and> initOrchestrator env ords c isPaper x = (None, x)"
  using assms by (auto simp: Read_def initOrchestrator_def Let_def split: option.splits)

theorem Read_never_enables_witness:
  "\<exists>c. Read (\<lambda>_. []) = Inr c \<and> \<not> fc_enable_caching c"
proof -
  obtain c where c: "Read (\<lambda>_. []) = Inr c" by (simp add: Read_def readConns_def Let_def)
  from Read_never_enables [OF c, THEN conjunct1] c show ?thesis by blast
qed

subsection \<open>An example\<close>

text \<open>The world is the content of the cache and the number of requests to functions.\<close>

type_synonym example_world = "(string \<times> string) list \<times> nat"

definition example_response :: response where
  "example_response = \<lparr>rs_status = 200, rs_header = (\<lambda>_. None), rs_body = Some (''hello'', None)\<rparr>"

definition example_flow_env :: "(server_writer, example_world) flow_env" where
  "example_flow_env =
     \<lparr>fe_proxy = \<lparr>http_do = (\<lambda>c q (kv, n). ((Some example_response, None), (kv, Suc n))),
        reverse_serve = (\<lambda>d q s. (Done (), s))\<rparr>,
      fe_cache = \<lparr>cc_Get = (\<lambda>k (kv, n). (case map_of kv k of None \<Rightarrow> (None, Some ''key not found'') | Some v \<Rightarrow> (Some v, None), (kv, n))),
        cc_SetEx = (\<lambda>k v ttl (kv, n). (None, ((k, v) # kv, n)))\<rparr>,
      fe_orch = \<lparr>env_status = (\<lambda>w. (Inl ''offline'', w)), env_policy = (\<lambda>p w. (None, w)), env_now = (\<lambda>w. (0, w)),
        env_sleep = (\<lambda>d w. w)\<rparr>\<rparr>"

definition down_env :: "(server_writer, example_world) flow_env" where
  "down_env = example_flow_env\<lparr>fe_proxy := \<lparr>http_do = (\<lambda>c q (kv, n). ((None, Some ''connection refused''), (kv, Suc n))),
     reverse_serve = (\<lambda>d q s. (Done (), s))\<rparr>\<rparr>"

definition example_flows :: Flows where
  "example_flows = [(''figlet'', no_flow\<lparr>fl_caching := True, fl_cache_ttl := 60\<rparr>),
     (''compose'', no_flow\<lparr>fl_children := [(''c'', \<lparr>ch_args_map = [], ch_function = ''figlet''\<rparr>)]\<rparr>)]"

definition example_request :: "string \<Rightarrow> request" where
  "example_request n =
     (plain_request_for ''POST'')\<lparr>rq_body := Some (''{\"q\":\"x\"}'', None), rq_vars := [''name'' \<mapsto> n]\<rparr>"

definition fixed_resolver :: "'x resolver" where
  "fixed_resolver n x = (Inr example_endpoint, x)"

definition example_args :: args where
  "example_args = [(''q'', JStr ''x''), (flowNameField, JStr ''figlet'')]"

lemma example_env_simps:
  "fe_cache down_env = fe_cache example_flow_env"
  "cc_Get (fe_cache example_flow_env) k (kv, n) =
     (case map_of kv k of None \<Rightarrow> (None, Some ''key not found'') | Some v \<Rightarrow> (Some v, None), (kv, n))"
  "cc_SetEx (fe_cache example_flow_env) k v ttl (kv, n) = (None, ((k, v) # kv, n))"
  by (simp_all add: example_flow_env_def down_env_def)

lemma example_decode: "DecodeArgs (''{\"q\":\"x\"}'', None) = Some (Some [(''q'', JStr ''x'')])"
proof -
  let ?m = "[(''q'', JStr ''x'')]"
  have "json_print (JObj ?m) = ''{\"q\":\"x\"}''" by (simp add: json_string_def json_chars.simps json_ascii_def)
  moreover have "json_ok (JObj ?m)" "json_distinct (JObj ?m)" "json_depth (JObj ?m) \<le> maxNestingDepth"
    by (simp_all add: valid_utf8.simps maxNestingDepth_def)
  ultimately show ?thesis
    using DecodeArgs_print [of ?m "[]" None] by (simp add: canon_args_def del: json_print.simps)
qed

lemma example_cached_request:
  "cached_request example_config example_flows (example_request ''figlet'')
     (no_flow\<lparr>fl_caching := True, fl_cache_ttl := 60\<rparr>) example_args"
  by (simp add: cached_request_def example_request_def path_var_def example_flows_def example_config_def
      example_env_simps example_args_def flowNameField_def example_decode)

lemma example_build:
  "\<exists>q. buildProxyRequest (functionRequest (example_request n) fi) example_endpoint p = Some q"
proof -
  have "validMethod ''POST''" "scheme_ok ''http''" "host_ok ''figlet.openfaas-fn''" "query_ok []" by code_simp+
  then show ?thesis
    using buildProxyRequest_ok [of "functionRequest (example_request n) fi" example_endpoint p]
    by (auto simp: functionRequest_def example_request_def plain_request_for_def example_endpoint_def no_url_def)
qed

lemma example_decide:
  assumes "n \<noteq> []"
  shows "decide (fe_proxy example_flow_env) client fixed_resolver (functionRequest (example_request n) fi) (kv, k) =
      (Relay example_response, (kv, Suc k))"
    and "\<exists>msg. decide (fe_proxy down_env) client fixed_resolver (functionRequest (example_request n) fi) (kv, k) =
      (Reject 500 msg, (kv, Suc k))"
proof -
  obtain q where q: "buildProxyRequest (functionRequest (example_request n) fi) example_endpoint
      (path_var (functionRequest (example_request n) fi) ''params'') = Some q" using example_build by blast
  have name: "path_var (functionRequest (example_request n) fi) ''name'' = n"
    and h: "rq_header (functionRequest (example_request n) fi) = (\<lambda>_. None)"
    by (simp_all add: functionRequest_def example_request_def path_var_def plain_request_for_def)
  from q name h assms
  show "decide (fe_proxy example_flow_env) client fixed_resolver (functionRequest (example_request n) fi) (kv, k) =
      (Relay example_response, (kv, Suc k))"
    and "\<exists>msg. decide (fe_proxy down_env) client fixed_resolver (functionRequest (example_request n) fi) (kv, k) =
      (Reject 500 msg, (kv, Suc k))"
    by (simp_all add: decide_def fixed_resolver_def Let_def header_Get_def header_Values_def
        example_flow_env_def down_env_def)
qed

lemma fresh_newResponse: "fresh newResponse"
  by (simp add: fresh_def newResponse_def contentLimit_def header_Get_def header_Values_def)

abbreviation (input) example_key :: string where
  "example_key \<equiv> cacheKey example_args"

lemma recordAccess_none: "recordAccess env k h (x, None) = (x, None)"
  by (simp add: recordAccess_def)

lemma example_miss_run:
  "miss_run example_flow_env example_config fixed_resolver example_flows (\<lambda>es. es) (example_request ''figlet'')
     (no_flow\<lparr>fl_caching := True, fl_cache_ttl := 60\<rparr>) example_args (([], 0), None) example_response ''hello'' None
     (([(example_key, ''hello'')], 1), None)"
proof -
  let ?f = "no_flow\<lparr>fl_caching := True, fl_cache_ttl := 60\<rparr>" and ?fi = "\<lparr>fi_args = Some example_args, fi_children = []\<rparr>"
  have get: "cc_Get (fe_cache example_flow_env) example_key ([], 0) = ((None, Some ''key not found''), ([], 0))"
    by (simp add: example_env_simps)
  have run: "runChildren example_flow_env example_flows ((\<lambda>es. es) (fl_children ?f)) ?fi ([], 0) = (Done ?fi, ([], 0))"
    by (simp add: no_flow_def)
  have dec: "decide (fe_proxy example_flow_env) (NewProxyClientFromConfig example_config) fixed_resolver
      (functionRequest (example_request ''figlet'') ?fi) ([], 0) = (Relay example_response, ([], 1))"
    using example_decide(1) [of "''figlet''"] by simp
  have set: "cc_SetEx (fe_cache example_flow_env) example_key ''hello'' (seconds_u64 (fl_cache_ttl ?f)) ([], 1) =
      (None, ([(example_key, ''hello'')], 1))"
    by (simp add: example_env_simps)
  have rs: "rs_body example_response = Some (''hello'', None)" "200 \<le> rs_status example_response"
    "rs_status example_response \<le> 999" by (simp_all add: example_response_def)
  show ?thesis unfolding miss_run_def
    by (intro exI conjI, rule refl, rule refl, rule get, rule recordAccess_none, rule run, rule dec, rule rs(1),
        rule rs(2), rule rs(3), rule set)
qed

theorem cache_hit_witness:
  "\<exists>w'. flowHandler server_ops example_flow_env example_config fixed_resolver example_flows (\<lambda>es. es)
      (example_request ''figlet'') (newResponse, ([(example_key, ''hi'')], 0), None) =
    (Done (), w', ([(example_key, ''hi'')], 0), None) \<and>
    sw_sent w' = Some (200, sw_header newResponse) \<and> sw_body w' = sw_body newResponse @ ''hi''"
  by (rule cache_hit [OF example_cached_request fresh_newResponse])
    (simp_all add: example_env_simps recordAccess_none)

theorem cache_miss_stores_witness:
  "\<exists>w' h. flowHandler server_ops example_flow_env example_config fixed_resolver example_flows (\<lambda>es. es)
      (example_request ''figlet'') (newResponse, ([], 0), None) =
    (Done (), w', ([(example_key, ''hello'')], 1), None) \<and> sw_sent w' = Some (rs_status example_response, h)"
  using cache_miss_stores [OF example_cached_request fresh_newResponse example_miss_run] by blast

theorem cache_roundtrip_witness:
  "\<exists>w2'. flowHandler server_ops example_flow_env example_config fixed_resolver example_flows (\<lambda>es. es)
      (example_request ''figlet'') (newResponse, ([(example_key, ''hello'')], 1), None) =
    (Done (), w2', ([(example_key, ''hello'')], 1), None) \<and> sw_body w2' = sw_body newResponse @ ''hello''"
proof -
  have "cache_ok (fe_cache example_flow_env)" by (auto simp: cache_ok_def example_env_simps)
  from cache_roundtrip [OF this example_cached_request example_cached_request fresh_newResponse fresh_newResponse
      example_miss_run]
  show ?thesis by (auto simp: recordAccess_none example_env_simps)
qed

theorem unknown_flow_still_runs_witness:
  "\<exists>w' h. flowHandler server_ops example_flow_env example_config fixed_resolver example_flows (\<lambda>es. es)
      (example_request ''other'') (newResponse, ([], 0), None) = (Done (), w', ([], 1), None) \<and>
    sw_sent w' = Some (400, h) \<and> sw_body w' = sw_body newResponse @ unknownFlow @ newline @ ''hello''"
proof -
  have "decide (fe_proxy example_flow_env) (NewProxyClientFromConfig example_config) fixed_resolver
      (functionRequest (example_request ''other'')
        \<lparr>fi_args = Some [(''q'', JStr ''x'')], fi_children = []\<rparr>) ([], 0) = (Relay example_response, ([], 1))"
    using example_decide(1) [of "''other''"] by simp
  from unknown_flow_still_runs [where b = "(''{\"q\":\"x\"}'', None)" and flows = example_flows and orc = None,
      OF _ _ _ _ is_range_order_id fresh_newResponse this] show ?thesis
    by (simp add: example_request_def path_var_def example_flows_def example_decode example_response_def)
qed

theorem caching_unreachable_panics_witness:
  "\<exists>w' x h. flowHandler server_ops down_env example_config fixed_resolver example_flows (\<lambda>es. es)
      (example_request ''figlet'') (newResponse, ([], 0), None) = (Panics nilPanic, w', x, None) \<and>
    sw_sent w' = Some (500, h)"
proof -
  obtain msg where d: "decide (fe_proxy down_env) (NewProxyClientFromConfig example_config) fixed_resolver
      (functionRequest (example_request ''figlet'') \<lparr>fi_args = Some example_args, fi_children = []\<rparr>) ([], 0) =
      (Reject 500 msg, ([], 1))"
    using example_decide(2) [of "''figlet''"] by fastforce
  have g: "cc_Get (fe_cache down_env) (cacheKey example_args) ([], 0) =
      ((None, Some ''key not found''), ([], 0))"
    by (simp add: example_env_simps)
  have c: "runChildren down_env example_flows ((\<lambda>es. es) (fl_children (no_flow\<lparr>fl_caching := True, fl_cache_ttl := 60\<rparr>)))
      \<lparr>fi_args = Some example_args, fi_children = []\<rparr> ([], 0) =
      (Done \<lparr>fi_args = Some example_args, fi_children = []\<rparr>, ([], 0))"
    by (simp add: no_flow_def)
  from caching_unreachable_panics [where ord = "\<lambda>es. es" and flow = "no_flow\<lparr>fl_caching := True, fl_cache_ttl := 60\<rparr>",
      OF example_cached_request fresh_newResponse g recordAccess_none c d]
  show ?thesis by blast
qed

theorem child_arguments_arrive_witness:
  "\<exists>q text m'. childRequest example_flows (Some [(''q'', JStr ''x'')])
       \<lparr>ch_args_map = [(''question'', ''q''), (''lang'', ''l'')], ch_function = ''figlet''\<rparr> = Some q \<and>
     rq_body q = Some (text, None) \<and> DecodeArgs (text, None) = Some (Some m') \<and>
     map_of m' ''question'' = Some (JStr ''x'') \<and> map_of m' ''lang'' = Some JNull \<and> map_of m' ''q'' = None"
proof -
  let ?c = "\<lparr>ch_args_map = [(''question'', ''q''), (''lang'', ''l'')], ch_function = ''figlet''\<rparr>"
  have "flow_name ''figlet''" "\<not> fl_is_third_party (flowOf example_flows ''figlet'')"
    by code_simp (simp add: flowOf_def example_flows_def no_flow_def)
  then obtain q where q: "childRequest example_flows (Some [(''q'', JStr ''x'')]) ?c = Some q"
    using childRequest_internal [of ?c example_flows] by auto
  have "flow_args (''{\"q\":\"x\"}'', None) ''compose'' [(''q'', JStr ''x'')]"
    by (simp add: flow_args_def example_decode valid_utf8.simps)
  moreover have "argument_names_ok ?c" by (simp add: argument_names_ok_def valid_utf8.simps)
  ultimately show ?thesis
    using child_arguments_arrive [OF _ _ q] q by (fastforce simp: argument_def)
qed


lemma zero_args:
  "DecodeArgs (''{\"x\":0}'', None) = Some (Some [(''x'', JNum (Fin 0))])"
  "DecodeArgs (''{\"x\":-0}'', None) = Some (Some [(''x'', JNegZero)])"
proof -
  have t: "json_print (JObj [(''x'', JNum (Fin 0))]) = ''{\"x\":0}''" "json_print (JObj [(''x'', JNegZero)]) = ''{\"x\":-0}''"
    by (simp_all add: json_string_def json_chars.simps json_ascii_def)
  have "exact64 0" using exact64_0_1 by simp
  then show "DecodeArgs (''{\"x\":0}'', None) = Some (Some [(''x'', JNum (Fin 0))])"
    and "DecodeArgs (''{\"x\":-0}'', None) = Some (Some [(''x'', JNegZero)])"
    using DecodeArgs_print [of "[(''x'', JNum (Fin 0))]" "[]" None] DecodeArgs_print [of "[(''x'', JNegZero)]" "[]" None]
    unfolding t by (simp_all add: valid_utf8.simps maxNestingDepth_def canon_args_def)
qed

theorem cacheKey_separates_witness:
  "cacheKey (keyed ''figlet'' [(''x'', JNum (Fin 0))]) = cacheKey (keyed ''figlet'' [(''x'', JNegZero)]) \<longleftrightarrow>
     sha1_Sum (json_print (JObj (keyed ''figlet'' [(''x'', JNum (Fin 0))]))) =
     sha1_Sum (json_print (JObj (keyed ''figlet'' [(''x'', JNegZero)])))"
proof -
  have n: "valid_utf8 ''figlet''" by (simp add: valid_utf8.simps)
  have "canon_args (keyed ''figlet'' [(''x'', JNum (Fin 0))]) \<noteq> canon_args (keyed ''figlet'' [(''x'', JNegZero)])"
    by (simp add: canon_args_def keyed_def flowNameField_def)
  moreover have "json_print (JObj (keyed ''figlet'' [(''x'', JNum (Fin 0))])) \<noteq> json_print (JObj (keyed ''figlet'' [(''x'', JNegZero)]))"
    by (simp add: keyed_def flowNameField_def)
  ultimately show ?thesis using cacheKey_separates [OF zero_args n n] unfolding Let_def by blast
qed

theorem failed_child_panics_witness:
  "\<exists>x'. flowHandler server_ops down_env example_config fixed_resolver example_flows (\<lambda>es. es)
      (example_request ''compose'') (newResponse, ([], 0), None) = (Panics nilPanic, newResponse, x', None)"
  by (rule failed_child_panics [where flow = "no_flow\<lparr>fl_children := [(''c'', \<lparr>ch_args_map = [], ch_function = ''figlet''\<rparr>)]\<rparr>"
        and b = "(''{\"q\":\"x\"}'', None)" and m = "Some [(''q'', JStr ''x'')]" and a = "''c''"
        and child = "\<lparr>ch_args_map = [], ch_function = ''figlet''\<rparr>" and cs = "[]"])
    (simp_all add: example_request_def path_var_def example_flows_def example_env_simps example_decode,
     simp_all add: no_flow_def down_env_def)

theorem null_body_panics_witness:
  "flowHandler server_ops example_flow_env example_config fixed_resolver example_flows
     (\<lambda>es. es) ((example_request ''figlet'')\<lparr>rq_body := Some (''null'', None)\<rparr>) (newResponse, ([], 0), None) =
   (Panics ''assignment to entry in nil map'', newResponse, ([], 0), None)"
proof -
  have "DecodeArgs (''null'', None) = Some None"
    by (simp add: DecodeArgs_def json_value.simps is_space_def json_literal_def)
  then show ?thesis
    by (intro null_body_panics [of _ _ "no_flow\<lparr>fl_caching := True, fl_cache_ttl := 60\<rparr>" _ "(''null'', None)"])
      (simp_all add: example_request_def path_var_def example_flows_def example_config_def)
qed

theorem initOrchestrator_ready_witness:
  "\<exists>orc x'. initOrchestrator demo_env switch_orders example_config True (0, ''lfu'') = (Some orc, x') \<and>
     fst (Start demo_env [] orc x') \<noteq> PanicsNewTicker"
proof -
  have s: "settings_ok example_config" by (simp add: settings_ok_def example_config_def)
  obtain r x' where i: "initOrchestrator demo_env switch_orders example_config True (0, ''lfu'') = (r, x')"
    by (metis prod.collapse)
  have "r \<noteq> None"
    using i by (auto simp: initOrchestrator_def orch_Initialize_def NewIntelligentOrchestrator_def demo_env_def Let_def
        ma_Initialize_def FastProfile_def NewMetricsAggregator_def example_status_def storePolicyMetrics_def
        updatePolicyMetrics_def SelectBestPolicy_def selectBestStep_def switch_orders_def example_config_def)
  then obtain orc where "r = Some orc" by blast
  with i initOrchestrator_ready [OF s, of demo_env switch_orders True "(0, ''lfu'')" orc x' "\<lambda>_. 0" "[]" x']
  show ?thesis by blast
qed

theorem flowHandler_orchestrator_step_witness:
  "\<exists>res w' x' orc'. flowHandler server_ops example_flow_env example_config fixed_resolver example_flows (\<lambda>es. es)
      (example_request ''figlet'') (newResponse, ([], 0), Some switch_orc) = (res, w', x', orc') \<and>
    (orc' = Some switch_orc \<or>
     (\<exists>o1 o2 key hit x1 x2. Some switch_orc = Some o1 \<and> orc' = Some o2 \<and>
        orch_step (fe_orch example_flow_env) (\<lambda>_ _. True) (LAccess key hit) (o1, Outside, x1) (o2, Outside, x2)))"
proof -
  obtain res w' x' orc' where "flowHandler server_ops example_flow_env example_config fixed_resolver example_flows (\<lambda>es. es)
      (example_request ''figlet'') (newResponse, ([], 0), Some switch_orc) = (res, w', x', orc')"
    by (metis prod_cases4)
  with flowHandler_orchestrator_step [OF this, of "\<lambda>_ _. True" Outside] show ?thesis by blast
qed

end
