(* ===== verification/Loopback.thy ===== *)
theory Loopback
  imports Flow
begin

text \<open>
  Flows that call flows: the provider is the server at \<open>127.0.0.1:8081\<close> that the flow handler
  of src/proxy/proxy.go sends the requests for internal children to. The handler of Flow.thy is
  composed with itself: a request of the shared client for \<open>/flow/<name>\<close> is answered by the
  flow handler for that name, whose own children are answered the same way, to a given number of
  nested requests.

  Parameters: what a request looks like on arrival (\<open>lb_wire\<close>), what a client sees of a handler
  that panicked (\<open>lb_broken\<close>), the requests that are nested too deep (\<open>lb_deep\<close>), and all other
  requests, as before. The flows run without the orchestrator, whose work does not change any
  response.
\<close>

subsection \<open>Requests to the process itself\<close>

text \<open>The flow that a request asks the provider for.\<close>

definition flow_target :: "request \<Rightarrow> string option" where
  "flow_target q =
     (let u = rq_url q; n = drop 6 (u_path u)
      in if u_scheme u = ''http'' \<and> u_host u = ''127.0.0.1:8081'' \<and> prefix ''/flow/'' (u_path u) \<and> flow_name n
         then Some n else None)"

record 'x loop_env =
  lb_wire :: "request \<Rightarrow> request"
  lb_broken :: "server_writer \<Rightarrow> response option \<times> string option"
  lb_deep :: "request \<Rightarrow> 'x \<Rightarrow> (response option \<times> string option) \<times> 'x"

text \<open>What a client gets from the server: the response that was written, when the handler returns.\<close>

definition sent_response :: "server_writer \<Rightarrow> response" where
  "sent_response w =
     (let (code, h) = (case sw_sent w of None \<Rightarrow> (200, sw_header w) | Some s \<Rightarrow> s)
      in \<lparr>rs_status = code, rs_header = h, rs_body = Some (sw_body w, None)\<rparr>)"

definition answered ::
    "'x loop_env \<Rightarrow> unit outcome \<times> (server_writer, 'x) flow_state \<Rightarrow> (response option \<times> string option) \<times> 'x" where
  "answered lenv res =
     (case res of
        (Done _, w, x, orc) \<Rightarrow> ((Some (sent_response w), None), x)
      | (Panics m, w, x, orc) \<Rightarrow> (lb_broken lenv w, x))"

text \<open>Only the shared client asks for children; the proxy client asks for functions.\<close>

fun loop_do ::
    "nat \<Rightarrow> 'x loop_env \<Rightarrow> (server_writer, 'x) flow_env \<Rightarrow> faas_config \<Rightarrow> 'x resolver \<Rightarrow> Flows \<Rightarrow>
     (string \<times> FlowChild) range_order \<Rightarrow> http_client \<Rightarrow> request \<Rightarrow> 'x \<Rightarrow> (response option \<times> string option) \<times> 'x" where
  "loop_do 0 lenv env config resolver flows ord c q x =
     (if c = sharedHTTPClient \<and> flow_target q \<noteq> None then lb_deep lenv q x else http_do (fe_proxy env) c q x)"
| "loop_do (Suc k) lenv env config resolver flows ord c q x =
     (if c = sharedHTTPClient
      then (case flow_target q of
              None \<Rightarrow> http_do (fe_proxy env) c q x
            | Some n \<Rightarrow>
                answered lenv
                  (flowHandler server_ops
                    (env\<lparr>fe_proxy := (fe_proxy env)\<lparr>http_do := loop_do k lenv env config resolver flows ord\<rparr>\<rparr>)
                    config resolver flows ord ((lb_wire lenv q)\<lparr>rq_vars := [''name'' \<mapsto> n]\<rparr>) (newResponse, x, None)))
      else http_do (fe_proxy env) c q x)"

definition looped ::
    "nat \<Rightarrow> 'x loop_env \<Rightarrow> (server_writer, 'x) flow_env \<Rightarrow> faas_config \<Rightarrow> 'x resolver \<Rightarrow> Flows \<Rightarrow>
     (string \<times> FlowChild) range_order \<Rightarrow> (server_writer, 'x) flow_env" where
  "looped k lenv env config resolver flows ord =
     env\<lparr>fe_proxy := (fe_proxy env)\<lparr>http_do := loop_do k lenv env config resolver flows ord\<rparr>\<rparr>"

text \<open>A flow request with at most \<open>k\<close> requests nested in each other.\<close>

definition serveFlow ::
    "nat \<Rightarrow> 'x loop_env \<Rightarrow> (server_writer, 'x) flow_env \<Rightarrow> faas_config \<Rightarrow> 'x resolver \<Rightarrow> Flows \<Rightarrow>
     (string \<times> FlowChild) range_order \<Rightarrow> (server_writer, 'x) flow_state handler" where
  "serveFlow k lenv env config resolver flows ord =
     flowHandler server_ops (looped k lenv env config resolver flows ord) config resolver flows ord"

lemma loop_do_Suc:
  "loop_do (Suc k) lenv env config resolver flows ord sharedHTTPClient q x =
     (case flow_target q of
        None \<Rightarrow> http_do (fe_proxy env) sharedHTTPClient q x
      | Some n \<Rightarrow> answered lenv (serveFlow k lenv env config resolver flows ord
          ((lb_wire lenv q)\<lparr>rq_vars := [''name'' \<mapsto> n]\<rparr>) (newResponse, x, None)))"
  by (cases "flow_target q") (simp_all add: serveFlow_def looped_def)

lemma loop_do_other:
  assumes "c \<noteq> sharedHTTPClient \<or> flow_target q = None"
  shows "loop_do k lenv env config resolver flows ord c q x = http_do (fe_proxy env) c q x"
  using assms by (cases k) auto

subsection \<open>The call graph\<close>

definition child_target :: "Flows \<Rightarrow> FlowChild \<Rightarrow> string option" where
  "child_target flows child =
     (case childURL flows child of
        None \<Rightarrow> None
      | Some u \<Rightarrow> (case http_NewRequest ''POST'' u None of None \<Rightarrow> None | Some q \<Rightarrow> flow_target q))"

definition call_graph :: "Flows \<Rightarrow> (string \<times> string) set" where
  "call_graph flows =
     {(n, m). \<exists>f. map_of flows n = Some f \<and> (\<exists>e \<in> set (fl_children f). child_target flows (snd e) = Some m)}"

lemma flow_target_url: "rq_url q = rq_url q' \<Longrightarrow> flow_target q = flow_target q'"
  by (simp add: flow_target_def)

lemma childRequest_target: "childRequest flows fargs child = Some q \<Longrightarrow> flow_target q = child_target flows child"
  by (auto simp: childRequest_def child_target_def http_NewRequest_def Let_def flow_target_def
      split: option.splits if_splits)

lemma child_target_internal:
  assumes "flow_name (ch_function child)" and "\<not> fl_is_third_party (flowOf flows (ch_function child))"
  shows "child_target flows child = Some (ch_function child)"
  using flow_url_request [OF assms(1), of None] assms
  by (auto simp: child_target_def childURL_def flow_target_def Let_def)

lemma call_graph_child:
  assumes "map_of flows n = Some f" and "e \<in> set (fl_children f)" and "child_target flows (snd e) = Some m"
  shows "(n, m) \<in> call_graph flows"
  using assms by (auto simp: call_graph_def)

text \<open>The number of flows that a flow can reach.\<close>

definition reach :: "Flows \<Rightarrow> string \<Rightarrow> nat" where
  "reach flows n = card {m \<in> fst ` set flows. (n, m) \<in> (call_graph flows)\<^sup>*}"

lemma reach_le: "reach flows n \<le> length flows"
proof -
  have "reach flows n \<le> card (fst ` set flows)" unfolding reach_def by (intro card_mono) auto
  also have "\<dots> \<le> length flows" using card_image_le [of "set flows" fst] card_length [of flows] by simp
  finally show ?thesis .
qed

lemma reach_less:
  assumes "acyclic (call_graph flows)" and "(n, m) \<in> call_graph flows"
  shows "reach flows m < reach flows n"
proof -
  let ?R = "\<lambda>n. {m \<in> fst ` set flows. (n, m) \<in> (call_graph flows)\<^sup>*}"
  have "n \<in> fst ` set flows" using assms(2) by (auto simp: call_graph_def dest: map_of_SomeD intro: rev_image_eqI)
  then have "n \<in> ?R n" by simp
  moreover have "n \<notin> ?R m"
    using assms by (auto simp: acyclic_def dest: rtrancl_into_trancl2)
  moreover have "?R m \<subseteq> ?R n" using assms(2) by (auto intro: converse_rtrancl_into_rtrancl)
  ultimately have "?R m \<subset> ?R n" by blast
  then show ?thesis unfolding reach_def by (intro psubset_card_mono) auto
qed

subsection \<open>Acyclic flows\<close>

text \<open>Environments that answer the same requests in the same way run a flow in the same way.\<close>

lemma runChildren_cong:
  assumes "\<And>e fargs q x. e \<in> set cs \<Longrightarrow> childRequest flows fargs (snd e) = Some q \<Longrightarrow>
    http_do (fe_proxy env1) sharedHTTPClient q x = http_do (fe_proxy env2) sharedHTTPClient q x"
  shows "runChildren env1 flows cs fi x = runChildren env2 flows cs fi x"
  using assms
proof (induction cs arbitrary: fi x)
  case (Cons e cs)
  obtain a child where e: "e = (a, child)" by (cases e)
  have "runChild env1 flows fargs child x = runChild env2 flows fargs child x" for fargs
    using Cons.prems [of e] by (auto simp: runChild_def e split: option.splits)
  moreover have "runChildren env1 flows cs = runChildren env2 flows cs"
    using Cons.prems by (intro ext Cons.IH) (meson list.set_intros(2))
  ultimately show ?case by (simp add: e)
qed simp

lemma proxyRequest_cong:
  assumes "\<And>q x. http_do p1 c q x = http_do p2 c q x" and "reverse_serve p1 = reverse_serve p2"
  shows "proxyRequest ops p1 c resolver rb r s = proxyRequest ops p2 c resolver rb r s"
proof -
  have eq: "http_do p1 c = http_do p2 c" by (intro ext) (rule assms(1))
  show ?thesis unfolding proxyRequest_def eq assms(2) ..
qed

lemma flowHandler_cong:
  assumes "fe_cache env1 = fe_cache env2" and "fe_orch env1 = fe_orch env2"
    and "\<And>fi s. runChildren env1 flows (ord (fl_children (flowOf flows (path_var r ''name'')))) fi s =
      runChildren env2 flows (ord (fl_children (flowOf flows (path_var r ''name'')))) fi s"
    and "\<And>q x. http_do (fe_proxy env1) (NewProxyClientFromConfig config) q x =
      http_do (fe_proxy env2) (NewProxyClientFromConfig config) q x"
    and "reverse_serve (fe_proxy env1) = reverse_serve (fe_proxy env2)"
  shows "flowHandler ops env1 config resolver flows ord r s = flowHandler ops env2 config resolver flows ord r s"
proof -
  let ?n = "path_var r ''name''"
  have eqs: "proxyRequest ops (fe_proxy env1) (NewProxyClientFromConfig config) = proxyRequest ops (fe_proxy env2) (NewProxyClientFromConfig config)"
    "runChildren env1 flows (ord (fl_children (flowOf flows ?n))) = runChildren env2 flows (ord (fl_children (flowOf flows ?n)))"
    by (intro ext proxyRequest_cong assms)+
  have store: "storeResponse env1 = storeResponse env2" by (intro ext) (unfold storeResponse_def assms(1), rule refl)
  have rec: "recordAccess env1 = recordAccess env2" by (intro ext) (unfold recordAccess_def assms(2), rule refl)
  have run: "runFlow ops env1 config resolver flows ord r ?n (flowOf flows ?n) =
      runFlow ops env2 config resolver flows ord r ?n (flowOf flows ?n)"
    by (intro ext) (unfold runFlow_def eqs store, rule refl)
  show ?thesis unfolding flowHandler_def Let_def assms(1) rec run ..
qed

lemma proxyClient_not_shared: "NewProxyClientFromConfig config \<noteq> sharedHTTPClient"
  by (simp add: NewProxyClientFromConfig_def NewProxyClient_def sharedHTTPClient_def)

lemma serveFlow_cong:
  assumes "is_range_order ord"
    and children: "\<And>e fargs q x. e \<in> set (fl_children (flowOf flows (path_var r ''name''))) \<Longrightarrow>
      childRequest flows fargs (snd e) = Some q \<Longrightarrow>
      loop_do k1 lenv1 env config resolver flows ord sharedHTTPClient q x =
      loop_do k2 lenv2 env config resolver flows ord sharedHTTPClient q x"
  shows "serveFlow k1 lenv1 env config resolver flows ord r s = serveFlow k2 lenv2 env config resolver flows ord r s"
  unfolding serveFlow_def
proof (rule flowHandler_cong)
  show "runChildren (looped k1 lenv1 env config resolver flows ord) flows
      (ord (fl_children (flowOf flows (path_var r ''name'')))) fi s =
    runChildren (looped k2 lenv2 env config resolver flows ord) flows
      (ord (fl_children (flowOf flows (path_var r ''name'')))) fi s" for fi s
    by (rule runChildren_cong) (use children range_order_set [OF assms(1)] in \<open>auto simp: looped_def\<close>)
qed (simp_all add: looped_def loop_do_other proxyClient_not_shared)

lemma flowOf_children: "e \<in> set (fl_children (flowOf flows n)) \<Longrightarrow> \<exists>f. map_of flows n = Some f \<and> e \<in> set (fl_children f)"
  by (auto simp: flowOf_def no_flow_def split: option.splits)

lemma enough_depth:
  assumes "is_range_order ord" and "acyclic (call_graph flows)"
    and "reach flows (path_var r ''name'') \<le> k1" and "reach flows (path_var r ''name'') \<le> k2"
    and "lb_wire lenv1 = lb_wire lenv2" and "lb_broken lenv1 = lb_broken lenv2"
  shows "serveFlow k1 lenv1 env config resolver flows ord r s = serveFlow k2 lenv2 env config resolver flows ord r s"
  using assms(3,4)
proof (induction "reach flows (path_var r ''name'')" arbitrary: r k1 k2 s rule: less_induct)
  case less
  show ?case
  proof (rule serveFlow_cong [OF assms(1)])
    fix e fargs q x
    assume e: "e \<in> set (fl_children (flowOf flows (path_var r ''name'')))"
      and q: "childRequest flows fargs (snd e) = Some q"
    note target = childRequest_target [OF q]
    show "loop_do k1 lenv1 env config resolver flows ord sharedHTTPClient q x =
      loop_do k2 lenv2 env config resolver flows ord sharedHTTPClient q x"
    proof (cases "flow_target q")
      case None
      then show ?thesis by (simp add: loop_do_other)
    next
      case (Some m)
      with e target have "(path_var r ''name'', m) \<in> call_graph flows"
        using flowOf_children call_graph_child by metis
      then have m: "reach flows m < reach flows (path_var r ''name'')" by (rule reach_less [OF assms(2)])
      then obtain j1 j2 where j: "k1 = Suc j1" "k2 = Suc j2" "reach flows m \<le> j1" "reach flows m \<le> j2"
        using less.prems by (cases k1; cases k2) auto
      let ?r = "(lb_wire lenv2 q)\<lparr>rq_vars := [''name'' \<mapsto> m]\<rparr>"
      have p: "path_var ?r ''name'' = m" by (simp add: path_var_def)
      have "serveFlow j1 lenv1 env config resolver flows ord ?r = serveFlow j2 lenv2 env config resolver flows ord ?r"
        by (intro ext less.hyps) (use p m j in simp_all)
      moreover have "answered lenv1 = answered lenv2" by (intro ext) (unfold answered_def assms(6), rule refl)
      ultimately show ?thesis by (simp add: j(1,2) loop_do_Suc Some assms(5) del: loop_do.simps)
    qed
  qed
qed

text \<open>
  Property C3: flows that do not call each other in a cycle come to an end: with as many nested
  requests as there are flows, a flow request has its final result, whatever would happen to
  requests nested deeper and however many more of them are allowed.
\<close>

theorem acyclic_flows_return:
  assumes "acyclic (call_graph flows)" and "is_range_order ord" and "length flows \<le> k"
  shows "serveFlow k (lenv\<lparr>lb_deep := deep\<rparr>) env config resolver flows ord r s =
    serveFlow (length flows) lenv env config resolver flows ord r s"
  using enough_depth [OF assms(2,1), of r k "length flows" "lenv\<lparr>lb_deep := deep\<rparr>" lenv] reach_le [of flows] assms(3)
  by (auto intro: order_trans)

subsection \<open>The output of a child\<close>

text \<open>
  Property C22: what a flow passes on as the data of an internal child is exactly what the child's
  own handler writes to its response, whatever the status: an error text of the child becomes
  data.
\<close>

theorem child_output:
  assumes "flow_name (ch_function child)" and "\<not> fl_is_third_party (flowOf flows (ch_function child))"
    and "childRequest flows fargs child = Some q"
    and "serveFlow k lenv env config resolver flows ord
      ((lb_wire lenv q)\<lparr>rq_vars := [''name'' \<mapsto> ch_function child]\<rparr>) (newResponse, x, None) = (Done (), w', x', orc')"
  shows "runChild (looped (Suc k) lenv env config resolver flows ord) flows fargs child x =
    (Done \<lparr>fo_data = sw_body w', fo_function = ch_function child\<rparr>, x')"
proof -
  have "flow_target q = Some (ch_function child)"
    using childRequest_target [OF assms(3)] child_target_internal [OF assms(1,2)] by simp
  then show ?thesis
    using assms(3,4) by (simp add: runChild_def looped_def loop_do_Suc answered_def sent_response_def del: loop_do.simps
      split: prod.splits)
qed

subsection \<open>Flows that call themselves\<close>

lemma runChild_cases:
  obtains (panic) x' where "runChild env flows fargs child x = (Panics nilPanic, x')"
    | (out) out x' where "runChild env flows fargs child x = (Done out, x')"
proof (cases "childRequest flows fargs child")
  case (Some q)
  obtain resp err x' where h: "http_do (fe_proxy env) sharedHTTPClient q x = ((resp, err), x')" by (metis prod.collapse)
  show ?thesis
  proof (cases "resp = None \<or> rs_body (the resp) = None")
    case True
    then show ?thesis using Some h by (intro panic [of x']) (auto simp: runChild_def split: option.splits)
  next
    case False
    then show ?thesis using Some h out by (auto simp: runChild_def)
  qed
qed (auto simp: runChild_def intro: panic)

lemma runChildren_fails:
  assumes "\<And>x. \<exists>x'. runChild env flows (fi_args fi) child x = (Panics nilPanic, x')" and "(a, child) \<in> set cs"
  shows "\<exists>x'. runChildren env flows cs fi x = (Panics nilPanic, x')"
  using assms
proof (induction cs arbitrary: fi x)
  case (Cons e cs)
  obtain b c where e: "e = (b, c)" by (cases e)
  consider (panic) x' where "runChild env flows (fi_args fi) c x = (Panics nilPanic, x')"
    | (out) o' x' where "runChild env flows (fi_args fi) c x = (Done o', x')"
    by (rule runChild_cases)
  then show ?case
  proof cases
    case panic
    then show ?thesis by (simp add: e)
  next
    case out
    then have "c \<noteq> child" using Cons.prems(1) [of x] by auto
    with Cons.prems(2) have "(a, child) \<in> set cs" by (auto simp: e)
    with out Cons.IH [of "fi\<lparr>fi_children := AList.update b o' (fi_children fi)\<rparr>" x'] Cons.prems(1)
    show ?thesis by (simp add: e)
  qed
qed simp

text \<open>Every flow of a set has an internal child in the set.\<close>

definition cyclic_flows :: "Flows \<Rightarrow> string set \<Rightarrow> bool" where
  "cyclic_flows flows S \<longleftrightarrow>
     (\<forall>n \<in> S. \<exists>f a child. map_of flows n = Some f \<and> (a, child) \<in> set (fl_children f) \<and>
        ch_function child \<in> S \<and> flow_name (ch_function child) \<and> argument_names_ok child \<and>
        \<not> fl_is_third_party (flowOf flows (ch_function child)))"

lemma child_body:
  assumes "clean_args (maxNestingDepth - 1) m" and "argument_names_ok child"
  shows "DecodeArgs (marshalOrEmpty (JObj (childArgs (Some m) child)), e) = Some (Some (canon_args (childArgs (Some m) child)))"
proof -
  have c: "clean_args (maxNestingDepth - 1) (childArgs (Some m) child)" using childArgs_clean assms by blast
  then have "marshalOrEmpty (JObj (childArgs (Some m) child)) = json_print (JObj (childArgs (Some m) child))"
    by (intro marshal_clean) (simp only: clean_args_JObj)
  with DecodeArgs_send [OF c] show ?thesis by simp
qed

lemma cyclic_step:
  assumes "cyclic_flows flows S" and "path_var r ''name'' \<in> S" and "path_var r ''name'' \<noteq> []"
    and "fc_enable_caching config = False" and "is_range_order ord"
    and "rq_body r = Some b" and "DecodeArgs b = Some (Some m)"
    and "\<And>child q x. ch_function child \<in> S \<Longrightarrow> flow_target q = Some (ch_function child) \<Longrightarrow>
      rq_body q = Some (marshalOrEmpty (JObj (childArgs (Some m) child)), None) \<Longrightarrow> argument_names_ok child \<Longrightarrow>
      \<exists>err x'. http_do (fe_proxy env) sharedHTTPClient q x = ((None, err), x')"
  shows "\<exists>x'. flowHandler server_ops env config resolver flows ord r (w, x, orc) = (Panics nilPanic, w, x', orc)"
proof -
  obtain f a child where f: "map_of flows (path_var r ''name'') = Some f" "(a, child) \<in> set (fl_children f)"
    "ch_function child \<in> S" "flow_name (ch_function child)" "argument_names_ok child"
    "\<not> fl_is_third_party (flowOf flows (ch_function child))"
    using assms(1,2) unfolding cyclic_flows_def by metis
  obtain q where q: "childRequest flows (Some m) child = Some q"
    "rq_body q = Some (marshalOrEmpty (JObj (childArgs (Some m) child)), None)"
    using childRequest_internal [OF f(4,6)] by blast
  have "flow_target q = Some (ch_function child)"
    using childRequest_target [OF q(1)] child_target_internal [OF f(4,6)] by simp
  then have "\<exists>x'. runChild env flows (Some m) child x = (Panics nilPanic, x')" for x
    using assms(8) [OF f(3) _ q(2) f(5), of x] q(1) by (auto simp: runChild_def)
  then obtain x' where "runChildren env flows (ord (fl_children f)) \<lparr>fi_args = Some m, fi_children = []\<rparr> x = (Panics nilPanic, x')"
    using runChildren_fails [of env flows "\<lparr>fi_args = Some m, fi_children = []\<rparr>" child a] range_order_set [OF assms(5)] f(2)
    by (metis Flow.FlowInput.select_convs(1))
  then show ?thesis using assms(3,4,6,7) f(1) by (auto simp: flowHandler_def flowOf_def runFlow_def Let_def)
qed

text \<open>
  Property C15: nothing stops flows that call each other in a cycle: without a cached answer each
  of them waits for the next, and however many nested requests go through, once they fail the
  client's connection is broken too: its handler panics without a response.
\<close>

theorem cyclic_flows_panic:
  assumes "cyclic_flows flows S" and "path_var r ''name'' \<in> S" and "path_var r ''name'' \<noteq> []"
    and "fc_enable_caching config = False" and "is_range_order ord"
    and "rq_body r = Some b" and "DecodeArgs b = Some (Some m)"
    and "\<forall>q. rq_body (lb_wire lenv q) = rq_body q" and "\<forall>w. fst (lb_broken lenv w) = None"
    and "\<forall>q x. fst (fst (lb_deep lenv q x)) = None"
  shows "\<exists>x'. serveFlow k lenv env config resolver flows ord r (w, x, None) = (Panics nilPanic, w, x', None)"
  using assms(2,3,6,7)
proof (induction k arbitrary: r w x b m)
  case 0
  have "\<exists>err x'. http_do (fe_proxy (looped 0 lenv env config resolver flows ord)) sharedHTTPClient q x = ((None, err), x')"
    if "flow_target q = Some n" for q x n
  proof -
    have "fst (fst (lb_deep lenv q x)) = None" using assms(10) by blast
    with that show ?thesis by (cases "lb_deep lenv q x") (auto simp: looped_def)
  qed
  then show ?case
    unfolding serveFlow_def by (intro cyclic_step [OF assms(1) 0(1,2) assms(4,5) 0(3,4)]) blast
next
  case (Suc k)
  show ?case
    unfolding serveFlow_def
  proof (rule cyclic_step [OF assms(1) Suc.prems(1,2) assms(4,5) Suc.prems(3,4)])
    fix child q x
    assume c: "ch_function child \<in> S" "flow_target q = Some (ch_function child)" "argument_names_ok child"
      and b: "rq_body q = Some (marshalOrEmpty (JObj (childArgs (Some m) child)), None)"
    let ?r = "(lb_wire lenv q)\<lparr>rq_vars := [''name'' \<mapsto> ch_function child]\<rparr>"
    have "path_var ?r ''name'' = ch_function child" by (simp add: path_var_def)
    moreover have "ch_function child \<noteq> []" using c(2) by (auto simp: flow_target_def flow_name_def Let_def split: if_splits)
    moreover have "rq_body ?r = Some (marshalOrEmpty (JObj (childArgs (Some m) child)), None)" using assms(8) b by simp
    ultimately obtain x' where "serveFlow k lenv env config resolver flows ord ?r (newResponse, x, None) =
        (Panics nilPanic, newResponse, x', None)"
      using Suc.IH [of ?r _ _ newResponse x] child_body [OF DecodeArgs_clean [OF Suc.prems(4)] c(3)] c(1) by metis
    moreover have lost: "fst (lb_broken lenv newResponse) = None" using assms(9) by blast
    ultimately show "\<exists>err x'. http_do (fe_proxy (looped (Suc k) lenv env config resolver flows ord)) sharedHTTPClient q x =
        ((None, err), x')"
      using lost by (cases "lb_broken lenv newResponse") (auto simp: looped_def loop_do_Suc c(2) answered_def simp del: loop_do.simps)
  qed
qed

subsection \<open>An example\<close>

text \<open>Requests arrive as they are sent; broken and too deep requests have no response.\<close>

definition plain_loop :: "'x loop_env" where
  "plain_loop = \<lparr>lb_wire = (\<lambda>q. q), lb_broken = (\<lambda>w. (None, Some ''EOF'')),
     lb_deep = (\<lambda>q x. ((None, Some ''too many open files''), x))\<rparr>"

definition no_cache_config :: faas_config where
  "no_cache_config = example_config\<lparr>fc_enable_caching := False\<rparr>"

lemma example_targets:
  "flow_name ''figlet''" "flow_name ''a''" "flow_name ''b''" by code_simp+

lemma example_acyclic: "acyclic (call_graph example_flows)"
proof -
  have "child_target example_flows \<lparr>ch_args_map = [], ch_function = ''figlet''\<rparr> = Some ''figlet''"
    using child_target_internal [of "\<lparr>ch_args_map = [], ch_function = ''figlet''\<rparr>" example_flows] example_targets(1)
    by (simp add: flowOf_def example_flows_def no_flow_def)
  then have "call_graph example_flows \<subseteq> {(''compose'', ''figlet'')}"
    by (auto simp: call_graph_def example_flows_def no_flow_def split: if_splits)
  moreover have "acyclic {(''compose'', ''figlet'')}" by (rule wf_acyclic) simp
  ultimately show ?thesis by (rule acyclic_subset [rotated])
qed

theorem acyclic_flows_return_witness:
  "serveFlow 7 (plain_loop\<lparr>lb_deep := \<lambda>q x. ((Some example_response, None), x)\<rparr>) example_flow_env example_config
     fixed_resolver example_flows (\<lambda>es. es) (example_request ''compose'') (newResponse, ([], 0), None) =
   serveFlow 2 plain_loop example_flow_env example_config
     fixed_resolver example_flows (\<lambda>es. es) (example_request ''compose'') (newResponse, ([], 0), None)"
  using acyclic_flows_return [OF example_acyclic is_range_order_id, of 7]
  by (simp add: example_flows_def numeral_2_eq_2)

theorem child_output_witness:
  "\<exists>key out. runChild (looped 1 plain_loop example_flow_env example_config fixed_resolver example_flows (\<lambda>es. es))
     example_flows (Some [(''q'', JStr ''x'')]) \<lparr>ch_args_map = [], ch_function = ''figlet''\<rparr> ([(key, ''hi'')], 0) =
   (Done out, [(key, ''hi'')], 0) \<and> fo_data out = ''hi''"
proof -
  let ?c = "\<lparr>ch_args_map = [], ch_function = ''figlet''\<rparr>" and ?f = "no_flow\<lparr>fl_caching := True, fl_cache_ttl := 60\<rparr>"
  let ?m = "[(flowNameField, JStr ''figlet'')]"
  let ?x = "([(cacheKey ?m, ''hi'')], 0::nat)"
  have n: "flow_name (ch_function ?c)" "\<not> fl_is_third_party (flowOf example_flows (ch_function ?c))"
    using example_targets(1) by (simp_all add: flowOf_def example_flows_def no_flow_def)
  obtain q where q: "childRequest example_flows (Some [(''q'', JStr ''x'')]) ?c = Some q"
    "rq_body q = Some (marshalOrEmpty (JObj (childArgs (Some [(''q'', JStr ''x'')]) ?c)), None)"
    using childRequest_internal [OF n] by blast
  let ?r = "(lb_wire (plain_loop :: example_world loop_env) q)\<lparr>rq_vars := [''name'' \<mapsto> ch_function ?c]\<rparr>"
  have "clean_args (maxNestingDepth - 1) [(''q'', JStr ''x'')]"
    by (simp add: clean_args_def clean_def valid_utf8.simps)
  then have "DecodeArgs (marshalOrEmpty (JObj (childArgs (Some [(''q'', JStr ''x'')]) ?c)), None) = Some (Some [])"
    using child_body [of "[(''q'', JStr ''x'')]" ?c None]
    by (simp add: argument_names_ok_def childArgs_def canon_args_def)
  then have r: "cached_request example_config example_flows ?r ?f ?m"
    using q(2) by (simp add: cached_request_def path_var_def example_flows_def example_config_def plain_loop_def)
  obtain w' where w': "serveCached server_ops (Some ''hi'') newResponse = (Done (), w')" "sw_body w' = ''hi''"
    using serveCached_response [OF fresh_newResponse, of "Some ''hi''"] by (auto simp: newResponse_def)
  have "serveFlow 0 plain_loop example_flow_env example_config fixed_resolver example_flows (\<lambda>es. es) ?r
      (newResponse, ?x, None) = (Done (), w', ?x, None)"
    unfolding serveFlow_def
    by (subst flowHandler_cached [OF r, of _ ?x "Some ''hi''" None ?x None ?x None])
      (simp_all add: looped_def example_env_simps recordAccess_none on_response_def w'(1))
  from child_output [OF n q(1) this] w'(2) show ?thesis
    by (intro exI [of _ "cacheKey ?m"] exI [of _ "\<lparr>fo_data = ''hi'', fo_function = ''figlet''\<rparr>"]) simp
qed

definition cyclic_example :: Flows where
  "cyclic_example =
     [(''a'', no_flow\<lparr>fl_children := [(''x'', \<lparr>ch_args_map = [], ch_function = ''b''\<rparr>)]\<rparr>),
      (''b'', no_flow\<lparr>fl_children := [(''y'', \<lparr>ch_args_map = [(''q'', ''q'')], ch_function = ''a''\<rparr>)]\<rparr>)]"

theorem cyclic_flows_panic_witness:
  "\<exists>x'. serveFlow 1000 plain_loop example_flow_env no_cache_config fixed_resolver cyclic_example (\<lambda>es. es)
     (example_request ''a'') (newResponse, ([], 0), None) = (Panics nilPanic, newResponse, x', None)"
proof -
  have "cyclic_flows cyclic_example {''a'', ''b''}"
    by (simp add: cyclic_flows_def cyclic_example_def flowOf_def no_flow_def example_targets argument_names_ok_def valid_utf8.simps)
  then show ?thesis
    by (rule cyclic_flows_panic [where b = "(''{\"q\":\"x\"}'', None)" and m = "[(''q'', JStr ''x'')]"])
      (simp_all add: example_request_def path_var_def no_cache_config_def example_decode plain_loop_def)
qed

end
