(* ===== verification/Auth.thy ===== *)
theory Auth
  imports NetUrl Encoding
begin

text \<open>
  src/auth: the basic-auth middleware and the credentials it reads from disk, with what they
  use of the standard library: \<open>Request.BasicAuth\<close>, the constant-time comparison,
  \<open>strings.TrimSpace\<close> and \<open>path.Join\<close>. The file system is the argument \<open>fs\<close>.
\<close>

subsection \<open>Basic authentication\<close>

definition parseBasicAuth :: "string \<Rightarrow> (string \<times> string) option" where
  "parseBasicAuth auth =
     (if length auth < 6 \<or> map to_lower (take 6 auth) \<noteq> ''basic '' then None
      else case b64_decode (drop 6 auth) of None \<Rightarrow> None | Some cs \<Rightarrow> cut (CHR '':'') cs)"

definition BasicAuth :: "request \<Rightarrow> (string \<times> string) option" where
  "BasicAuth r =
     (let auth = header_Get (rq_header r) ''Authorization''
      in if auth = [] then None else parseBasicAuth auth)"

text \<open>\<open>subtle.ConstantTimeCompare\<close>: the disjunction of the differences of all bytes, and a
  comparison with zero that does not branch.\<close>

definition ConstantTimeByteEq :: "8 word \<Rightarrow> 8 word \<Rightarrow> int" where
  "ConstantTimeByteEq x y = uint (drop_bit 31 (ucast (xor x y) - 1 :: 32 word))"

definition byte :: "char \<Rightarrow> 8 word" where "byte c = word_of_nat (of_char c)"

definition differences :: "string \<Rightarrow> string \<Rightarrow> 8 word" where
  "differences x y = foldl (\<lambda>v (a, b). or v (xor (byte a) (byte b))) 0 (zip x y)"

definition ConstantTimeCompare :: "string \<Rightarrow> string \<Rightarrow> int" where
  "ConstantTimeCompare x y = (if length x \<noteq> length y then 0 else ConstantTimeByteEq (differences x y) 0)"

record BasicAuthCredentials =
  cr_user :: string
  cr_password :: string

definition DecorateWithBasicAuth :: "'w writer \<Rightarrow> 'w handler \<Rightarrow> BasicAuthCredentials \<Rightarrow> 'w handler" where
  "DecorateWithBasicAuth ops next credentials r w =
     (let denied =
        (let w = w_set_header ops (header_Set ''WWW-Authenticate'' ''Basic realm=\"Restricted\"'' (w_header ops w)) w
         in then_do (w_write_header ops 401 w) (\<lambda>_ w.
            then_do (w_write ops ''invalid credentials'' w) (\<lambda>_ w. (Done (), w))))
      in case BasicAuth r of
           None \<Rightarrow> denied
         | Some (user, password) \<Rightarrow>
             if user \<noteq> cr_user credentials \<or> ConstantTimeCompare (cr_password credentials) password = 0
             then denied else next r w)"

lemma ConstantTimeByteEq_zero: "ConstantTimeByteEq v 0 = (if v = 0 then 1 else 0)"
proof (cases "v = 0")
  case True
  have "uint (drop_bit 31 (- 1 :: 32 word)) = 1" by code_simp
  with True show ?thesis by (simp add: ConstantTimeByteEq_def)
next
  case False
  let ?u = "ucast v :: 32 word"
  have "uint v < 2 ^ 32" using uint_lt2p [of v] by (rule order_less_trans) simp
  then have u: "uint ?u = uint v" by (simp add: unsigned_ucast_eq take_bit_int_eq_self)
  have "0 < uint v" "uint v < 256"
    using False uint_lt2p [of v] uint_0_iff [of v] uint_ge_0 [of v] by (auto simp: order_less_le)
  then have "uint (?u - 1) = uint v - 1" using u by (simp add: uint_word_ariths)
  then have "drop_bit 31 (uint (?u - 1)) = 0" using \<open>0 < uint v\<close> \<open>uint v < 256\<close> by (simp add: drop_bit_eq_div)
  moreover have "take_bit 32 (uint (?u - 1)) = uint (?u - 1)"
    using uint_lt2p [of "?u - 1"] by (intro take_bit_int_eq_self) simp_all
  ultimately show ?thesis using False by (simp add: ConstantTimeByteEq_def unsigned_drop_bit_eq)
qed

lemma or_zero_iff: "or (a :: 'a::len word) b = 0 \<longleftrightarrow> a = 0 \<and> b = 0"
  by (auto simp: bit_eq_iff bit_simps)

lemma xor_zero_iff: "xor (a :: 'a::len word) b = 0 \<longleftrightarrow> a = b"
  by (auto simp: bit_eq_iff bit_simps)

lemma differences_zero:
  "foldl (\<lambda>v (a, b). or v (xor (byte a) (byte b))) v ps = 0 \<longleftrightarrow>
   v = 0 \<and> (\<forall>p \<in> set ps. byte (fst p) = byte (snd p))"
  by (induction ps arbitrary: v) (auto simp: or_zero_iff xor_zero_iff)

lemma byte_inj: "byte a = byte b \<longleftrightarrow> a = b"
proof
  assume "byte a = byte b"
  then have "unat (byte a) = unat (byte b)" by simp
  then have "(of_char a :: nat) = of_char b" by (simp add: byte_def unat_of_nat)
  then show "a = b" by simp
qed simp

lemma ConstantTimeCompare_eq: "ConstantTimeCompare x y = (if x = y then 1 else 0)"
proof (cases "length x = length y")
  case True
  then have "differences x y = 0 \<longleftrightarrow> x = y"
    by (auto simp: differences_def differences_zero byte_inj set_zip list_eq_iff_nth_eq)
  with True show ?thesis by (simp add: ConstantTimeCompare_def ConstantTimeByteEq_zero)
qed (auto simp: ConstantTimeCompare_def)

lemma denied_response:
  assumes "sw_sent w = None" and "\<not> sw_hijacked w" and "contentLimit (sw_header w) = None"
  shows "\<exists>w' h. then_do (sw_WriteHeader 401 (w\<lparr>sw_header :=
      header_Set ''WWW-Authenticate'' v (sw_header w)\<rparr>))
        (\<lambda>_ w. then_do (sw_Write msg w) (\<lambda>_ w. (Done (), w))) = (Done (), w') \<and>
    sw_sent w' = Some (401, h) \<and> header_Get h ''WWW-Authenticate'' = v \<and> sw_body w' = sw_body w @ msg"
proof -
  let ?h = "header_Set ''WWW-Authenticate'' v (sw_header w)"
  let ?w = "w\<lparr>sw_header := ?h, sw_sent := Some (401, ?h)\<rparr>"
  have "contentLimit ?h = None"
    using assms(3) by (simp add: contentLimit_def header_Get_Set)
  then obtain r w' where "sw_Write msg ?w = (Done r, w')" "sw_sent w' = Some (401, ?h)"
    "sw_body w' = sw_body w @ msg"
    using server.write_more [of ?w 401 ?h msg] assms by (auto simp: sw_ok_simps bodyAllowed_def)
  then show ?thesis using assms by (auto simp: sw_WriteHeader_def header_Get_Set)
qed

lemma Decorate_cases:
  "DecorateWithBasicAuth ops next c r w =
     (if BasicAuth r = Some (cr_user c, cr_password c) then next r w
      else then_do (w_write_header ops 401
          (w_set_header ops (header_Set ''WWW-Authenticate'' ''Basic realm=\"Restricted\"'' (w_header ops w)) w))
        (\<lambda>_ w. then_do (w_write ops ''invalid credentials'' w) (\<lambda>_ w. (Done (), w))))"
  by (auto simp: DecorateWithBasicAuth_def ConstantTimeCompare_eq Let_def split: option.split)

text \<open>
  Property C8: the middleware lets a request through exactly if it carries the two
  credentials; any other request gets a 401 with a challenge and does not reach the handler.
\<close>

theorem DecorateWithBasicAuth_gate:
  assumes "sw_sent w = None" and "\<not> sw_hijacked w" and "contentLimit (sw_header w) = None"
  shows "if BasicAuth r = Some (cr_user c, cr_password c)
    then DecorateWithBasicAuth server_ops next c r w = next r w
    else \<exists>w' h. DecorateWithBasicAuth server_ops next c r w = (Done (), w') \<and>
      sw_sent w' = Some (401, h) \<and> header_Get h ''WWW-Authenticate'' = ''Basic realm=\"Restricted\"'' \<and>
      sw_body w' = sw_body w @ ''invalid credentials''"
  using denied_response [OF assms] by (simp add: Decorate_cases sw_ok_simps)

definition plain_request :: request where
  "plain_request = \<lparr>rq_method = ''GET'', rq_url = no_url\<lparr>u_path := ''/system/functions''\<rparr>,
     rq_header = (\<lambda>_. None), rq_host = ''host'', rq_remote_addr = ''10.0.0.1:9'', rq_body = None,
     rq_vars = (\<lambda>_. None)\<rparr>"

theorem DecorateWithBasicAuth_gate_witness:
  "\<exists>w' h. DecorateWithBasicAuth server_ops (\<lambda>r w. (Done (), w)) \<lparr>cr_user = ''admin'', cr_password = ''pw''\<rparr>
     plain_request newResponse = (Done (), w') \<and> sw_sent w' = Some (401, h) \<and>
     header_Get h ''WWW-Authenticate'' = ''Basic realm=\"Restricted\"'' \<and> sw_body w' = ''invalid credentials''"
proof -
  have "BasicAuth plain_request = None"
    by (simp add: BasicAuth_def plain_request_def header_Get_def header_Values_def)
  then show ?thesis
    using DecorateWithBasicAuth_gate [of newResponse plain_request
        "\<lparr>cr_user = ''admin'', cr_password = ''pw''\<rparr>" "\<lambda>r w. (Done (), w)"]
    by (simp add: newResponse_def contentLimit_def header_Get_def header_Values_def)
qed

text \<open>What a client sends, after RFC 7617.\<close>

definition authorization :: "string \<Rightarrow> string \<Rightarrow> string" where
  "authorization user password = ''Basic '' @ b64_encode (user @ CHR '':'' # password)"

lemma parse_authorization:
  "parseBasicAuth (authorization u p) = cut (CHR '':'') (u @ CHR '':'' # p)"
proof -
  have "map to_lower (take 6 (authorization u p)) = ''basic ''"
    by (simp add: authorization_def) code_simp
  then show ?thesis by (simp add: parseBasicAuth_def authorization_def b64_decode_encode)
qed

lemma BasicAuth_authorization:
  assumes "header_Get (rq_header r) ''Authorization'' = authorization u p" and "CHR '':'' \<notin> set u"
  shows "BasicAuth r = Some (u, p)"
proof -
  have "cut (CHR '':'') (u @ CHR '':'' # p) = Some (u, p)" using assms(2) by (simp add: cut_Some_iff)
  moreover have "authorization u p \<noteq> []" by (simp add: authorization_def)
  ultimately show ?thesis using assms(1) by (simp add: BasicAuth_def parse_authorization)
qed

lemma BasicAuth_user: "BasicAuth r = Some (a, b) \<Longrightarrow> CHR '':'' \<notin> set a"
  by (auto simp: BasicAuth_def parseBasicAuth_def Let_def cut_Some_iff split: if_splits option.splits)

text \<open>What a client that is turned away gets.\<close>

definition turned_away :: "unit outcome \<times> server_writer \<Rightarrow> server_writer \<Rightarrow> bool" where
  "turned_away res w \<longleftrightarrow>
     (\<exists>w' h. res = (Done (), w') \<and> sw_sent w' = Some (401, h) \<and>
        header_Get h ''WWW-Authenticate'' = ''Basic realm=\"Restricted\"'' \<and> sw_body w' = sw_body w @ ''invalid credentials'')"

lemma Decorate_denies:
  assumes "sw_sent w = None" and "\<not> sw_hijacked w" and "contentLimit (sw_header w) = None"
    and "BasicAuth r \<noteq> Some (cr_user c, cr_password c)"
  shows "turned_away (DecorateWithBasicAuth server_ops next c r w) w"
  unfolding turned_away_def using denied_response [OF assms(1-3)] assms(4) by (simp add: Decorate_cases sw_ok_simps)

lemma Decorate_authorization:
  assumes "sw_sent w = None" and "\<not> sw_hijacked w" and "contentLimit (sw_header w) = None"
    and "header_Get (rq_header r) ''Authorization'' = authorization u p" and "CHR '':'' \<notin> set u"
  shows "if u = cr_user c \<and> p = cr_password c then DecorateWithBasicAuth server_ops next c r w = next r w
    else turned_away (DecorateWithBasicAuth server_ops next c r w) w"
  using BasicAuth_authorization [OF assms(4,5)] Decorate_denies [OF assms(1-3), of r c "next"]
  by (auto simp: Decorate_cases)

text \<open>
  Property C29: clients that encode their credentials by the standard are told apart exactly:
  the middleware passes the request with the encoding of \<open>(u, p)\<close> on if and only if these are
  the configured credentials, for every user name without a colon, and answers any other with
  a 401; a configured name with a colon locks everybody out, whatever header is sent.
\<close>

theorem authorization_roundtrip:
  assumes "sw_sent w = None" and "\<not> sw_hijacked w" and "contentLimit (sw_header w) = None"
    and "header_Get (rq_header r) ''Authorization'' = authorization u p" and "CHR '':'' \<notin> set u"
  shows "(if u = cr_user c \<and> p = cr_password c then DecorateWithBasicAuth server_ops next c r w = next r w
      else turned_away (DecorateWithBasicAuth server_ops next c r w) w) \<and>
    (CHR '':'' \<in> set (cr_user c) \<longrightarrow> turned_away (DecorateWithBasicAuth server_ops next c r' w) w)"
  using Decorate_authorization [OF assms, of c "next"] Decorate_denies [OF assms(1-3), of r' c "next"] BasicAuth_user [of r']
  by blast

definition signed_request :: request where
  "signed_request = plain_request\<lparr>rq_header := [''Authorization'' \<mapsto> [authorization ''admin'' ''pw'']]\<rparr>"

lemma signed_request_header: "header_Get (rq_header signed_request) ''Authorization'' = authorization ''admin'' ''pw''"
  by (simp add: signed_request_def header_Get_def header_Values_def)

lemma newResponse_open: "sw_sent newResponse = None" "\<not> sw_hijacked newResponse" "contentLimit (sw_header newResponse) = None"
  by (simp_all add: newResponse_def contentLimit_def header_Get_def header_Values_def)

theorem authorization_roundtrip_witness:
  "DecorateWithBasicAuth server_ops (\<lambda>r w. (Panics ''reached'', w)) \<lparr>cr_user = ''admin'', cr_password = ''pw''\<rparr>
       signed_request newResponse = (Panics ''reached'', newResponse) \<and>
     turned_away (DecorateWithBasicAuth server_ops (\<lambda>r w. (Panics ''reached'', w))
       \<lparr>cr_user = ''admin'', cr_password = ''PW''\<rparr> signed_request newResponse) newResponse"
  using authorization_roundtrip [OF newResponse_open signed_request_header,
      of "\<lparr>cr_user = ''admin'', cr_password = ''pw''\<rparr>" "\<lambda>r w. (Panics ''reached'', w)" signed_request]
    authorization_roundtrip [OF newResponse_open signed_request_header,
      of "\<lparr>cr_user = ''admin'', cr_password = ''PW''\<rparr>" "\<lambda>r w. (Panics ''reached'', w)" signed_request]
  by simp

subsection \<open>Credentials from disk\<close>

text \<open>
  \<open>strings.TrimSpace\<close>: the UTF-8 encodings of the runes with \<open>unicode.IsSpace\<close> are removed
  from both ends. No encoding is a part of another one's, so matching bytes is decoding runes.
\<close>

definition space_encodings :: "string list" where
  "space_encodings =
     [[CHR 0x09], [CHR 0x0A], [CHR 0x0B], [CHR 0x0C], [CHR 0x0D], [CHR 0x20], [CHR 0xC2, CHR 0x85],
      [CHR 0xC2, CHR 0xA0], [CHR 0xE1, CHR 0x9A, CHR 0x80], [CHR 0xE2, CHR 0x80, CHR 0x80],
      [CHR 0xE2, CHR 0x80, CHR 0x81], [CHR 0xE2, CHR 0x80, CHR 0x82],
      [CHR 0xE2, CHR 0x80, CHR 0x83], [CHR 0xE2, CHR 0x80, CHR 0x84],
      [CHR 0xE2, CHR 0x80, CHR 0x85], [CHR 0xE2, CHR 0x80, CHR 0x86],
      [CHR 0xE2, CHR 0x80, CHR 0x87], [CHR 0xE2, CHR 0x80, CHR 0x88],
      [CHR 0xE2, CHR 0x80, CHR 0x89], [CHR 0xE2, CHR 0x80, CHR 0x8A],
      [CHR 0xE2, CHR 0x80, CHR 0xA8], [CHR 0xE2, CHR 0x80, CHR 0xA9],
      [CHR 0xE2, CHR 0x80, CHR 0xAF], [CHR 0xE2, CHR 0x81, CHR 0x9F],
      [CHR 0xE3, CHR 0x80, CHR 0x80]]"

function trimLeft :: "string \<Rightarrow> string" where
  "trimLeft s =
     (case find (\<lambda>e. prefix e s) space_encodings of
        None \<Rightarrow> s
      | Some e \<Rightarrow> if e = [] then s else trimLeft (drop (length e) s))"
  by pat_completeness auto
termination
  by (relation "measure length") (auto simp: find_Some_iff prefix_def)

function trimRight :: "string \<Rightarrow> string" where
  "trimRight s =
     (case find (\<lambda>e. suffix e s) space_encodings of
        None \<Rightarrow> s
      | Some e \<Rightarrow> if e = [] then s else trimRight (take (length s - length e) s))"
  by pat_completeness auto
termination
  by (relation "measure length") (auto simp: find_Some_iff suffix_def)

declare trimLeft.simps [simp del] trimRight.simps [simp del]

definition TrimSpace :: "string \<Rightarrow> string" where
  "TrimSpace s = trimRight (trimLeft s)"

text \<open>\<open>path.Clean\<close>: the elements between slashes, with \<open>.\<close> and \<open>..\<close> resolved lexically.\<close>

fun splitSlash :: "string \<Rightarrow> string list" where
  "splitSlash [] = [[]]"
| "splitSlash (c # s) =
     (if c = CHR ''/'' then [] # splitSlash s
      else case splitSlash s of [] \<Rightarrow> [[c]] | e # es \<Rightarrow> (c # e) # es)"

definition cleanStep :: "bool \<Rightarrow> string list \<Rightarrow> string \<Rightarrow> string list" where
  "cleanStep rooted stack e =
     (if e = [] \<or> e = ''.'' then stack
      else if e = ''..''
      then (case stack of
              [] \<Rightarrow> if rooted then [] else [e]
            | t # ts \<Rightarrow> if t = ''..'' then e # stack else ts)
      else e # stack)"

fun joinSlash :: "string list \<Rightarrow> string" where
  "joinSlash [] = []"
| "joinSlash [e] = e"
| "joinSlash (e # es) = e @ CHR ''/'' # joinSlash es"

definition path_Clean :: "string \<Rightarrow> string" where
  "path_Clean p =
     (if p = [] then ''.''
      else let rooted = (hd p = CHR ''/'');
               out = joinSlash (rev (foldl (cleanStep rooted) [] (splitSlash p)))
           in if rooted then CHR ''/'' # out else if out = [] then ''.'' else out)"

definition path_Join :: "string \<Rightarrow> string \<Rightarrow> string" where
  "path_Join a b =
     (if a = [] \<and> b = [] then []
      else if a = [] then path_Clean b else path_Clean (a @ CHR ''/'' # b))"

record ReadBasicAuthFromDisk =
  rb_secret_mount_path :: string
  rb_user_filename :: string
  rb_password_filename :: string

datatype credentials_error = InvalidSecretMountPath | UnableToLoad string

definition credentials_Read ::
    "(string \<Rightarrow> string option) \<Rightarrow> ReadBasicAuthFromDisk \<Rightarrow> credentials_error + BasicAuthCredentials" where
  "credentials_Read fs r =
     (if length (rb_secret_mount_path r) = 0 then Inl InvalidSecretMountPath
      else
        let userKey = (if 0 < length (rb_user_filename r) then rb_user_filename r else ''basic-auth-user'');
            passwordKey = (if 0 < length (rb_password_filename r) then rb_password_filename r
                           else ''basic-auth-password'');
            userPath = path_Join (rb_secret_mount_path r) userKey
        in case fs userPath of
             None \<Rightarrow> Inl (UnableToLoad userPath)
           | Some user \<Rightarrow>
               (let userPassword = path_Join (rb_secret_mount_path r) passwordKey
                in case fs userPassword of
                     None \<Rightarrow> Inl (UnableToLoad userPassword)
                   | Some password \<Rightarrow>
                       Inr \<lparr>cr_user = TrimSpace user, cr_password = TrimSpace password\<rparr>))"

text \<open>White space, and texts that begin and end with a visible ASCII character.\<close>

definition blank :: "string \<Rightarrow> bool" where
  "blank u \<longleftrightarrow> (\<exists>es. set es \<subseteq> set space_encodings \<and> u = concat es)"

definition visible :: "char \<Rightarrow> bool" where
  "visible c \<longleftrightarrow> (of_char c :: nat) < 128 \<and> c \<notin> hd ` set space_encodings"

definition token :: "string \<Rightarrow> bool" where
  "token s \<longleftrightarrow> s = [] \<or> visible (hd s) \<and> visible (last s)"

text \<open>The first byte of an encoding tells its length, and so do its last two.\<close>

definition encoding_shape :: "string \<Rightarrow> bool" where
  "encoding_shape e \<longleftrightarrow>
     (\<exists>a. e = [a] \<and> (of_char a :: nat) < 128) \<or>
     (\<exists>b. e = [CHR 0xC2, b] \<and> 128 \<le> (of_char b :: nat)) \<or>
     (\<exists>a b c. e = [a, b, c] \<and> 128 \<le> (of_char a :: nat) \<and> a \<noteq> CHR 0xC2 \<and> b \<noteq> CHR 0xC2 \<and>
        128 \<le> (of_char c :: nat))"

lemma encodings_shape: "e \<in> set space_encodings \<Longrightarrow> encoding_shape e"
proof -
  have "list_all encoding_shape space_encodings"
    by (simp add: space_encodings_def encoding_shape_def)
  then show "e \<in> set space_encodings \<Longrightarrow> encoding_shape e" by (simp add: list_all_iff)
qed

lemma encodings_nonempty: "e \<in> set space_encodings \<Longrightarrow> e \<noteq> []"
  by (drule encodings_shape) (auto simp: encoding_shape_def)

lemma shapes_free:
  assumes "encoding_shape e" and "encoding_shape f"
  shows shapes_prefix_free: "prefix e f \<Longrightarrow> e = f" and shapes_suffix_free: "suffix e f \<Longrightarrow> e = f"
proof -
  have l: "length e = length f" if "hd e = hd f"
    using assms that by (auto simp: encoding_shape_def)
  show "e = f" if "prefix e f"
  proof -
    from assms have "e \<noteq> []" by (auto simp: encoding_shape_def)
    with that have "hd e = hd f" by (auto simp: prefix_def)
    with l that show ?thesis by (auto simp: prefix_def)
  qed
  show "e = f" if "suffix e f"
    using assms(2) unfolding encoding_shape_def
  proof (elim disjE exE conjE)
    fix a assume "f = [a]"
    with that assms(1) show ?thesis by (auto simp: encoding_shape_def suffix_Cons)
  next
    fix b assume "f = [CHR 0xC2, b]" "128 \<le> (of_char b :: nat)"
    with that assms(1) show ?thesis by (auto simp: encoding_shape_def suffix_Cons)
  next
    fix a b c assume "f = [a, b, c]" "b \<noteq> CHR 0xC2" "128 \<le> (of_char c :: nat)"
    with that assms(1) show ?thesis by (auto simp: encoding_shape_def suffix_Cons)
  qed
qed

lemmas encodings_free = shapes_free [OF encodings_shape encodings_shape]

lemma visible_not_last: "e \<in> set space_encodings \<Longrightarrow> visible c \<Longrightarrow> last e \<noteq> c"
proof
  assume e: "e \<in> set space_encodings" and c: "visible c" "last e = c"
  then have "hd e \<in> hd ` set space_encodings" by blast
  with c encodings_shape [OF e] show False by (auto simp: encoding_shape_def visible_def)
qed

lemma find_unique:
  assumes "x \<in> set xs" and "P x" and "\<And>y. y \<in> set xs \<Longrightarrow> P y \<Longrightarrow> y = x"
  shows "find P xs = Some x"
  using assms
proof (induction xs)
  case (Cons y ys)
  show ?case
  proof (cases "P y")
    case True
    with Cons.prems(3) [of y] show ?thesis by simp
  next
    case False
    with Cons.prems(1,2) have "x \<in> set ys" by auto
    from Cons.IH [OF this Cons.prems(2)] Cons.prems(3) False show ?thesis by simp
  qed
qed simp

lemma trimLeft_blank: "set es \<subseteq> set space_encodings \<Longrightarrow> trimLeft (concat es @ t) = trimLeft t"
proof (induction es)
  case (Cons e es)
  have "find (\<lambda>f. prefix f (concat (e # es) @ t)) space_encodings = Some e"
  proof (rule find_unique)
    show "f = e" if "f \<in> set space_encodings" "prefix f (concat (e # es) @ t)" for f
      using that Cons.prems encodings_free(1) [of f e] encodings_free(1) [of e f]
        prefix_same_cases [of f "concat (e # es) @ t" e] by auto
  qed (use Cons.prems in auto)
  then show ?case
    using Cons encodings_nonempty [of e] by (subst trimLeft.simps) simp
qed simp

lemma trimRight_blank: "set es \<subseteq> set space_encodings \<Longrightarrow> trimRight (t @ concat es) = trimRight t"
proof (induction es rule: rev_induct)
  case (snoc e es)
  have "find (\<lambda>f. suffix f (t @ concat (es @ [e]))) space_encodings = Some e"
  proof (rule find_unique)
    show "f = e" if "f \<in> set space_encodings" "suffix f (t @ concat (es @ [e]))" for f
      using that snoc.prems encodings_free(2) [of f e] encodings_free(2) [of e f]
        suffix_same_cases [of f "t @ concat (es @ [e])" e] by (auto simp: suffix_def)
  qed (use snoc.prems in \<open>auto simp: suffix_def\<close>)
  then show ?case
    using snoc encodings_nonempty [of e] by (subst trimRight.simps) simp
qed simp

lemma trimLeft_token:
  assumes "token s" and "s \<noteq> []"
  shows "trimLeft (s @ t) = s @ t"
proof -
  have "\<not> prefix e (s @ t)" if "e \<in> set space_encodings" for e
  proof
    assume "prefix e (s @ t)"
    then have "hd e = hd s" using encodings_nonempty [OF that] assms(2) by (auto simp: prefix_def hd_append) (metis hd_append2)
    moreover have "hd e \<in> hd ` set space_encodings" using that by blast
    ultimately show False using assms by (simp add: token_def visible_def)
  qed
  then have "find (\<lambda>e. prefix e (s @ t)) space_encodings = None" by (simp add: find_None_iff)
  then show ?thesis by (subst trimLeft.simps) simp
qed

lemma trimRight_token: "token s \<Longrightarrow> trimRight s = s"
proof -
  assume s: "token s"
  have "\<not> suffix e s" if "e \<in> set space_encodings" for e
    using that s encodings_nonempty [OF that] visible_not_last [OF that, of "last s"]
    by (auto simp: token_def suffix_def)
  then have "find (\<lambda>e. suffix e s) space_encodings = None" by (simp add: find_None_iff)
  then show ?thesis by (subst trimRight.simps) simp
qed

lemma TrimSpace_token:
  assumes "blank u" and "blank v" and "token s"
  shows "TrimSpace (u @ s @ v) = s"
proof -
  obtain us vs where "u = concat us" "v = concat vs" "set us \<subseteq> set space_encodings" "set vs \<subseteq> set space_encodings"
    using assms by (auto simp: blank_def)
  moreover have "find (\<lambda>e. prefix e []) space_encodings = None"
    using encodings_nonempty by (auto simp: find_None_iff)
  then have "trimLeft [] = []" by (subst trimLeft.simps) (simp only: option.case)
  ultimately show ?thesis
    using assms(3) trimLeft_blank [of us "s @ v"] trimLeft_blank [of vs "[]"] trimLeft_token [of s v]
      trimRight_blank [of vs s] trimRight_token [of s] trimRight_token [of "[]"]
    by (cases "s = []") (simp_all add: TrimSpace_def token_def)
qed


lemma blank_newline: "blank newline" "blank []"
proof -
  have "newline \<in> set space_encodings" by (simp add: newline_def space_encodings_def)
  then show "blank newline" by (auto simp: blank_def intro!: exI [of _ "[newline]"])
  show "blank []" by (auto simp: blank_def intro!: exI [of _ "[]"])
qed




text \<open>
  Empty secrets are accepted: with two blank files the credentials are the empty
  strings, and a request with an empty user and an empty password passes.
\<close>

theorem blank_secrets_open:
  assumes "rb_secret_mount_path m \<noteq> []" and "rb_user_filename m = []" and "rb_password_filename m = []"
    and "fs (path_Join (rb_secret_mount_path m) ''basic-auth-user'') = Some a" and "blank a"
    and "fs (path_Join (rb_secret_mount_path m) ''basic-auth-password'') = Some b" and "blank b"
    and "header_Get (rq_header r) ''Authorization'' = ''Basic Og==''"
  shows "\<exists>cr. credentials_Read fs m = Inr cr \<and> DecorateWithBasicAuth ops next cr r w = next r w"
proof -
  have "authorization [] [] = ''Basic Og==''" by (simp add: authorization_def) code_simp
  then have "BasicAuth r = Some ([], [])"
    using assms(8) parse_authorization [of "[]" "[]"] by (simp add: BasicAuth_def)
  moreover have "token []" by (simp add: token_def)
  ultimately show ?thesis
    using assms TrimSpace_token [of a "[]" "[]"] TrimSpace_token [of b "[]" "[]"] blank_newline(2)
    by (auto simp: credentials_Read_def Decorate_cases)
qed

theorem blank_secrets_open_witness:
  "\<exists>cr. credentials_Read (\<lambda>_. Some newline)
      \<lparr>rb_secret_mount_path = ''/run/secrets/'', rb_user_filename = [], rb_password_filename = []\<rparr> = Inr cr \<and>
    DecorateWithBasicAuth server_ops (\<lambda>r w. (Done (), w)) cr
      (plain_request\<lparr>rq_header := [''Authorization'' \<mapsto> [''Basic Og=='']]\<rparr>) newResponse = (Done (), newResponse)"
  using blank_secrets_open [of
      "\<lparr>rb_secret_mount_path = ''/run/secrets/'', rb_user_filename = [], rb_password_filename = []\<rparr>"
      "\<lambda>_. Some newline" newline newline
      "plain_request\<lparr>rq_header := [''Authorization'' \<mapsto> [''Basic Og=='']]\<rparr>"
      server_ops "\<lambda>r w. (Done (), w)" newResponse]
  by (simp add: blank_newline header_Get_def header_Values_def)

end
