(* ===== verification/Rfc3339.thy ===== *)
theory Rfc3339
  imports Strconv "HOL-Library.Monad_Syntax"
begin

text \<open>
  Package time as far as the types of the provider use it: an instant with the offset of its
  location, its date, and the text that \<open>Time.MarshalJSON\<close> writes and \<open>Time.UnmarshalJSON\<close> and
  \<open>time.Parse(time.RFC3339, _)\<close> read. The names of locations are left out: two times that
  differ only in them print the same text.
\<close>

subsection \<open>Dates\<close>

text \<open>Seconds since 1970 began in UTC, nanoseconds, seconds east of UTC.\<close>

record gotime =
  tm_sec :: int
  tm_nsec :: int
  tm_offset :: int

text \<open>The zero value of \<open>time.Time\<close>: the beginning of year 1, UTC.\<close>

definition zero_time :: gotime where
  "zero_time = \<lparr>tm_sec = - 62135596800, tm_nsec = 0, tm_offset = 0\<rparr>"

definition leap :: "int \<Rightarrow> bool" where
  "leap y \<longleftrightarrow> y mod 4 = 0 \<and> (y mod 100 \<noteq> 0 \<or> y mod 400 = 0)"

definition month_lengths :: "int \<Rightarrow> int list" where
  "month_lengths y = [31, if leap y then 29 else 28, 31, 30, 31, 30, 31, 31, 30, 31, 30, 31]"

fun month_day :: "int list \<Rightarrow> int \<Rightarrow> int \<Rightarrow> int \<times> int" where
  "month_day [] m yd = (m, yd + 1)"
| "month_day (l # ls) m yd = (if yd < l then (m, yd + 1) else month_day ls (m + 1) (yd - l))"

text \<open>Days are counted from the first of January of year 1.\<close>

definition days_before :: "int \<Rightarrow> int" where
  "days_before y = 365 * (y - 1) + (y - 1) div 4 - (y - 1) div 100 + (y - 1) div 400"

definition year_day :: "int \<Rightarrow> int \<times> int" where
  "year_day n =
     (let q = n div 146097; d = n mod 146097;
          c = min 3 (d div 36524); d = d - 36524 * c;
          b = d div 1461; d = d mod 1461;
          a = min 3 (d div 365)
      in (400 * q + 100 * c + 4 * b + a + 1, d - 365 * a))"

definition date_of_days :: "int \<Rightarrow> int \<times> int \<times> int" where
  "date_of_days n = (let (y, yd) = year_day n in (y, month_day (month_lengths y) 1 yd))"

definition days_of_date :: "int \<Rightarrow> int \<Rightarrow> int \<Rightarrow> int" where
  "days_of_date y m d = days_before y + sum_list (take (nat (m - 1)) (month_lengths y)) + d - 1"

lemma mod_last:
  fixes k m r y :: int
  assumes "y = k * m + r" and "1 \<le> r" and "r \<le> k"
  shows "y mod k = 0 \<longleftrightarrow> r = k"
proof (cases "r = k")
  case False
  then have "y mod k = r" using assms by (intro int_mod_pos_eq [of _ _ m]) auto
  with False assms show ?thesis by simp
qed (simp add: assms(1))

lemma capped_quotient:
  fixes d k m :: int
  assumes "0 < k" and "0 \<le> d" and "d \<le> k * (m + 1)" and "0 \<le> m"
  defines "c \<equiv> min m (d div k)"
  shows "0 \<le> c" and "c \<le> m" and "0 \<le> d - k * c" and "d - k * c \<le> k" and "c < m \<longrightarrow> d - k * c < k"
proof -
  have d: "d = k * (d div k) + d mod k" "0 \<le> d mod k" "d mod k < k" "0 \<le> d div k"
    using assms(1,2) by (simp_all add: pos_imp_zdiv_nonneg_iff)
  then show "0 \<le> c" "c \<le> m" using assms(4) by (simp_all add: c_def)
  have "0 \<le> d - k * c \<and> d - k * c \<le> k \<and> (c < m \<longrightarrow> d - k * c < k)"
  proof (cases "d div k < m")
    case True
    then have "d - k * c = d mod k" by (simp add: c_def minus_mult_div_eq_mod)
    with d show ?thesis by simp
  next
    case False
    then have c: "c = m" by (simp add: c_def)
    have "k * m \<le> k * (d div k)" using False assms(1) by (intro mult_left_mono) auto
    also have "k * (d div k) \<le> d" using d(1,2) by linarith
    finally show ?thesis using c assms(3) by (simp add: distrib_left)
  qed
  then show "0 \<le> d - k * c" "d - k * c \<le> k" "c < m \<longrightarrow> d - k * c < k" by blast+
qed

lemma days_before_parts:
  assumes "0 \<le> c" "c \<le> 3" "0 \<le> b" "b \<le> 24" "0 \<le> a" "a \<le> (3 :: int)"
  shows "days_before (400 * q + 100 * c + 4 * b + a + 1) = 146097 * q + 36524 * c + 1461 * b + 365 * a"
    and "leap (400 * q + 100 * c + 4 * b + a + 1) \<longleftrightarrow> a = 3 \<and> (b \<noteq> 24 \<or> c = 3)"
proof -
  let ?y = "400 * q + 100 * c + 4 * b + a"
  have "?y div 4 = 100 * q + 25 * c + b" by (rule int_div_pos_eq [where r = a]) (use assms in auto)
  moreover have "?y div 100 = 4 * q + c" by (rule int_div_pos_eq [where r = "4 * b + a"]) (use assms in auto)
  moreover have "?y div 400 = q" by (rule int_div_pos_eq [where r = "100 * c + 4 * b + a"]) (use assms in auto)
  ultimately show "days_before (?y + 1) = 146097 * q + 36524 * c + 1461 * b + 365 * a"
    by (simp add: days_before_def)
  have "(?y + 1) mod 4 = 0 \<longleftrightarrow> a + 1 = 4" by (rule mod_last [where m = "100 * q + 25 * c + b"]) (use assms in auto)
  moreover have "(?y + 1) mod 100 = 0 \<longleftrightarrow> 4 * b + a + 1 = 100"
    by (rule mod_last [where m = "4 * q + c"]) (use assms in auto)
  moreover have "(?y + 1) mod 400 = 0 \<longleftrightarrow> 100 * c + 4 * b + a + 1 = 400"
    by (rule mod_last [where m = q]) (use assms in auto)
  moreover have "a = 3" "b = 24" if "4 * b + a + 1 = 100" using that assms by linarith+
  then have "4 * b + a + 1 = 100 \<longleftrightarrow> a = 3 \<and> b = 24" by auto
  moreover have "a = 3" "b = 24" "c = 3" if "100 * c + 4 * b + a + 1 = 400" using that assms by linarith+
  then have "100 * c + 4 * b + a + 1 = 400 \<longleftrightarrow> a = 3 \<and> b = 24 \<and> c = 3" by auto
  ultimately show "leap (?y + 1) \<longleftrightarrow> a = 3 \<and> (b \<noteq> 24 \<or> c = 3)" by (auto simp: leap_def)
qed

lemma year_day:
  assumes "year_day n = (y, yd)"
  shows "days_before y + yd = n" and "0 \<le> yd" and "yd < (if leap y then 366 else 365)"
proof -
  define q where "q = n div 146097"
  define d where "d = n mod 146097"
  define c where "c = min 3 (d div 36524)"
  define e where "e = d - 36524 * c"
  define b where "b = e div 1461"
  define f where "f = e mod 1461"
  define a where "a = min 3 (f div 365)"
  have "year_day n = (400 * q + 100 * c + 4 * b + a + 1, f - 365 * a)"
    unfolding year_day_def Let_def a_def b_def f_def e_def c_def d_def q_def by (rule refl)
  with assms have y: "y = 400 * q + 100 * c + 4 * b + a + 1" "yd = f - 365 * a" by simp_all
  have n: "n = 146097 * q + d" "0 \<le> d" "d < 146097" by (simp_all add: q_def d_def)
  have "0 < (36524 :: int)" "0 \<le> d" "d \<le> 36524 * (3 + 1)" "0 \<le> (3 :: int)" using n(2,3) by simp_all
  note c = capped_quotient [OF this, folded c_def, folded e_def]
  have b: "e = 1461 * b + f" "0 \<le> f" "f < 1461" by (simp_all add: b_def f_def)
  then have b': "0 \<le> b" "b \<le> 24" using c(3,4) by simp_all
  have "0 < (365 :: int)" "0 \<le> f" "f \<le> 365 * (3 + 1)" "0 \<le> (3 :: int)" using b(2,3) by simp_all
  note a = capped_quotient [OF this, folded a_def]
  note parts = days_before_parts [OF c(1,2) b' a(1,2), of q]
  show "days_before y + yd = n" unfolding y parts(1) using n(1) b(1) by (simp add: e_def)
  show "0 \<le> yd" using a(3) by (simp add: y)
  have "yd < 365" if "\<not> (a = 3 \<and> (b \<noteq> 24 \<or> c = 3))"
  proof (cases "a = 3")
    case True
    with that have "b = 24" "c < 3" using c(2) by auto
    then show ?thesis using True b(1) c(5) by (simp add: y)
  qed (use a y in auto)
  then show "yd < (if leap y then 366 else 365)" unfolding y(1) parts(2) using a(4) y(2) by auto
qed

lemma month_day:
  assumes "month_day ls m0 yd = (m, d)" and "0 \<le> yd" and "yd < sum_list ls" and "\<forall>l \<in> set ls. 0 < l"
  shows "m0 \<le> m \<and> m < m0 + int (length ls) \<and> 1 \<le> d \<and> d \<le> ls ! nat (m - m0) \<and>
    sum_list (take (nat (m - m0)) ls) + d - 1 = yd"
  using assms
proof (induction ls m0 yd rule: month_day.induct)
  case (2 l ls m0 yd)
  show ?case
  proof (cases "yd < l")
    case True
    with 2 show ?thesis by auto
  next
    case False
    with 2 have ih: "m0 + 1 \<le> m \<and> m < m0 + 1 + int (length ls) \<and> 1 \<le> d \<and> d \<le> ls ! nat (m - (m0 + 1)) \<and>
      sum_list (take (nat (m - (m0 + 1))) ls) + d - 1 = yd - l" by simp
    then have "nat (m - m0) = Suc (nat (m - (m0 + 1)))" by linarith
    with ih show ?thesis by simp
  qed
qed simp

lemma date_of_days:
  assumes "date_of_days n = (y, m, d)"
  shows "days_of_date y m d = n" and "1 \<le> m" and "m \<le> 12" and "1 \<le> d" and "d \<le> month_lengths y ! nat (m - 1)"
proof -
  obtain yd where yd: "year_day n = (y, yd)" "month_day (month_lengths y) 1 yd = (m, d)"
    using assms by (auto simp: date_of_days_def split: prod.splits)
  note year = year_day [OF yd(1)]
  have "yd < sum_list (month_lengths y)" "\<forall>l \<in> set (month_lengths y). 0 < l"
    using year(3) by (simp_all add: month_lengths_def split: if_splits)
  from month_day [OF yd(2) year(2) this] year(1)
  show "days_of_date y m d = n" and "1 \<le> m" and "m \<le> 12" and "1 \<le> d" and "d \<le> month_lengths y ! nat (m - 1)"
    by (simp_all add: days_of_date_def month_lengths_def)
qed

subsection \<open>Printing\<close>

text \<open>Decimal digits, a fixed number of them.\<close>

fun pad :: "nat \<Rightarrow> int \<Rightarrow> string" where
  "pad 0 n = []"
| "pad (Suc k) n = pad k (n div 10) @ [char_of (nat (n mod 10) + 48)]"

definition trimZeros :: "string \<Rightarrow> string" where
  "trimZeros s = rev (dropWhile (\<lambda>c. c = CHR ''0'') (rev s))"

definition fraction_text :: "int \<Rightarrow> string" where
  "fraction_text ns = (if ns = 0 then [] else CHR ''.'' # trimZeros (pad 9 ns))"

text \<open>Seconds of the offset are cut off.\<close>

definition zone_text :: "int \<Rightarrow> string" where
  "zone_text offset =
     (if offset = 0 then ''Z''
      else let zone = \<bar>offset\<bar> div 60
           in (if offset < 0 \<and> zone \<noteq> 0 then CHR ''-'' else CHR ''+'') # pad 2 (zone div 60) @ CHR '':'' # pad 2 (zone mod 60))"

text \<open>\<open>MarshalJSON\<close> without the quotes: years of four digits, offsets below 24 hours.\<close>

definition MarshalTime :: "gotime \<Rightarrow> string option" where
  "MarshalTime t =
     (let local = tm_sec t + tm_offset t;
          (y, m, d) = date_of_days (local div 86400 + 719162);
          s = local mod 86400
      in if y < 0 \<or> 9999 < y \<or> 24 \<le> \<bar>tm_offset t\<bar> div 3600 then None
         else Some (pad 4 y @ CHR ''-'' # pad 2 m @ CHR ''-'' # pad 2 d @ CHR ''T'' #
           pad 2 (s div 3600) @ CHR '':'' # pad 2 (s div 60 mod 60) @ CHR '':'' # pad 2 (s mod 60) @
           fraction_text (tm_nsec t) @ zone_text (tm_offset t)))"

subsection \<open>Parsing\<close>

text \<open>
  \<open>time.Parse\<close> with the layout RFC 3339. It takes more than it prints: an hour of one digit, a
  comma before the fraction, and offsets up to 24 hours and 60 minutes. Digits of the fraction
  after the ninth are dropped.
\<close>

definition getnum :: "nat \<Rightarrow> string \<Rightarrow> (int \<times> string) option" where
  "getnum k s =
     (if k \<le> length s \<and> list_all is_digit (take k s) then Some (decimal_value (take k s) 0, drop k s) else None)"

definition getHour :: "string \<Rightarrow> (int \<times> string) option" where
  "getHour s = (case getnum 2 s of None \<Rightarrow> getnum 1 s | Some r \<Rightarrow> Some r)"

definition expect :: "char \<Rightarrow> string \<Rightarrow> string option" where
  "expect c s = (case s of [] \<Rightarrow> None | x # r \<Rightarrow> if x = c then Some r else None)"

definition check :: "bool \<Rightarrow> unit option" where
  "check b = (if b then Some () else None)"

definition getFraction :: "string \<Rightarrow> int \<times> string" where
  "getFraction s =
     (case s of
        c # x # r \<Rightarrow>
          if (c = CHR ''.'' \<or> c = CHR '','') \<and> is_digit x
          then (let ds = take 9 (takeWhile is_digit (x # r))
                in (decimal_value ds 0 * 10 ^ (9 - length ds), dropWhile is_digit (x # r)))
          else (0, s)
      | _ \<Rightarrow> (0, s))"

definition getZone :: "string \<Rightarrow> (int \<times> string) option" where
  "getZone s =
     (case s of
        [] \<Rightarrow> None
      | c # r \<Rightarrow>
          if c = CHR ''Z'' then Some (0, r)
          else do {
            (hr, r) \<leftarrow> getnum 2 r;
            r \<leftarrow> expect (CHR '':'') r;
            (mm, r) \<leftarrow> getnum 2 r;
            check (hr \<le> 24 \<and> mm \<le> 60 \<and> (c = CHR ''+'' \<or> c = CHR ''-''));
            Some ((if c = CHR ''+'' then 1 else - 1) * (hr * 60 + mm) * 60, r)
          })"

definition time_Parse :: "string \<Rightarrow> gotime option" where
  "time_Parse s = do {
     (y, s) \<leftarrow> getnum 4 s;
     s \<leftarrow> expect (CHR ''-'') s;
     (m, s) \<leftarrow> getnum 2 s;
     check (1 \<le> m \<and> m \<le> 12);
     s \<leftarrow> expect (CHR ''-'') s;
     (d, s) \<leftarrow> getnum 2 s;
     s \<leftarrow> expect (CHR ''T'') s;
     (hour, s) \<leftarrow> getHour s;
     check (hour < 24);
     s \<leftarrow> expect (CHR '':'') s;
     (min, s) \<leftarrow> getnum 2 s;
     check (min < 60);
     s \<leftarrow> expect (CHR '':'') s;
     (sec, s) \<leftarrow> getnum 2 s;
     check (sec < 60);
     (ns, s) \<leftarrow> Some (getFraction s);
     (offset, s) \<leftarrow> getZone s;
     check (s = [] \<and> 1 \<le> d \<and> d \<le> month_lengths y ! nat (m - 1));
     Some \<lparr>tm_sec = (days_of_date y m d - 719162) * 86400 + hour * 3600 + min * 60 + sec - offset,
       tm_nsec = ns, tm_offset = offset\<rparr>
   }"

subsection \<open>What is printed is read back\<close>

lemma pad_digits: "list_all is_digit (pad k n) \<and> length (pad k n) = k"
  by (induction k n rule: pad.induct) (simp_all add: digit_char)

lemma pad_value: "0 \<le> n \<Longrightarrow> n < 10 ^ k \<Longrightarrow> decimal_value (pad k n) 0 = n"
proof (induction k n rule: pad.induct)
  case (2 k n)
  have "n div 10 < 10 ^ k" using 2 by (simp add: div_less_iff_less_mult mult.commute)
  then have "decimal_value (pad k (n div 10)) 0 = n div 10" using 2 by simp
  moreover have "digit (char_of (nat (n mod 10) + 48)) = n mod 10" using digit_char [of "nat (n mod 10)"] by simp
  ultimately show ?case by (simp add: decimal_value_def)
qed (simp add: decimal_value_def)

lemma getnum_pad: "0 \<le> n \<Longrightarrow> n < 10 ^ k \<Longrightarrow> getnum k (pad k n @ r) = Some (n, r)"
  using pad_digits [of k n] by (simp add: getnum_def pad_value)

lemma trimZeros: "\<exists>j. s = trimZeros s @ replicate j (CHR ''0'')"
proof -
  have "rev s = takeWhile (\<lambda>c. c = CHR ''0'') (rev s) @ dropWhile (\<lambda>c. c = CHR ''0'') (rev s)" by simp
  moreover have "takeWhile (\<lambda>c. c = CHR ''0'') (rev s) = replicate (length (takeWhile (\<lambda>c. c = CHR ''0'') (rev s))) (CHR ''0'')"
    by (rule replicate_eqI) (auto dest: set_takeWhileD)
  ultimately have "s = trimZeros s @ rev (replicate (length (takeWhile (\<lambda>c. c = CHR ''0'') (rev s))) (CHR ''0''))"
    unfolding trimZeros_def by (metis rev_append rev_rev_ident)
  then show ?thesis by (metis rev_replicate)
qed

lemma decimal_value_append_zeros: "decimal_value (s @ replicate j (CHR ''0'')) n = decimal_value s n * 10 ^ j"
proof (induction j)
  case (Suc j)
  have "decimal_value (s @ replicate (Suc j) (CHR ''0'')) n = decimal_value (s @ replicate j (CHR ''0'')) n * 10"
    unfolding replicate_append_same [symmetric] append_assoc [symmetric] replicate_Suc
    by (simp add: decimal_value_def digit_def)
  with Suc show ?case by simp
qed simp

lemma fraction_read:
  assumes "0 \<le> ns" and "ns < 10 ^ 9" and "r = c # r'" and "\<not> is_digit c" and "c \<noteq> CHR ''.''" and "c \<noteq> CHR '',''"
  shows "getFraction (fraction_text ns @ r) = (ns, r)"
proof (cases "ns = 0")
  case True
  then show ?thesis using assms(3,5,6) by (auto simp: fraction_text_def getFraction_def split: list.split)
next
  case False
  let ?t = "trimZeros (pad 9 ns)"
  obtain j where j: "pad 9 ns = ?t @ replicate j (CHR ''0'')" using trimZeros by blast
  have len: "length ?t + j = 9" using arg_cong [OF j, of length] pad_digits [of 9 ns] by simp
  have v: "decimal_value ?t 0 * 10 ^ j = ns"
    using decimal_value_append_zeros [of ?t j 0] pad_value [OF assms(1,2)] by (simp only: j [symmetric])
  have d: "list_all is_digit ?t" using pad_digits [of 9 ns] by (subst (asm) j) simp
  have "?t \<noteq> []" using v False by (auto simp: decimal_value_def)
  then obtain x t' where t: "?t = x # t'" by (cases ?t) auto
  have tw: "takeWhile is_digit (?t @ r) = ?t" "dropWhile is_digit (?t @ r) = r"
    using d assms(3,4) by (auto simp: list_all_iff takeWhile_append)
  have "take 9 ?t = ?t" "9 - length ?t = j" using len by simp_all
  with v tw d False show ?thesis by (simp add: fraction_text_def getFraction_def t Let_def)
qed

lemma zone_read:
  assumes "60 dvd offset" and "\<bar>offset\<bar> div 3600 < 24"
  shows "getZone (zone_text offset) = Some (offset, [])"
proof (cases "offset = 0")
  case True
  then show ?thesis by (simp add: zone_text_def getZone_def)
next
  case False
  define z where "z = \<bar>offset\<bar> div 60"
  define h where "h = z div 60"
  define mm where "mm = z mod 60"
  have z: "\<bar>offset\<bar> = 60 * z" "z \<noteq> 0" using assms(1) False by (auto simp: z_def)
  have h: "0 \<le> h" "h < 24" and mm: "0 \<le> mm" "mm < 60"
    using assms(2) by (simp_all add: h_def mm_def z_def zdiv_zmult2_eq [symmetric] pos_imp_zdiv_nonneg_iff)
  have whole: "h * 60 + mm = z" unfolding h_def mm_def by (rule div_mult_mod_eq)
  have getnums: "getnum 2 (pad 2 h @ r) = Some (h, r)" "getnum 2 (pad 2 mm) = Some (mm, [])" for r
    using getnum_pad [of h 2 r] getnum_pad [of mm 2 "[]"] h mm by simp_all
  have ztext: "zone_text offset = (if offset < 0 then CHR ''-'' else CHR ''+'') # pad 2 h @ CHR '':'' # pad 2 mm"
    using False z(2) by (simp add: zone_text_def Let_def h_def mm_def z_def del: pad.simps)
  have "offset = (if offset < 0 then - 1 else 1) * (h * 60 + mm) * 60" using z(1) unfolding whole by auto
  then show ?thesis
    unfolding ztext using h mm getnums
    by (cases "offset < 0") (simp_all add: getZone_def expect_def check_def del: pad.simps)
qed

lemma fixed_fields:
  "0 \<le> n \<Longrightarrow> n \<le> 9999 \<Longrightarrow> getnum 4 (pad 4 n @ r) = Some (n, r)"
  "0 \<le> n \<Longrightarrow> n < 100 \<Longrightarrow> getnum 2 (pad 2 n @ r) = Some (n, r)"
  "0 \<le> n \<Longrightarrow> n < 100 \<Longrightarrow> getHour (pad 2 n @ r) = Some (n, r)"
  "expect c (c # r) = Some r" "check True = Some ()"
  using getnum_pad [of n 4 r] getnum_pad [of n 2 r] by (simp_all add: getHour_def expect_def check_def)

lemma time_roundtrip:
  assumes "MarshalTime t = Some s" and "0 \<le> tm_nsec t" and "tm_nsec t < 10 ^ 9" and "60 dvd tm_offset t"
  shows "time_Parse s = Some t"
proof -
  define local where "local = tm_sec t + tm_offset t"
  define days where "days = local div 86400"
  define sod where "sod = local mod 86400"
  define hr where "hr = sod div 3600"
  define mi where "mi = sod div 60 mod 60"
  define se where "se = sod mod 60"
  obtain y m d where date: "date_of_days (days + 719162) = (y, m, d)" by (metis prod_cases3)
  have ok: "0 \<le> y" "y \<le> 9999" "\<bar>tm_offset t\<bar> div 3600 < 24"
    and s: "s = pad 4 y @ CHR ''-'' # pad 2 m @ CHR ''-'' # pad 2 d @ CHR ''T'' #
      pad 2 hr @ CHR '':'' # pad 2 mi @ CHR '':'' # pad 2 se @ fraction_text (tm_nsec t) @ zone_text (tm_offset t)"
    using assms(1) date unfolding MarshalTime_def Let_def local_def [symmetric] sod_def [symmetric] days_def [symmetric]
      hr_def [symmetric] mi_def [symmetric] se_def [symmetric]
    by (auto split: if_splits simp del: pad.simps)
  note dt = date_of_days [OF date]
  have "month_lengths y ! nat (m - 1) \<le> 31"
    using dt(2,3) by (auto simp: month_lengths_def nth_Cons' split: if_splits)
  then have d: "0 \<le> d" "d < 100" using dt(4,5) by linarith+
  have sod: "0 \<le> sod" "sod < 86400" by (simp_all add: sod_def)
  then have h: "0 \<le> hr" "hr < 24" by (simp_all add: hr_def pos_imp_zdiv_nonneg_iff div_less_iff_less_mult)
  have sixty: "0 \<le> mi" "mi < 60" "0 \<le> se" "se < 60" by (simp_all add: mi_def se_def)
  have "hr = sod div 60 div 60" by (simp add: hr_def zdiv_zmult2_eq [symmetric])
  then have "hr * 60 + mi = sod div 60" using div_mult_mod_eq [of "sod div 60" 60] by (simp only: mi_def)
  moreover have "sod div 60 * 60 + se = sod" unfolding se_def by (rule div_mult_mod_eq)
  ultimately have clock: "hr * 3600 + mi * 60 + se = sod" by linarith
  have "\<exists>c r'. zone_text (tm_offset t) = c # r' \<and> \<not> is_digit c \<and> c \<noteq> CHR ''.'' \<and> c \<noteq> CHR '',''"
    by (simp add: zone_text_def Let_def is_digit_def)
  then obtain c r' where "zone_text (tm_offset t) = c # r'" "\<not> is_digit c" "c \<noteq> CHR ''.''" "c \<noteq> CHR '',''" by blast
  note frac = fraction_read [OF assms(2,3) this]
  have "days * 86400 + sod = local" unfolding days_def sod_def by (rule div_mult_mod_eq)
  then have sec: "days * 86400 + hr * 3600 + mi * 60 + se - tm_offset t = tm_sec t"
    using clock by (simp add: local_def)
  have "time_Parse s = Some \<lparr>tm_sec = (days_of_date y m d - 719162) * 86400 + hr * 3600 + mi * 60 + se - tm_offset t,
      tm_nsec = tm_nsec t, tm_offset = tm_offset t\<rparr>"
    unfolding s time_Parse_def using ok dt(2-5) d h sixty
    by (simp add: fixed_fields frac zone_read [OF assms(4) ok(3)] del: pad.simps)
  then show ?thesis using sec by (simp add: dt(1))
qed

text \<open>Times that were parsed have nanoseconds in range and whole minutes of offset.\<close>

definition time_wf :: "gotime \<Rightarrow> bool" where
  "time_wf t \<longleftrightarrow> 0 \<le> tm_nsec t \<and> tm_nsec t < 10 ^ 9 \<and> 60 dvd tm_offset t"

lemma getFraction_range:
  assumes "getFraction s = (ns, r)"
  shows "0 \<le> ns \<and> ns < 10 ^ 9"
proof -
  have bound: "0 \<le> decimal_value ds 0 \<and> decimal_value ds 0 < 10 ^ length ds" if "list_all is_digit ds" for ds
    using that
  proof (induction ds rule: rev_induct)
    case (snoc c ds)
    have "decimal_value (ds @ [c]) 0 = decimal_value ds 0 * 10 + digit c" by (simp add: decimal_value_def)
    with snoc digit_range [of c] show ?case by simp
  qed (simp add: decimal_value_def)
  have "0 \<le> decimal_value ds 0 * 10 ^ (9 - length ds) \<and> decimal_value ds 0 * 10 ^ (9 - length ds) < 10 ^ 9"
    if "list_all is_digit ds" "length ds \<le> 9" for ds
  proof -
    have "decimal_value ds 0 * 10 ^ (9 - length ds) < 10 ^ length ds * 10 ^ (9 - length ds)"
      using bound [OF that(1)] by simp
    also have "\<dots> = (10 :: int) ^ 9" using that(2) by (simp add: power_add [symmetric])
    finally show ?thesis using bound [OF that(1)] by simp
  qed
  note range = this
  have "list_all is_digit (take 9 (takeWhile is_digit u)) \<and> length (take 9 (takeWhile is_digit u)) \<le> 9" for u
    by (auto simp: list_all_iff dest: set_takeWhileD in_set_takeD)
  moreover have "ns = 0 \<or> (\<exists>u. ns = decimal_value (take 9 (takeWhile is_digit u)) 0 *
      10 ^ (9 - length (take 9 (takeWhile is_digit u))))"
    using assms unfolding getFraction_def Let_def by (simp del: takeWhile.simps split: list.splits if_splits) blast+
  ultimately show ?thesis using range by fastforce
qed

lemma getZone_minutes: "getZone s = Some (offset, r) \<Longrightarrow> 60 dvd offset"
  by (auto simp: getZone_def bind_eq_Some_conv split: list.splits if_splits prod.splits)

lemma time_Parse_wf: "time_Parse s = Some t \<Longrightarrow> time_wf t"
  using getFraction_range [OF prod.collapse [symmetric]]
  by (auto simp: time_Parse_def time_wf_def bind_eq_Some_conv split_beta dest: getZone_minutes)

lemma example_times: "MarshalTime zero_time = Some ''0001-01-01T00:00:00Z''" "MarshalTime (zero_time\<lparr>tm_offset := 86400\<rparr>) = None"
  by code_simp+

end
