(* ===== verification/Codec.thy ===== *)
theory Codec
  imports Json Rfc3339
begin

text \<open>
  encoding/json for Go types: how values of the types that occur in the fields of structs are
  marshalled and unmarshalled, and how \<open>Unmarshal\<close> finds the field of an object's key. A struct
  is given by the list of its fields with their tags.

  The locale \<open>json_codec\<close> is the contract between a type and the structs that use it: what is
  encoded is decoded to a known value, and what is decoded is well-formed. It is closed under
  slices, maps, pointers and structs.
\<close>

subsection \<open>Unmarshal\<close>

text \<open>
  A decoder takes the parsed text and the value it decodes into, which \<open>null\<close> and missing keys
  leave as it is. Go reports the first mismatch of types after it has decoded the rest; what it
  leaves behind then is not represented: \<open>None\<close>.
\<close>

definition json_Unmarshal :: "(json_tree \<Rightarrow> 'a \<Rightarrow> 'a option) \<Rightarrow> string \<Rightarrow> 'a \<Rightarrow> 'a option" where
  "json_Unmarshal de s v =
     (case json_value maxNestingDepth s of
        None \<Rightarrow> None
      | Some (t, r) \<Rightarrow> if skipSpace r = [] then de t v else None)"

fun fold_opt :: "('b \<Rightarrow> 'a \<Rightarrow> 'a option) \<Rightarrow> 'b list \<Rightarrow> 'a \<Rightarrow> 'a option" where
  "fold_opt f [] a = Some a"
| "fold_opt f (b # bs) a = (case f b a of None \<Rightarrow> None | Some a \<Rightarrow> fold_opt f bs a)"

definition dec_string :: "json_tree \<Rightarrow> string \<Rightarrow> string option" where
  "dec_string t old = (case t of TNull \<Rightarrow> Some old | TStr s \<Rightarrow> Some s | _ \<Rightarrow> None)"

definition dec_bool :: "json_tree \<Rightarrow> bool \<Rightarrow> bool option" where
  "dec_bool t old = (case t of TNull \<Rightarrow> Some old | TBool b \<Rightarrow> Some b | _ \<Rightarrow> None)"

definition dec_uint64 :: "json_tree \<Rightarrow> int \<Rightarrow> int option" where
  "dec_uint64 t old =
     (case t of TNull \<Rightarrow> Some old
      | TNum s \<Rightarrow> (case ParseUint s of Inr n \<Rightarrow> Some n | Inl e \<Rightarrow> None)
      | _ \<Rightarrow> None)"

definition dec_int64 :: "json_tree \<Rightarrow> int \<Rightarrow> int option" where
  "dec_int64 t old =
     (case t of TNull \<Rightarrow> Some old
      | TNum s \<Rightarrow> (case ParseInt s of (n, None) \<Rightarrow> Some n | _ \<Rightarrow> None)
      | _ \<Rightarrow> None)"

definition dec_float64 :: "json_tree \<Rightarrow> float64 \<Rightarrow> float64 option" where
  "dec_float64 t old =
     (case t of TNull \<Rightarrow> Some old
      | TNum s \<Rightarrow> if is_finite (number_value s) then Some (number_value s) else None
      | _ \<Rightarrow> None)"

text \<open>Slices, maps and pointers; \<open>None\<close> is nil. A slice is decoded over its old elements.\<close>

definition enc_slice :: "('a \<Rightarrow> json) \<Rightarrow> 'a list option \<Rightarrow> json" where
  "enc_slice enc v = (case v of None \<Rightarrow> JNull | Some vs \<Rightarrow> JArr (map enc vs))"

fun dec_elems :: "(json_tree \<Rightarrow> 'a \<Rightarrow> 'a option) \<Rightarrow> 'a \<Rightarrow> json_tree list \<Rightarrow> 'a list \<Rightarrow> 'a list option" where
  "dec_elems de z [] old = Some []"
| "dec_elems de z (t # ts) old =
     (case de t (case old of [] \<Rightarrow> z | v # _ \<Rightarrow> v) of
        None \<Rightarrow> None
      | Some v \<Rightarrow> map_option (\<lambda>vs. v # vs) (dec_elems de z ts (drop 1 old)))"

definition dec_slice ::
    "(json_tree \<Rightarrow> 'a \<Rightarrow> 'a option) \<Rightarrow> 'a \<Rightarrow> json_tree \<Rightarrow> 'a list option \<Rightarrow> 'a list option option" where
  "dec_slice de z t old =
     (case t of TNull \<Rightarrow> Some None
      | TArr ts \<Rightarrow> map_option Some (dec_elems de z ts (case old of None \<Rightarrow> [] | Some vs \<Rightarrow> vs))
      | _ \<Rightarrow> None)"

definition enc_map :: "('a \<Rightarrow> json) \<Rightarrow> (string, 'a) gomap option \<Rightarrow> json" where
  "enc_map enc m = (case m of None \<Rightarrow> JNull | Some es \<Rightarrow> JObj (map (\<lambda>e. (fst e, enc (snd e))) es))"

definition dec_map ::
    "(json_tree \<Rightarrow> 'a \<Rightarrow> 'a option) \<Rightarrow> 'a \<Rightarrow> json_tree \<Rightarrow> (string, 'a) gomap option \<Rightarrow> (string, 'a) gomap option option" where
  "dec_map de z t old =
     (case t of TNull \<Rightarrow> Some None
      | TObj kts \<Rightarrow> map_option Some
          (fold_opt (\<lambda>(k, t) m. map_option (\<lambda>v. AList.update k v m) (de t z)) kts
            (case old of None \<Rightarrow> [] | Some m \<Rightarrow> m))
      | _ \<Rightarrow> None)"

definition enc_ptr :: "('a \<Rightarrow> json) \<Rightarrow> 'a option \<Rightarrow> json" where
  "enc_ptr enc p = (case p of None \<Rightarrow> JNull | Some v \<Rightarrow> enc v)"

definition dec_ptr :: "(json_tree \<Rightarrow> 'a \<Rightarrow> 'a option) \<Rightarrow> 'a \<Rightarrow> json_tree \<Rightarrow> 'a option \<Rightarrow> 'a option option" where
  "dec_ptr de z t old =
     (if t = TNull then Some None else map_option Some (de t (case old of None \<Rightarrow> z | Some v \<Rightarrow> v)))"

text \<open>Bytes are base64 text; an array of numbers is taken too.\<close>

definition enc_bytes :: "string option \<Rightarrow> json" where
  "enc_bytes v = (case v of None \<Rightarrow> JNull | Some s \<Rightarrow> JStr (b64_encode s))"

definition dec_byte :: "json_tree \<Rightarrow> char \<Rightarrow> char option" where
  "dec_byte t old =
     (case t of TNull \<Rightarrow> Some old
      | TNum s \<Rightarrow> (case ParseUint s of Inr n \<Rightarrow> if n < 256 then Some (char_of (nat n)) else None | Inl e \<Rightarrow> None)
      | _ \<Rightarrow> None)"

definition dec_bytes :: "json_tree \<Rightarrow> string option \<Rightarrow> string option option" where
  "dec_bytes t old =
     (case t of TStr s \<Rightarrow> map_option Some (b64_decode s) | _ \<Rightarrow> dec_slice dec_byte (CHR 0x00) t old)"

text \<open>
  Times implement their own text. One that has no text makes \<open>Marshal\<close> fail; it is given a
  number that is not finite, which does the same. (A time whose text is spelled with JSON escapes
  is rejected by Go; the tree does not keep the spelling.)
\<close>

definition enc_time :: "gotime \<Rightarrow> json" where
  "enc_time t = (case MarshalTime t of None \<Rightarrow> JNum NaN | Some s \<Rightarrow> JStr s)"

definition dec_time :: "json_tree \<Rightarrow> gotime \<Rightarrow> gotime option" where
  "dec_time t old = (case t of TNull \<Rightarrow> Some old | TStr s \<Rightarrow> time_Parse s | _ \<Rightarrow> None)"

subsection \<open>Structs\<close>

text \<open>
  A field has the name and the \<open>omitempty\<close> option of its tag. Keys are matched exactly or, if no
  field is, without case; the simple folding of Unicode makes the long s and the Kelvin sign
  match ASCII letters.
\<close>

record 's field =
  fd_name :: string
  fd_omit :: "'s \<Rightarrow> bool"
  fd_enc :: "'s \<Rightarrow> json"
  fd_dec :: "json_tree \<Rightarrow> 's \<Rightarrow> 's option"

definition field ::
    "string \<Rightarrow> ('a \<Rightarrow> bool) \<Rightarrow> ('a \<Rightarrow> json) \<Rightarrow> (json_tree \<Rightarrow> 'a \<Rightarrow> 'a option) \<Rightarrow> ('s \<Rightarrow> 'a) \<Rightarrow>
     (('a \<Rightarrow> 'a) \<Rightarrow> 's \<Rightarrow> 's) \<Rightarrow> 's field" where
  "field name omit enc de get upd =
     \<lparr>fd_name = name, fd_omit = (\<lambda>s. omit (get s)), fd_enc = (\<lambda>s. enc (get s)),
      fd_dec = (\<lambda>t s. map_option (\<lambda>v. upd (\<lambda>_. v) s) (de t (get s)))\<rparr>"

lemma field_sel [simp]:
  "fd_name (field name omit enc de get upd) = name" "fd_omit (field name omit enc de get upd) s = omit (get s)"
  "fd_enc (field name omit enc de get upd) s = enc (get s)"
  by (simp_all add: field_def)

text \<open>When \<open>omitempty\<close> leaves a field out.\<close>

definition always :: "'a \<Rightarrow> bool" where "always v \<longleftrightarrow> False"
definition empty_string :: "string \<Rightarrow> bool" where "empty_string s \<longleftrightarrow> s = []"
definition empty_list :: "'a list option \<Rightarrow> bool" where "empty_list v \<longleftrightarrow> v = None \<or> v = Some []"
definition is_nil :: "'a option \<Rightarrow> bool" where "is_nil p \<longleftrightarrow> p = None"

fun fold_name :: "string \<Rightarrow> string" where
  "fold_name [] = []"
| "fold_name [c] = [to_lower c]"
| "fold_name [c, d] = (if c = CHR 0xC5 \<and> d = CHR 0xBF then ''s'' else [to_lower c, to_lower d])"
| "fold_name (c # d # e # s) =
     (if c = CHR 0xC5 \<and> d = CHR 0xBF then CHR ''s'' # fold_name (e # s)
      else if c = CHR 0xE2 \<and> d = CHR 0x84 \<and> e = CHR 0xAA then CHR ''k'' # fold_name s
      else to_lower c # fold_name (d # e # s))"

definition find_field :: "'s field list \<Rightarrow> string \<Rightarrow> 's field option" where
  "find_field fs k =
     (case find (\<lambda>f. fd_name f = k) fs of
        Some f \<Rightarrow> Some f
      | None \<Rightarrow> find (\<lambda>f. fold_name (fd_name f) = fold_name k) fs)"

definition enc_struct :: "'s field list \<Rightarrow> 's \<Rightarrow> json" where
  "enc_struct fs s = JStruct (map (\<lambda>f. (fd_name f, fd_enc f s)) (filter (\<lambda>f. \<not> fd_omit f s) fs))"

definition dec_member :: "'s field list \<Rightarrow> string \<times> json_tree \<Rightarrow> 's \<Rightarrow> 's option" where
  "dec_member fs kt s = (case find_field fs (fst kt) of None \<Rightarrow> Some s | Some f \<Rightarrow> fd_dec f (snd kt) s)"

definition dec_struct :: "'s field list \<Rightarrow> json_tree \<Rightarrow> 's \<Rightarrow> 's option" where
  "dec_struct fs t s =
     (case t of TNull \<Rightarrow> Some s | TObj kts \<Rightarrow> fold_opt (dec_member fs) kts s | _ \<Rightarrow> None)"

subsection \<open>The contract of a type\<close>

text \<open>
  \<open>ok\<close>: the values with a text; \<open>typed\<close>: the values the decoder yields; \<open>canon v old\<close>: what the
  text of \<open>v\<close> is decoded to over \<open>old\<close>; \<open>depth\<close>: a bound on the nesting.
\<close>

locale json_codec =
  fixes enc :: "'a \<Rightarrow> json" and de :: "json_tree \<Rightarrow> 'a \<Rightarrow> 'a option" and ok :: "'a \<Rightarrow> bool"
    and typed :: "'a \<Rightarrow> bool" and canon :: "'a \<Rightarrow> 'a \<Rightarrow> 'a" and depth :: nat
  assumes enc_ok: "ok v \<Longrightarrow> json_ok (enc v)"
    and enc_depth: "ok v \<Longrightarrow> json_depth (enc v) \<le> depth"
    and dec_enc: "ok v \<Longrightarrow> de (json_tree_of (enc v)) old = Some (canon v old)"
    and dec_typed: "tree_utf8 t \<Longrightarrow> typed old \<Longrightarrow> de t old = Some v \<Longrightarrow> typed v"
begin

lemma Marshal: "ok v \<Longrightarrow> json_Marshal (enc v) = Some (json_print (enc v))"
  using ok_finite [OF enc_ok] by (simp add: json_Marshal_def)

lemma roundtrip:
  assumes "ok v" and "depth \<le> maxNestingDepth"
  shows "\<exists>s. json_Marshal (enc v) = Some s \<and> json_Unmarshal de s old = Some (canon v old)"
proof -
  have "json_depth (enc v) \<le> maxNestingDepth" using enc_depth [OF assms(1)] assms(2) by simp
  then have "json_value maxNestingDepth (json_print (enc v)) = Some (json_tree_of (enc v), [])"
    using json_reads_back [OF enc_ok [OF assms(1)]] reads_back_whole by blast
  then show ?thesis
    using Marshal [OF assms(1)] dec_enc [OF assms(1)] by (simp add: json_Unmarshal_def skipSpace_def)
qed

lemma Unmarshal_typed: "json_Unmarshal de s old = Some v \<Longrightarrow> typed old \<Longrightarrow> typed v"
  using json_value_clean(1) dec_typed by (fastforce simp: json_Unmarshal_def split: option.splits if_splits)

end

subsection \<open>Values without parts\<close>

interpretation bool_codec: json_codec JBool dec_bool "\<lambda>_. True" "\<lambda>_. True" "\<lambda>v old. v" 0
  by unfold_locales (auto simp: dec_bool_def)

definition uint64 :: "int \<Rightarrow> bool" where
  "uint64 n \<longleftrightarrow> 0 \<le> n \<and> n < 2 ^ 64"

lemma parseUintLoop_range: "parseUintLoop s n = Inr m \<Longrightarrow> 0 \<le> n \<Longrightarrow> n \<le> max_uint64 \<Longrightarrow> 0 \<le> m \<and> m \<le> max_uint64"
proof (induction s n rule: parseUintLoop.induct)
  case (2 c s n)
  then show ?case using digit_range [of c] by (auto split: if_splits)
qed simp

lemma ParseUint_range: "ParseUint s = Inr n \<Longrightarrow> uint64 n"
  using parseUintLoop_range [of s 0 n] by (auto simp: ParseUint_def uint64_def max_uint64_def split: if_splits)

lemma ParseUint_Format: "uint64 n \<Longrightarrow> ParseUint (FormatInt n) = Inr n"
  using parseUintLoop_value [of "digits n" 0] digits_facts [of n]
  by (simp add: FormatInt_def ParseUint_def uint64_def max_uint64_def)

interpretation uint64_codec: json_codec JInt dec_uint64 uint64 uint64 "\<lambda>v old. v" 0
proof unfold_locales
  show "dec_uint64 (json_tree_of (JInt v)) old = Some v" if "uint64 v" for v old
    using ParseUint_Format [OF that] by (simp add: dec_uint64_def)
  show "uint64 v" if "uint64 old" "dec_uint64 t old = Some v" for t old v
    using that ParseUint_range by (auto simp: dec_uint64_def split: json_tree.splits sum.splits)
qed (auto simp: uint64_def)

lemma ParseInt_Format:
  assumes "in_int64 n"
  shows "ParseInt (FormatInt n) = (n, None)"
proof -
  have "uint64 \<bar>n\<bar>" using assms by (auto simp: in_int64_def uint64_def)
  then have u: "ParseUint (digits \<bar>n\<bar>) = Inr \<bar>n\<bar>" using ParseUint_Format [of "\<bar>n\<bar>"] by (simp add: FormatInt_def)
  show ?thesis
  proof (cases "n < 0")
    case True
    then show ?thesis using u assms by (simp add: FormatInt_def ParseInt_def in_int64_def splitSign_def)
  next
    case False
    then have "splitSign (digits n) = (False, digits n)" "digits n \<noteq> []"
      using splitSign_digits digits_facts [of n] by simp_all
    then show ?thesis using u assms False by (simp add: FormatInt_def ParseInt_def in_int64_def)
  qed
qed

interpretation int64_codec: json_codec JInt dec_int64 in_int64 in_int64 "\<lambda>v old. v" 0
proof unfold_locales
  show "dec_int64 (json_tree_of (JInt v)) old = Some v" if "in_int64 v" for v old
    using ParseInt_Format [OF that] by (simp add: dec_int64_def)
  show "in_int64 v" if "in_int64 old" "dec_int64 t old = Some v" for t old v
    using that ParseInt_range by (auto simp: dec_int64_def split: json_tree.splits prod.splits option.splits) (metis fst_conv)
qed (auto simp: in_int64_def)

definition json_float :: "float64 \<Rightarrow> bool" where
  "json_float x \<longleftrightarrow> json_ok (JNum x)"

interpretation float64_codec: json_codec JNum dec_float64 json_float json_float "\<lambda>v old. v" 0
proof unfold_locales
  show "dec_float64 (json_tree_of (JNum v)) old = Some v" if "json_float v" for v old
    using that number_value_Format [of v] ok_finite [of "JNum v"] by (simp add: dec_float64_def json_float_def)
  show "json_float v" if "json_float old" "dec_float64 t old = Some v" for t old v
    using that exact64_number by (auto simp: dec_float64_def json_float_def split: json_tree.splits if_splits float64.splits)
qed (auto simp: json_float_def)

lemma time_text_utf8:
  assumes "MarshalTime t = Some s"
  shows "valid_utf8 s"
proof (rule ascii_utf8)
  have digit: "(of_char c :: nat) < 128" if "is_digit c" for c
  proof -
    have "(of_char c :: int) = int (of_char c)" by (simp only: of_nat_of_char)
    with that show ?thesis by (simp add: is_digit_def)
  qed
  have "set (trimZeros u) \<subseteq> set u" for u by (auto simp: trimZeros_def dest: set_dropWhileD)
  then have trim: "\<forall>c \<in> set (trimZeros (pad k n)). (of_char c :: nat) < 128" for k n
    using pad_digits [of k n] digit by (auto simp: list_all_iff)
  have pad: "\<forall>c \<in> set (pad k n). (of_char c :: nat) < 128" for k n
    using pad_digits [of k n] digit by (auto simp: list_all_iff)
  have frac: "\<forall>c \<in> set (fraction_text n). (of_char c :: nat) < 128" for n
    using trim by (simp add: fraction_text_def)
  have zone: "\<forall>c \<in> set (zone_text n). (of_char c :: nat) < 128" for n
    using pad by (simp add: zone_text_def Let_def ball_Un del: pad.simps)
  obtain y m d where "date_of_days ((tm_sec t + tm_offset t) div 86400 + 719162) = (y, m, d)" by (metis prod_cases3)
  with assms have "\<exists>a b c. s = pad 4 y @ CHR ''-'' # pad 2 m @ CHR ''-'' # pad 2 d @ CHR ''T'' # pad 2 a @ CHR '':'' #
      pad 2 b @ CHR '':'' # pad 2 c @ fraction_text (tm_nsec t) @ zone_text (tm_offset t)"
    unfolding MarshalTime_def by (simp add: Let_def del: pad.simps split: if_splits) blast
  then show "\<forall>c \<in> set s. (of_char c :: nat) < 128"
    using pad frac zone by (auto simp: ball_Un simp del: pad.simps)
qed

definition time_ok :: "gotime \<Rightarrow> bool" where
  "time_ok t \<longleftrightarrow> time_wf t \<and> MarshalTime t \<noteq> None"

interpretation time_codec: json_codec enc_time dec_time time_ok time_wf "\<lambda>v old. v" 0
proof unfold_locales
  show "json_ok (enc_time v)" if "time_ok v" for v
    using that time_text_utf8 by (auto simp: time_ok_def enc_time_def)
  show "dec_time (json_tree_of (enc_time v)) old = Some v" if "time_ok v" for v old
    using that time_roundtrip by (auto simp: dec_time_def enc_time_def time_ok_def time_wf_def)
  show "time_wf v" if "time_wf old" "dec_time t old = Some v" for t old v
    using that time_Parse_wf by (auto simp: dec_time_def split: json_tree.splits)
qed (auto simp: enc_time_def split: option.split)

subsection \<open>Slices, maps and pointers\<close>

locale json_element = json_codec +
  fixes zero :: 'a
  assumes typed_zero: "typed zero"

definition ok_slice :: "('a \<Rightarrow> bool) \<Rightarrow> 'a list option \<Rightarrow> bool" where
  "ok_slice ok = pred_option (list_all ok)"

fun canon_elems :: "('a \<Rightarrow> 'a \<Rightarrow> 'a) \<Rightarrow> 'a \<Rightarrow> 'a list \<Rightarrow> 'a list \<Rightarrow> 'a list" where
  "canon_elems canon z [] old = []"
| "canon_elems canon z (v # vs) old =
     canon v (case old of [] \<Rightarrow> z | w # _ \<Rightarrow> w) # canon_elems canon z vs (drop 1 old)"

definition canon_slice :: "('a \<Rightarrow> 'a \<Rightarrow> 'a) \<Rightarrow> 'a \<Rightarrow> 'a list option \<Rightarrow> 'a list option \<Rightarrow> 'a list option" where
  "canon_slice canon z v old =
     map_option (\<lambda>vs. canon_elems canon z vs (case old of None \<Rightarrow> [] | Some ws \<Rightarrow> ws)) v"

definition ok_map :: "('a \<Rightarrow> bool) \<Rightarrow> (string, 'a) gomap option \<Rightarrow> bool" where
  "ok_map ok = pred_option (\<lambda>m. map_ok m \<and> (\<forall>e \<in> set m. valid_utf8 (fst e) \<and> ok (snd e)))"

definition canon_map ::
    "('a \<Rightarrow> 'a \<Rightarrow> 'a) \<Rightarrow> 'a \<Rightarrow> (string, 'a) gomap option \<Rightarrow> (string, 'a) gomap option \<Rightarrow> (string, 'a) gomap option" where
  "canon_map canon z m old =
     map_option (\<lambda>es. foldl (\<lambda>m e. AList.update (fst e) (canon (snd e) z) m)
       (case old of None \<Rightarrow> [] | Some m \<Rightarrow> m) (sort_key fst es)) m"

definition canon_ptr :: "('a \<Rightarrow> json) \<Rightarrow> ('a \<Rightarrow> 'a \<Rightarrow> 'a) \<Rightarrow> 'a \<Rightarrow> 'a option \<Rightarrow> 'a option \<Rightarrow> 'a option" where
  "canon_ptr enc canon z p old =
     (case p of None \<Rightarrow> None
      | Some v \<Rightarrow> if enc v = JNull then None else Some (canon v (case old of None \<Rightarrow> z | Some w \<Rightarrow> w)))"

lemma tree_null: "json_tree_of j = TNull \<longleftrightarrow> j = JNull"
  by (cases j) auto

context json_element
begin

lemma elems_enc: "list_all ok vs \<Longrightarrow> dec_elems de zero (map json_tree_of (map enc vs)) old = Some (canon_elems canon zero vs old)"
proof (induction vs arbitrary: old)
  case (Cons v vs)
  show ?case using Cons.prems Cons.IH [of "drop 1 old"] dec_enc [of v] by (simp del: map_map)
qed simp

lemma elems_typed: "list_all tree_utf8 ts \<Longrightarrow> list_all typed old \<Longrightarrow> dec_elems de zero ts old = Some vs \<Longrightarrow> list_all typed vs"
proof (induction ts arbitrary: old vs)
  case (Cons t ts)
  let ?o = "case old of [] \<Rightarrow> zero | v # _ \<Rightarrow> v"
  obtain v vs' where v: "de t ?o = Some v" "dec_elems de zero ts (drop 1 old) = Some vs'" "vs = v # vs'"
    using Cons.prems(3) by (auto split: option.splits)
  have "typed ?o" "list_all typed (drop 1 old)" using Cons.prems(2) typed_zero by (cases old; simp)+
  with Cons.IH [OF _ _ v(2)] dec_typed [OF _ _ v(1)] Cons.prems(1) v(3) show ?case by simp
qed simp

lemma entries_enc:
  "\<forall>e \<in> set es. ok (snd e) \<Longrightarrow>
     fold_opt (\<lambda>(k, t) m. map_option (\<lambda>v. AList.update k v m) (de t zero)) (map (\<lambda>e. (fst e, json_tree_of (enc (snd e)))) es) m =
     Some (foldl (\<lambda>m e. AList.update (fst e) (canon (snd e) zero) m) m es)"
  by (induction es arbitrary: m) (auto simp: dec_enc)

lemma entries_typed:
  assumes "fold_opt (\<lambda>(k, t) m. map_option (\<lambda>v. AList.update k v m) (de t zero)) kts m = Some m'"
    and "\<forall>e \<in> set kts. valid_utf8 (fst e) \<and> tree_utf8 (snd e)"
    and "map_ok m \<and> (\<forall>e \<in> set m. valid_utf8 (fst e) \<and> typed (snd e))"
  shows "map_ok m' \<and> (\<forall>e \<in> set m'. valid_utf8 (fst e) \<and> typed (snd e))"
  using assms
proof (induction kts arbitrary: m)
  case (Cons kt kts)
  obtain k t where kt: "kt = (k, t)" by (cases kt)
  with Cons.prems obtain v where v: "de t zero = Some v"
    "fold_opt (\<lambda>(k, t) m. map_option (\<lambda>v. AList.update k v m) (de t zero)) kts (AList.update k v m) = Some m'"
    by (auto split: option.splits)
  have "typed v" using dec_typed [OF _ typed_zero v(1)] Cons.prems(2) kt by simp
  with Cons.prems(2,3) kt have "map_ok (AList.update k v m) \<and> (\<forall>e \<in> set (AList.update k v m). valid_utf8 (fst e) \<and> typed (snd e))"
    by (auto simp: map_ok_update dest!: mem_update)
  with Cons.IH [OF v(2)] Cons.prems(2) show ?case by simp
qed simp

end

sublocale json_element \<subseteq> slice: json_codec "enc_slice enc" "dec_slice de zero" "ok_slice ok" "ok_slice typed"
  "canon_slice canon zero" "Suc depth"
proof unfold_locales
  show "json_ok (enc_slice enc v)" if "ok_slice ok v" for v
    using that enc_ok by (cases v) (auto simp: ok_slice_def enc_slice_def list_all_iff)
  show "json_depth (enc_slice enc v) \<le> Suc depth" if "ok_slice ok v" for v
    using that enc_depth by (cases v) (auto simp: ok_slice_def enc_slice_def list_all_iff)
  show "dec_slice de zero (json_tree_of (enc_slice enc v)) old = Some (canon_slice canon zero v old)" if "ok_slice ok v" for v old
    using that elems_enc by (cases v) (auto simp: ok_slice_def enc_slice_def dec_slice_def canon_slice_def)
  show "ok_slice typed v" if "tree_utf8 t" "ok_slice typed old" "dec_slice de zero t old = Some v" for t old v
    using that elems_typed [of _ "case old of None \<Rightarrow> [] | Some ws \<Rightarrow> ws"]
    by (cases old) (auto simp: ok_slice_def dec_slice_def split: json_tree.splits)
qed

sublocale json_element \<subseteq> map: json_codec "enc_map enc" "dec_map de zero" "ok_map ok" "ok_map typed"
  "canon_map canon zero" "Suc depth"
proof unfold_locales
  show "json_ok (enc_map enc v)" if "ok_map ok v" for v
    using that enc_ok by (cases v) (auto simp: ok_map_def enc_map_def list_all_iff)
  show "json_depth (enc_map enc v) \<le> Suc depth" if "ok_map ok v" for v
    using that enc_depth by (cases v) (auto simp: ok_map_def enc_map_def list_all_iff)
  show "dec_map de zero (json_tree_of (enc_map enc v)) old = Some (canon_map canon zero v old)" if "ok_map ok v" for v old
  proof (cases v)
    case (Some es)
    have "\<forall>e \<in> set (sort_key fst es). ok (snd e)" using that by (simp add: Some ok_map_def)
    note e = entries_enc [OF this]
    have "json_tree_of (enc_map enc v) = TObj (map (\<lambda>e. (fst e, json_tree_of (enc (snd e)))) (sort_key fst es))"
      using sort_key_map_snd [of "\<lambda>v. json_tree_of (enc v)" es] by (simp add: Some enc_map_def comp_def)
    with e show ?thesis by (simp add: Some dec_map_def canon_map_def)
  qed (simp add: enc_map_def dec_map_def canon_map_def)
  show "ok_map typed v" if "tree_utf8 t" "ok_map typed old" "dec_map de zero t old = Some v" for t old v
  proof (cases t)
    case (TObj kts)
    let ?m = "case old of None \<Rightarrow> [] | Some m \<Rightarrow> m"
    note dec = that(3)
    obtain m' where m': "fold_opt (\<lambda>(k, t) m. map_option (\<lambda>v. AList.update k v m) (de t zero)) kts ?m = Some m'" "v = Some m'"
      using dec by (auto simp: TObj dec_map_def)
    have "map_ok ?m \<and> (\<forall>e \<in> set ?m. valid_utf8 (fst e) \<and> typed (snd e))" using that(2) by (cases old) (auto simp: ok_map_def)
    from entries_typed [OF m'(1) _ this] that(1) m'(2) show ?thesis by (auto simp: TObj ok_map_def list_all_iff)
  qed (use that in \<open>auto simp: dec_map_def ok_map_def\<close>)
qed

sublocale json_element \<subseteq> ptr: json_codec "enc_ptr enc" "dec_ptr de zero" "pred_option ok" "pred_option typed"
  "canon_ptr enc canon zero" depth
proof unfold_locales
  show "json_ok (enc_ptr enc v)" if "pred_option ok v" for v
    using that enc_ok by (cases v) (auto simp: enc_ptr_def)
  show "json_depth (enc_ptr enc v) \<le> depth" if "pred_option ok v" for v
    using that enc_depth by (cases v) (auto simp: enc_ptr_def)
  show "dec_ptr de zero (json_tree_of (enc_ptr enc v)) old = Some (canon_ptr enc canon zero v old)" if "pred_option ok v" for v old
    using that dec_enc by (cases v) (auto simp: enc_ptr_def dec_ptr_def canon_ptr_def tree_null)
  show "pred_option typed v" if "tree_utf8 t" "pred_option typed old" "dec_ptr de zero t old = Some v" for t old v
    using that dec_typed typed_zero by (cases old) (auto simp: dec_ptr_def split: if_splits)
qed

interpretation bytes_codec: json_codec enc_bytes dec_bytes "\<lambda>_. True" "\<lambda>_. True" "\<lambda>v old. v" 0
  by unfold_locales (auto simp: enc_bytes_def dec_bytes_def dec_slice_def b64_utf8 b64_decode_encode split: option.splits)

text \<open>Lists and maps of strings, and pointers to maps of strings.\<close>

interpretation string: json_element JStr dec_string valid_utf8 valid_utf8 "\<lambda>v old. v" 0 "[]"
  by unfold_locales (auto simp: dec_string_def valid_utf8.simps split: json_tree.splits)

interpretation string_list: json_element "enc_slice JStr" "dec_slice dec_string []" "ok_slice valid_utf8" "ok_slice valid_utf8"
  "canon_slice (\<lambda>v old. v) []" 1 None
  using string.slice.json_codec_axioms by (intro json_element.intro) (auto simp: json_element_axioms_def ok_slice_def)

interpretation string_map: json_element "enc_map JStr" "dec_map dec_string []" "ok_map valid_utf8" "ok_map valid_utf8"
  "canon_map (\<lambda>v old. v) []" 1 None
  using string.map.json_codec_axioms by (intro json_element.intro) (auto simp: json_element_axioms_def ok_map_def)

subsection \<open>The contract of a struct\<close>

text \<open>
  What decoding the text of \<open>s\<close> does to a field of \<open>s'\<close>: nothing where the field was left out.
\<close>

definition pick :: "('a \<Rightarrow> bool) \<Rightarrow> ('a \<Rightarrow> 'a \<Rightarrow> 'a) \<Rightarrow> 'a \<Rightarrow> 'a \<Rightarrow> 'a" where
  "pick omit canon v old = (if omit v then old else canon v old)"

definition copy_field ::
    "('a \<Rightarrow> bool) \<Rightarrow> ('a \<Rightarrow> 'a \<Rightarrow> 'a) \<Rightarrow> ('s \<Rightarrow> 'a) \<Rightarrow> (('a \<Rightarrow> 'a) \<Rightarrow> 's \<Rightarrow> 's) \<Rightarrow> 's \<Rightarrow> 's \<Rightarrow> 's" where
  "copy_field omit canon get upd s s' = upd (\<lambda>_. pick omit canon (get s) (get s')) s'"

definition field_law :: "('s \<Rightarrow> bool) \<Rightarrow> ('s \<Rightarrow> bool) \<Rightarrow> nat \<Rightarrow> 's field \<Rightarrow> ('s \<Rightarrow> 's \<Rightarrow> 's) \<Rightarrow> bool" where
  "field_law ok typed n f copy \<longleftrightarrow> valid_utf8 (fd_name f) \<and>
     (\<forall>s. ok s \<longrightarrow> json_ok (fd_enc f s) \<and> json_depth (fd_enc f s) \<le> n) \<and>
     (\<forall>s s'. ok s \<longrightarrow> (if fd_omit f s then copy s s' = s'
        else fd_dec f (json_tree_of (fd_enc f s)) s' = Some (copy s s'))) \<and>
     (\<forall>t s s'. tree_utf8 t \<longrightarrow> typed s \<longrightarrow> fd_dec f t s = Some s' \<longrightarrow> typed s')"

context json_codec
begin

lemma field_law:
  assumes "valid_utf8 name" and "depth \<le> n" and "\<And>s. Ok s \<Longrightarrow> ok (get s)" and "\<And>s. Wf s \<Longrightarrow> typed (get s)"
    and "\<And>s v. Wf s \<Longrightarrow> typed v \<Longrightarrow> Wf (upd (\<lambda>_. v) s)" and "\<And>s. upd (\<lambda>_. get s) s = s"
  shows "field_law Ok Wf n (field name omit enc de get upd) (copy_field omit canon get upd)"
proof -
  have "json_depth (enc (get s)) \<le> n" if "Ok s" for s using enc_depth [OF assms(3) [OF that]] assms(2) by simp
  moreover have "Wf (upd (\<lambda>_. v) s)" if "tree_utf8 t" "Wf s" "de t (get s) = Some v" for t s v
    using assms(5) [OF that(2) dec_typed [OF that(1) assms(4) [OF that(2)] that(3)]] .
  ultimately show ?thesis
    using assms(1,3,6) enc_ok dec_enc unfolding field_law_def by (auto simp: field_def copy_field_def pick_def)
qed

end

definition canon_struct :: "('s \<Rightarrow> 's \<Rightarrow> 's) list \<Rightarrow> 's \<Rightarrow> 's \<Rightarrow> 's" where
  "canon_struct copies s s' = fold (\<lambda>c. c s) copies s'"

locale json_struct =
  fixes fields :: "'s field list" and copies :: "('s \<Rightarrow> 's \<Rightarrow> 's) list"
    and ok :: "'s \<Rightarrow> bool" and typed :: "'s \<Rightarrow> bool" and n :: nat
  assumes names: "distinct (map fd_name fields)"
    and laws: "list_all2 (field_law ok typed n) fields copies"
begin

lemma find_name: "distinct (map fd_name fs) \<Longrightarrow> f \<in> set fs \<Longrightarrow> find (\<lambda>g. fd_name g = fd_name f) fs = Some f"
  by (induction fs) (auto intro: rev_image_eqI)

lemma find_own: "f \<in> set fields \<Longrightarrow> find_field fields (fd_name f) = Some f"
  using find_name [OF names] by (simp add: find_field_def)

lemma find_in: "find_field fields k = Some f \<Longrightarrow> f \<in> set fields"
  by (auto simp: find_field_def find_Some_iff split: option.splits)

lemma law: "f \<in> set fields \<Longrightarrow> \<exists>c. field_law ok typed n f c"
  using laws by (auto simp: list_all2_conv_all_nth in_set_conv_nth)

lemma members_enc:
  assumes "ok s" and "list_all2 (field_law ok typed n) fs cs" and "set fs \<subseteq> set fields"
  shows "fold_opt (dec_member fields) (map (\<lambda>f. (fd_name f, json_tree_of (fd_enc f s))) (filter (\<lambda>f. \<not> fd_omit f s) fs)) s' =
    Some (fold (\<lambda>c. c s) cs s')"
  using assms(2,3)
proof (induction fs cs arbitrary: s' rule: list_all2_induct)
  case (Cons f fs c cs)
  have "if fd_omit f s then c s s' = s' else fd_dec f (json_tree_of (fd_enc f s)) s' = Some (c s s')"
    using Cons.hyps(1) assms(1) by (simp add: field_law_def)
  moreover have "find_field fields (fd_name f) = Some f" using Cons.prems by (intro find_own) simp
  ultimately show ?case using Cons.IH Cons.prems by (auto simp: dec_member_def split: if_splits)
qed simp

lemma member_typed:
  assumes "dec_member fields kt s = Some s'" and "tree_utf8 (snd kt)" and "typed s"
  shows "typed s'"
proof (cases "find_field fields (fst kt)")
  case None
  then show ?thesis using assms by (simp add: dec_member_def)
next
  case (Some f)
  then obtain c where "field_law ok typed n f c" using find_in law by blast
  then show ?thesis using assms Some by (auto simp: field_law_def dec_member_def)
qed

lemma members_typed: "fold_opt (dec_member fields) kts s = Some s' \<Longrightarrow> \<forall>e \<in> set kts. tree_utf8 (snd e) \<Longrightarrow> typed s \<Longrightarrow> typed s'"
proof (induction kts arbitrary: s)
  case (Cons kt kts)
  then show ?case using member_typed by (auto split: option.splits)
qed simp

end

sublocale json_struct \<subseteq> json_codec "enc_struct fields" "dec_struct fields" ok typed "canon_struct copies" "Suc n"
proof unfold_locales
  fix s assume s: "ok s"
  have each: "\<forall>f \<in> set fields. valid_utf8 (fd_name f) \<and> json_ok (fd_enc f s) \<and> json_depth (fd_enc f s) \<le> n"
    using law s by (auto simp: field_law_def)
  then show "json_ok (enc_struct fields s)" by (auto simp: enc_struct_def list_all_iff)
  show "json_depth (enc_struct fields s) \<le> Suc n" using each by (auto simp: enc_struct_def)
  show "dec_struct fields (json_tree_of (enc_struct fields s)) s' = Some (canon_struct copies s s')" for s'
    using members_enc [OF s laws, of s'] by (simp add: enc_struct_def dec_struct_def canon_struct_def comp_def)
next
  show "typed v" if "tree_utf8 t" "typed old" "dec_struct fields t old = Some v" for t old v
    using that members_typed by (auto simp: dec_struct_def list_all_iff split: json_tree.splits)
qed

subsection \<open>What is lost\<close>

text \<open>Over the zero value: an empty slice or map becomes nil where it is omitted, and maps are sorted.\<close>

definition normal_list :: "'a list option \<Rightarrow> 'a list option" where
  "normal_list v = (if empty_list v then None else v)"

definition normal_map :: "(string, 'a) gomap option \<Rightarrow> (string, 'a) gomap option" where
  "normal_map m = (if empty_list m then None else map_option (sort_key fst) m)"

definition normal_map_ptr :: "(string, 'a) gomap option option \<Rightarrow> (string, 'a) gomap option option" where
  "normal_map_ptr p = (case p of Some (Some m) \<Rightarrow> Some (Some (sort_key fst m)) | _ \<Rightarrow> None)"

lemma canon_slice_same: "canon_slice (\<lambda>v old. v) z v old = v"
proof -
  have "canon_elems (\<lambda>v old. v) z vs ws = vs" for vs ws :: "'a list" by (induction vs arbitrary: ws) auto
  then show ?thesis by (cases v) (simp_all add: canon_slice_def)
qed

lemma canon_map_same:
  assumes "ok_map P m"
  shows "canon_map (\<lambda>v old. v) z m None = map_option (sort_key fst) m"
proof (cases m)
  case (Some es)
  then have "dedup (sort_key fst es) = sort_key fst es"
    using assms by (intro dedup_distinct) (simp add: ok_map_def distinct_sort_key)
  then show ?thesis by (simp add: Some canon_map_def dedup_def)
qed (simp add: canon_map_def)

lemma canon_map_ptr:
  assumes "pred_option (ok_map P) p"
  shows "canon_ptr (enc_map enc) (canon_map (\<lambda>v old. v) z) None p None = normal_map_ptr p"
  using assms canon_map_same [of P]
  by (auto simp: canon_ptr_def normal_map_ptr_def enc_map_def split: option.splits)

lemma pick_simps:
  "pick always canon v old = canon v old"
  "pick empty_string (\<lambda>v old. v) s [] = s"
  "pick Not (\<lambda>v old. v) b False = b"
  "pick (\<lambda>n. n = z) (\<lambda>v old. v) n z = n"
  "pick empty_list (canon_slice (\<lambda>v old. v) w) l None = normal_list l"
  "pick empty_list (\<lambda>v old. v) l None = normal_list l"
  "ok_map P m \<Longrightarrow> pick empty_list (canon_map (\<lambda>v old. v) u) m None = normal_map m"
  "pred_option (ok_map P) p \<Longrightarrow>
     pick is_nil (canon_ptr (enc_map enc) (canon_map (\<lambda>v old. v) z') None) p None = normal_map_ptr p"
  by (simp_all add: pick_def always_def empty_string_def is_nil_def normal_list_def normal_map_def canon_slice_same
      canon_map_same canon_map_ptr) (simp add: normal_map_ptr_def)

subsection \<open>What is accepted\<close>

text \<open>
  Whether a decoder accepts a value does not depend on what it decodes over; \<open>accepts de P\<close>: it
  accepts the values in \<open>P\<close>.
\<close>

definition accepts :: "(json_tree \<Rightarrow> 'a \<Rightarrow> 'a option) \<Rightarrow> (json_tree \<Rightarrow> bool) \<Rightarrow> bool" where
  "accepts de P \<longleftrightarrow> (\<forall>t old. de t old \<noteq> None \<longleftrightarrow> P t)"

lemma accepts_None: "accepts de P \<Longrightarrow> de t old = None \<longleftrightarrow> \<not> P t"
  unfolding accepts_def by blast

lemma accepts_Some: "accepts de P \<Longrightarrow> de t old = Some v \<Longrightarrow> P t"
  unfolding accepts_def by blast

fun null_or :: "(json_tree \<Rightarrow> bool) \<Rightarrow> json_tree \<Rightarrow> bool" where
  "null_or P TNull \<longleftrightarrow> True"
| "null_or P t \<longleftrightarrow> P t"

fun is_text :: "json_tree \<Rightarrow> bool" where
  "is_text (TStr s) \<longleftrightarrow> True" | "is_text _ \<longleftrightarrow> False"

fun is_truth :: "json_tree \<Rightarrow> bool" where
  "is_truth (TBool b) \<longleftrightarrow> True" | "is_truth _ \<longleftrightarrow> False"

fun array_of :: "(json_tree \<Rightarrow> bool) \<Rightarrow> json_tree \<Rightarrow> bool" where
  "array_of P (TArr ts) \<longleftrightarrow> list_all P ts" | "array_of P _ \<longleftrightarrow> False"

fun object_of :: "(string \<Rightarrow> json_tree \<Rightarrow> bool) \<Rightarrow> json_tree \<Rightarrow> bool" where
  "object_of P (TObj kts) \<longleftrightarrow> (\<forall>(k, t) \<in> set kts. P k t)" | "object_of P _ \<longleftrightarrow> False"

lemma fold_opt_accepts:
  assumes "\<And>b a. b \<in> set bs \<Longrightarrow> f b a \<noteq> None \<longleftrightarrow> P b"
  shows "fold_opt f bs a \<noteq> None \<longleftrightarrow> (\<forall>b \<in> set bs. P b)"
  using assms
proof (induction bs arbitrary: a)
  case (Cons b bs)
  have "f b a \<noteq> None \<longleftrightarrow> P b" by (rule Cons.prems) simp
  moreover have "fold_opt f bs a' \<noteq> None \<longleftrightarrow> (\<forall>b \<in> set bs. P b)" for a'
    by (rule Cons.IH) (rule Cons.prems, simp)
  ultimately show ?case by (auto split: option.split)
qed simp

lemma accepts_string: "accepts dec_string (null_or is_text)"
  by (auto simp: accepts_def dec_string_def elim!: null_or.elims is_text.elims split: json_tree.splits)

lemma accepts_bool: "accepts dec_bool (null_or is_truth)"
  by (auto simp: accepts_def dec_bool_def elim!: null_or.elims is_truth.elims split: json_tree.splits)

lemma accepts_slice:
  assumes "accepts de P"
  shows "accepts (dec_slice de z) (null_or (array_of P))"
proof -
  have "dec_elems de z ts old \<noteq> None \<longleftrightarrow> list_all P ts" for ts old
    by (induction ts arbitrary: old) (auto simp: accepts_None [OF assms] dest: accepts_Some [OF assms] split: option.split)
  then show ?thesis
    by (auto simp: accepts_def dec_slice_def elim!: null_or.elims array_of.elims split: json_tree.splits)
qed

lemma accepts_map:
  assumes "accepts de P"
  shows "accepts (dec_map de z) (null_or (object_of (\<lambda>k. P)))"
proof -
  have "fold_opt (\<lambda>(k, t) m. map_option (\<lambda>v. AList.update k v m) (de t z)) kts m \<noteq> None \<longleftrightarrow> (\<forall>b \<in> set kts. P (snd b))"
    for kts m by (intro fold_opt_accepts) (simp add: accepts_None [OF assms] split_beta del: not_None_eq)
  then show ?thesis
    by (auto simp: accepts_def dec_map_def split_beta elim!: null_or.elims object_of.elims split: json_tree.splits)
qed

lemma accepts_ptr:
  assumes "accepts de (null_or P)"
  shows "accepts (dec_ptr de z) (null_or P)"
  using assms by (auto simp: accepts_def dec_ptr_def)

lemma accepts_struct:
  assumes "\<And>k t s. dec_member fs (k, t) s \<noteq> None \<longleftrightarrow> P k t"
  shows "accepts (dec_struct fs) (null_or (object_of P))"
proof -
  have "fold_opt (dec_member fs) kts s \<noteq> None \<longleftrightarrow> (\<forall>b \<in> set kts. P (fst b) (snd b))" for kts s
    by (rule fold_opt_accepts) (metis assms prod.collapse)
  then show ?thesis
    by (auto simp: accepts_def dec_struct_def split_beta elim!: null_or.elims object_of.elims split: json_tree.splits)
qed

text \<open>The types of the members of a struct, by the names of its tags in lower case.\<close>

definition typed_member :: "(string \<times> (json_tree \<Rightarrow> bool)) list \<Rightarrow> string \<Rightarrow> json_tree \<Rightarrow> bool" where
  "typed_member types k t \<longleftrightarrow> (case map_of types (fold_name k) of None \<Rightarrow> True | Some P \<Rightarrow> P t)"

definition field_type :: "'s field \<Rightarrow> string \<times> (json_tree \<Rightarrow> bool) \<Rightarrow> bool" where
  "field_type f e \<longleftrightarrow> fold_name (fd_name f) = fst e \<and> accepts (fd_dec f) (snd e)"

lemma field_type_field: "fold_name name = n \<Longrightarrow> accepts de P \<Longrightarrow> field_type (field name omit enc de get upd) (n, P)"
  by (auto simp: field_type_def accepts_def field_def)

lemma find_field_fold:
  assumes "distinct (map (\<lambda>f. fold_name (fd_name f)) fs)"
  shows "find_field fs k = find (\<lambda>f. fold_name (fd_name f) = fold_name k) fs"
proof (cases "find (\<lambda>f. fd_name f = k) fs")
  case (Some f)
  then have f: "f \<in> set fs" "fd_name f = k" by (auto simp: find_Some_iff)
  have "find (\<lambda>g. fold_name (fd_name g) = fold_name (fd_name f)) gs = Some f"
    if "distinct (map (\<lambda>f. fold_name (fd_name f)) gs)" "f \<in> set gs" for gs
    using that by (induction gs) (auto intro: rev_image_eqI)
  from this [OF assms f(1)] show ?thesis using Some f(2) by (simp add: find_field_def)
qed (simp add: find_field_def)

lemma find_field_type:
  assumes "list_all2 field_type fs types" and "distinct (map fst types)"
  shows "rel_option (\<lambda>f. accepts (fd_dec f)) (find_field fs k) (map_of types (fold_name k))"
proof -
  have n: "map fst types = map (\<lambda>f. fold_name (fd_name f)) fs"
    using assms(1) by (induction rule: list_all2_induct) (auto simp: field_type_def)
  have "find_field fs k = find (\<lambda>f. fold_name (fd_name f) = fold_name k) fs"
    by (rule find_field_fold) (rule assms(2) [unfolded n])
  moreover have "rel_option (\<lambda>f. accepts (fd_dec f)) (find (\<lambda>f. fold_name (fd_name f) = j) fs) (map_of types j)" for j
    using assms(1) by (induction rule: list_all2_induct) (auto simp: field_type_def)
  ultimately show ?thesis by simp
qed

lemma accepts_typed:
  assumes "list_all2 field_type fs types" and "distinct (map fst types)"
  shows "accepts (dec_struct fs) (null_or (object_of (typed_member types)))"
proof (rule accepts_struct)
  show "dec_member fs (k, t) s \<noteq> None \<longleftrightarrow> typed_member types k t" for k t s
    using find_field_type [OF assms, of k]
    by (cases "find_field fs k"; cases "map_of types (fold_name k)")
      (simp_all add: dec_member_def typed_member_def accepts_def del: not_None_eq)
qed

text \<open>
  The value of a field after the members of an object: every member with its name, in any case,
  is decoded over what the ones before it have left.
\<close>

definition member_value :: "(json_tree \<Rightarrow> 'a \<Rightarrow> 'a option) \<Rightarrow> string \<Rightarrow> (string \<times> json_tree) list \<Rightarrow> 'a \<Rightarrow> 'a" where
  "member_value de n kts old = foldl (\<lambda>v (k, t). if fold_name k = n then the (de t v) else v) old kts"

lemma member_value_simps:
  "member_value de n [] old = old"
  "member_value de n ((k, t) # kts) old = member_value de n kts (if fold_name k = n then the (de t old) else old)"
  by (simp_all add: member_value_def)

lemma members_value:
  assumes "distinct (map (\<lambda>f. fold_name (fd_name f)) fs)" and own: "field name omit enc de get upd \<in> set fs"
    and set: "\<And>v s. get (upd (\<lambda>_. v) s) = v"
    and other: "\<forall>g \<in> set fs. fd_name g \<noteq> name \<longrightarrow> (\<forall>t s s'. fd_dec g t s = Some s' \<longrightarrow> get s' = get s)"
    and fold: "fold_name name = n" and "fold_opt (dec_member fs) kts s = Some s'"
  shows "get s' = member_value de n kts (get s)"
proof -
  have same: "g = h" if "g \<in> set fs" "h \<in> set fs" "fold_name (fd_name g) = fold_name (fd_name h)" for g h
    using assms(1) that by (auto simp: distinct_map dest: inj_onD)
  have step: "get s' = (if fold_name k = n then the (de t (get s)) else get s)"
    if d: "dec_member fs (k, t) s = Some s'" for k t s s'
  proof (cases "find (\<lambda>f. fold_name (fd_name f) = fold_name k) fs")
    case None
    then have "fold_name k \<noteq> n" using own fold by (force simp: find_None_iff)
    then show ?thesis using d None by (simp add: dec_member_def find_field_fold [OF assms(1)])
  next
    case (Some g)
    then have g: "g \<in> set fs" "fold_name (fd_name g) = fold_name k" by (auto simp: find_Some_iff)
    have dec: "fd_dec g t s = Some s'" using d Some by (simp add: dec_member_def find_field_fold [OF assms(1)])
    show ?thesis
    proof (cases "fd_name g = name")
      case True
      then have "g = field name omit enc de get upd" using same [OF g(1) own] by simp
      then show ?thesis using dec set g(2) fold by (auto simp: field_def)
    next
      case False
      then have "fold_name k \<noteq> n" using same [OF g(1) own] g(2) fold by auto
      then show ?thesis using other g(1) dec False by auto
    qed
  qed
  show ?thesis using assms(6)
  proof (induction kts arbitrary: s)
    case (Cons b kts)
    then show ?case using step [of "fst b" "snd b" s] by (cases b) (auto simp: member_value_simps split: option.splits)
  qed (simp add: member_value_simps)
qed

end
