(* ===== verification/Logs.thy ===== *)
theory Logs
  imports NetUrl Codec
begin

text \<open>
  src/logs: the log request and its parsing from the query string, the printing of requests
  and messages, and the handler that streams messages as lines of JSON.

  The logging system behind the interface \<open>Requester\<close> is a parameter, and so is \<open>Time.String\<close>. What the handler's \<open>select\<close> receives is the
  argument \<open>events\<close>: messages, the end of the stream, and the client going away, in the order
  in which they are received.
\<close>

subsection \<open>Requests and messages\<close>

record log_request =
  lr_name :: string
  lr_namespace :: string
  lr_instance :: string
  lr_since :: "gotime option"
  lr_tail :: goint
  lr_follow :: bool

record log_message =
  lm_name :: string
  lm_namespace :: string
  lm_instance :: string
  lm_timestamp :: gotime
  lm_text :: string

definition itoa :: "goint \<Rightarrow> string" where
  "itoa n = (if n < 0 then CHR ''-'' # dec (nat (- n)) else dec (nat n))"

definition show_bool :: "bool \<Rightarrow> string" where
  "show_bool b = (if b then ''true'' else ''false'')"

text \<open>\<open>fmt\<close> prints a time, as \<open>Time.String\<close> does; a nil pointer is printed as \<open><nil>\<close>.\<close>

definition Request_String :: "(gotime \<Rightarrow> string) \<Rightarrow> log_request \<Rightarrow> string" where
  "Request_String fmt r =
     ''name: '' @ lr_name r @ '' namespace: '' @ lr_namespace r @ '' instance: '' @ lr_instance r @
     '' since: '' @ (case lr_since r of None \<Rightarrow> ''<nil>'' | Some t \<Rightarrow> fmt t) @
     '' tail: '' @ itoa (lr_tail r) @ '' follow: '' @ show_bool (lr_follow r)"

definition Message_String :: "(gotime \<Rightarrow> string) \<Rightarrow> log_message \<Rightarrow> string" where
  "Message_String fmt m =
     (let ns = (if 0 < length (lm_namespace m) then lm_namespace m @ '' '' else [])
      in fmt (lm_timestamp m) @ '' '' @ lm_name m @ '' ('' @ ns @ lm_instance m @ '') '' @ lm_text m)"

subsection \<open>Parsing the request\<close>

text \<open>\<open>strconv.ParseBool\<close>\<close>

definition ParseBool :: "string \<Rightarrow> bool \<times> num_error option" where
  "ParseBool s =
     (if s \<in> set [''1'', ''t'', ''T'', ''true'', ''TRUE'', ''True''] then (True, None)
      else if s \<in> set [''0'', ''f'', ''F'', ''false'', ''FALSE'', ''False''] then (False, None)
      else (False, Some ErrSyntax))"

definition getValue :: "(string \<rightharpoonup> string list) \<Rightarrow> string \<Rightarrow> string" where
  "getValue queryValues name =
     (let values = (case queryValues name of None \<Rightarrow> [] | Some vs \<Rightarrow> vs)
      in if length values = 0 then [] else values ! (length values - 1))"

datatype log_error = BadTail num_error | BadSince string

text \<open>
  The parser of time stamps returns a time also with an error, and so does this function with
  a request.
\<close>

definition parseRequest ::
    "request \<Rightarrow> log_request \<times> log_error option" where
  "parseRequest r =
     (let query = ParseQuery (u_raw_query (rq_url r));
          logRequest = \<lparr>lr_name = getValue query ''name'', lr_namespace = getValue query ''namespace'',
            lr_instance = getValue query ''instance'', lr_since = None, lr_tail = 0, lr_follow = False\<rparr>;
          tailStr = getValue query ''tail'';
          (tail, err) = (if tailStr \<noteq> [] then Atoi tailStr else (0, None));
          logRequest = logRequest\<lparr>lr_tail := tail\<rparr>
      in case err of
           Some e \<Rightarrow> (logRequest, Some (BadTail e))
         | None \<Rightarrow>
             (let logRequest = logRequest\<lparr>lr_follow := fst (ParseBool (getValue query ''follow''))\<rparr>;
                  sinceStr = getValue query ''since''
              in if sinceStr = [] then (logRequest, None)
                 else (case time_Parse sinceStr of
                         None \<Rightarrow> (logRequest\<lparr>lr_since := Some zero_time\<rparr>, Some (BadSince sinceStr))
                       | Some since \<Rightarrow> (logRequest\<lparr>lr_since := Some since\<rparr>, None))))"

subsection \<open>The handler\<close>

datatype log_event = Received log_message | StreamClosed | ClientGone

text \<open>
  What the handler did with its stream: it returned, or it is still waiting after the events
  so far.
\<close>

datatype stream_outcome = Returned | Waiting

text \<open>
  \<open>Encoder.Encode\<close> writes the text and a line break in one call. \<open>encode\<close> is the text of a
  message, or nothing if it cannot be represented.
\<close>

definition Message_fields :: "log_message field list" where
  "Message_fields =
     [field ''name'' always JStr dec_string lm_name lm_name_update,
      field ''namespace'' always JStr dec_string lm_namespace lm_namespace_update,
      field ''instance'' always JStr dec_string lm_instance lm_instance_update,
      field ''timestamp'' always enc_time dec_time lm_timestamp lm_timestamp_update,
      field ''text'' always JStr dec_string lm_text lm_text_update]"

definition encodeMessage :: "log_message \<Rightarrow> string option" where
  "encodeMessage m = json_Marshal (enc_struct Message_fields m)"

lemma encodeMessage_eq: "encodeMessage m \<noteq> None \<longleftrightarrow> MarshalTime (lm_timestamp m) \<noteq> None"
  by (simp add: encodeMessage_def json_Marshal_def enc_struct_def Message_fields_def always_def enc_time_def
      split: option.split)

text \<open>The result is whether encoding or writing failed; a failed write makes later calls fail.\<close>

definition Encode ::
    "'w writer \<Rightarrow> log_message \<Rightarrow> bool \<times> 'w \<Rightarrow> bool outcome \<times> bool \<times> 'w" where
  "Encode ops m s =
     (case s of (broken, w) \<Rightarrow>
        if broken then (Done True, s)
        else case encodeMessage m of
               None \<Rightarrow> (Done True, s)
             | Some b \<Rightarrow>
                 (case w_write ops (b @ newline) w of
                    (Panics p, w) \<Rightarrow> (Panics p, broken, w)
                  | (Done (n, err), w) \<Rightarrow> (Done (err \<noteq> None), err \<noteq> None, w)))"

definition serializeFailure :: log_message where
  "serializeFailure = \<lparr>lm_name = [], lm_namespace = [], lm_instance = [], lm_timestamp = zero_time,
     lm_text = ''failed to serialize log message''\<rparr>"

definition flushStream :: "('w \<Rightarrow> unit outcome \<times> 'w) \<Rightarrow> bool \<times> 'w \<Rightarrow> unit outcome \<times> bool \<times> 'w" where
  "flushStream flush s = (case flush (snd s) of (a, w) \<Rightarrow> (a, fst s, w))"

fun streamLoop ::
    "'w writer \<Rightarrow> ('w \<Rightarrow> unit outcome \<times> 'w) \<Rightarrow> log_event list \<Rightarrow> bool \<times> 'w \<Rightarrow>
     stream_outcome outcome \<times> bool \<times> 'w" where
  "streamLoop ops flush [] s = (Done Waiting, s)"
| "streamLoop ops flush (ClientGone # es) s = (Done Returned, s)"
| "streamLoop ops flush (StreamClosed # es) s = (Done Returned, s)"
| "streamLoop ops flush (Received m # es) s =
     then_do (Encode ops m s) (\<lambda>failed s.
       if failed
       then then_do (Encode ops serializeFailure s) (\<lambda>_ s.
              then_do (flushStream flush s) (\<lambda>_ s. (Done Returned, s)))
       else then_do (flushStream flush s) (\<lambda>_ s. streamLoop ops flush es s))"

text \<open>A writer whose close notification is a nil channel never reports that the client went away.\<close>

definition receivable :: "bool \<Rightarrow> log_event list \<Rightarrow> log_event list" where
  "receivable notifies events = (if notifies then events else filter (\<lambda>e. e \<noteq> ClientGone) events)"

text \<open>The deferred calls, last one first.\<close>

definition closeStream :: "'w writer \<Rightarrow> ('w \<Rightarrow> unit outcome \<times> 'w) \<Rightarrow> 'w \<Rightarrow> unit outcome \<times> 'w" where
  "closeStream ops flush w =
     then_do (flush w) (\<lambda>_ w. then_do (w_write ops [] w) (\<lambda>_ w. flush w))"

definition streamHeader :: "header \<Rightarrow> header" where
  "streamHeader h =
     header_Set (CanonicalHeaderKey ''Content-Type'') ''application/x-ndjson''
       (header_Set ''Transfer-Encoding'' ''chunked'' (header_Set ''Connection'' ''Keep-Alive'' h))"

definition NotFound :: "'w writer \<Rightarrow> 'w \<Rightarrow> unit outcome \<times> 'w" where
  "NotFound ops = http_Error ops ''404 page not found'' 404"

definition finishWith :: "stream_outcome \<Rightarrow> unit outcome \<times> 'w \<Rightarrow> stream_outcome outcome \<times> 'w" where
  "finishWith res r = then_do r (\<lambda>_ w. (Done res, w))"

definition NewLogHandlerFunc ::
    "'w writer \<Rightarrow> (log_request \<Rightarrow> string + log_event list option) \<Rightarrow> request \<Rightarrow> 'w \<Rightarrow> stream_outcome outcome \<times> 'w" where
  "NewLogHandlerFunc ops query r w =
     (case (w_close_notifier ops, w_flusher ops) of
        (Some cn, Some flush) \<Rightarrow>
          (case parseRequest r of
             (_, Some err) \<Rightarrow> finishWith Returned (Errorf ops 422 ''could not parse the log request'' [] w)
           | (logRequest, None) \<Rightarrow>
               (case query logRequest of
                  Inl err \<Rightarrow> finishWith Returned (Errorf ops 500 ''function log request failed'' [] w)
                | Inr messages \<Rightarrow>
                    then_do (w_write_header ops 200 (w_set_header ops (streamHeader (w_header ops w)) w)) (\<lambda>_ w.
                    then_do (flush w) (\<lambda>_ w.
                      case (case messages of
                              None \<Rightarrow> (Done Returned, False, w)
                            | Some events \<Rightarrow> streamLoop ops flush (receivable (cn w) events) (False, w)) of
                        (Done Waiting, b, w) \<Rightarrow> (Done Waiting, w)
                      | (Done Returned, b, w) \<Rightarrow> finishWith Returned (closeStream ops flush w)
                      | (Panics p, b, w) \<Rightarrow> (case closeStream ops flush w of (_, w) \<Rightarrow> (Panics p, w))))))
      | _ \<Rightarrow> finishWith Returned (NotFound ops w))"

subsection \<open>Reading back a request\<close>

text \<open>The query string that a client writes for a log request; no time is written as nothing.\<close>

definition logQuery :: "string \<Rightarrow> string \<Rightarrow> string \<Rightarrow> nat \<Rightarrow> bool \<Rightarrow> string \<Rightarrow> string" where
  "logQuery n ns i t f since =
     ''name='' @ url_escape EncodeQueryComponent n @ ''&namespace='' @ url_escape EncodeQueryComponent ns @
     ''&instance='' @ url_escape EncodeQueryComponent i @ ''&tail='' @ dec t @ ''&follow='' @ show_bool f @
     ''&since='' @ url_escape EncodeQueryComponent since"

lemma splitOn_app: "sep \<notin> set a \<Longrightarrow> splitOn sep (a @ sep # b) = a # splitOn sep b"
  by (induction a) auto

lemma splitOn_last: "sep \<notin> set a \<Longrightarrow> splitOn sep a = [a]"
  by (induction a) auto

lemma plain_query_char: "is_alnum c \<or> c \<in> set ''-_.~%+'' \<Longrightarrow> c \<noteq> CHR ''&'' \<and> c \<noteq> CHR '';'' \<and> c \<noteq> CHR ''=''"
  by (auto simp: is_alnum_def is_lower_def is_upper_def between_def)

lemma hexDigit_alnum: "n < 16 \<Longrightarrow> is_alnum (hexDigit n)"
  by (auto simp: hexDigit_def is_alnum_def is_lower_def is_upper_def between_def)

lemma escape_query_chars:
  "c \<in> set (url_escape EncodeQueryComponent s) \<Longrightarrow> c \<noteq> CHR ''&'' \<and> c \<noteq> CHR '';'' \<and> c \<noteq> CHR ''=''"
proof (induction s)
  case (Cons d s)
  let ?hi = "hexDigit (of_char d div 16)" and ?lo = "hexDigit (of_char d mod 16)"
  have "is_alnum d \<or> d \<in> set ''-_.~%+''" if "\<not> shouldEscape EncodeQueryComponent d"
    using that by (auto simp: shouldEscape_def split: if_splits)
  note plain = plain_query_char [OF this]
  have "(of_char d :: nat) div 16 < 16" using less_mult_imp_div_less [of "of_char d" 16 16] by simp
  note hex = plain_query_char [OF disjI1, OF hexDigit_alnum, OF this] plain_query_char [OF disjI1, OF hexDigit_alnum, of "of_char d mod 16"]
  from Cons.prems consider "c \<in> set (url_escape EncodeQueryComponent s)" | "c = d" "\<not> shouldEscape EncodeQueryComponent d"
    | "c = CHR ''+''" | "c = CHR ''%''" | "c = ?hi" | "c = ?lo"
    by (simp split: if_splits) blast+
  then show ?case by cases (use Cons.IH plain hex in simp_all)
qed simp

lemma queryStep_pair:
  assumes "CHR '';'' \<notin> set k" and "CHR ''='' \<notin> set k" and "CHR '';'' \<notin> set v"
    and "url_unescape EncodeQueryComponent k = Some k'" and "url_unescape EncodeQueryComponent v = Some v'"
  shows "queryStep m (k @ CHR ''='' # v) = m(k' \<mapsto> (case m k' of None \<Rightarrow> [] | Some vs \<Rightarrow> vs) @ [v'])"
  using assms by (simp add: queryStep_def cutOr_def cut_append)

lemma dec_unescape: "url_unescape EncodeQueryComponent (dec t) = Some (dec t) \<and>
    CHR ''&'' \<notin> set (dec t) \<and> CHR '';'' \<notin> set (dec t)"
proof -
  have "list_all is_digit s \<Longrightarrow> url_unescape EncodeQueryComponent s = Some s \<and> CHR ''&'' \<notin> set s \<and> CHR '';'' \<notin> set s" for s
    by (induction s) (auto simp: is_digit_def)
  then show ?thesis using dec_digits by blast
qed

lemma logQuery_parse:
  "ParseQuery (logQuery n ns i t f since) =
     [''name'' \<mapsto> [n], ''namespace'' \<mapsto> [ns], ''instance'' \<mapsto> [i], ''tail'' \<mapsto> [dec t], ''follow'' \<mapsto> [show_bool f],
      ''since'' \<mapsto> [since]]"
proof -
  let ?e = "url_escape EncodeQueryComponent"
  have esc: "CHR ''&'' \<notin> set (?e s)" "CHR '';'' \<notin> set (?e s)" "url_unescape EncodeQueryComponent (?e s) = Some s" for s
    using escape_query_chars [of _ s] by (auto simp: url_unescape_escape)
  have f: "CHR ''&'' \<notin> set (show_bool f)" "CHR '';'' \<notin> set (show_bool f)"
    "url_unescape EncodeQueryComponent (show_bool f) = Some (show_bool f)"
    by (simp_all add: show_bool_def)
  have split: "splitOn (CHR ''&'') (logQuery n ns i t f since) =
      [''name'' @ CHR ''='' # ?e n, ''namespace'' @ CHR ''='' # ?e ns, ''instance'' @ CHR ''='' # ?e i,
       ''tail'' @ CHR ''='' # dec t, ''follow'' @ CHR ''='' # show_bool f, ''since'' @ CHR ''='' # ?e since]"
    using esc dec_unescape [of t] f splitOn_app [of "CHR ''&''" "''name='' @ ?e n"]
      splitOn_app [of "CHR ''&''" "''namespace='' @ ?e ns"] splitOn_app [of "CHR ''&''" "''instance='' @ ?e i"]
      splitOn_app [of "CHR ''&''" "''tail='' @ dec t"] splitOn_app [of "CHR ''&''" "''follow='' @ show_bool f"]
      splitOn_last [of "CHR ''&''" "''since='' @ ?e since"]
    by (simp add: logQuery_def)
  have keys: "queryStep m (''name'' @ CHR ''='' # ?e s) = m(''name'' \<mapsto> (case m ''name'' of None \<Rightarrow> [] | Some vs \<Rightarrow> vs) @ [s])"
    "queryStep m (''namespace'' @ CHR ''='' # ?e s) = m(''namespace'' \<mapsto> (case m ''namespace'' of None \<Rightarrow> [] | Some vs \<Rightarrow> vs) @ [s])"
    "queryStep m (''instance'' @ CHR ''='' # ?e s) = m(''instance'' \<mapsto> (case m ''instance'' of None \<Rightarrow> [] | Some vs \<Rightarrow> vs) @ [s])"
    "queryStep m (''tail'' @ CHR ''='' # dec t) = m(''tail'' \<mapsto> (case m ''tail'' of None \<Rightarrow> [] | Some vs \<Rightarrow> vs) @ [dec t])"
    "queryStep m (''follow'' @ CHR ''='' # show_bool f) = m(''follow'' \<mapsto> (case m ''follow'' of None \<Rightarrow> [] | Some vs \<Rightarrow> vs) @ [show_bool f])"
    "queryStep m (''since'' @ CHR ''='' # ?e s) = m(''since'' \<mapsto> (case m ''since'' of None \<Rightarrow> [] | Some vs \<Rightarrow> vs) @ [s])"
    for m s
    using esc dec_unescape [of t] f by (intro queryStep_pair; simp)+
  show ?thesis unfolding ParseQuery_def split foldl.simps keys by simp
qed

text \<open>
  Property C30: a log request is read back from its query string: any name, namespace and
  instance (with any bytes, escaped), a non-negative tail that fits, the follow flag, and the
  time from which on messages are wanted, to the nanosecond.
\<close>

theorem parseRequest_roundtrip:
  assumes "u_raw_query (rq_url r) = logQuery n ns i t f st" and "int t < 2 ^ 63"
    and "case since of None \<Rightarrow> st = [] | Some u \<Rightarrow> MarshalTime u = Some st \<and> time_wf u"
  shows "parseRequest r =
    (\<lparr>lr_name = n, lr_namespace = ns, lr_instance = i, lr_since = since, lr_tail = int t, lr_follow = f\<rparr>, None)"
proof -
  have "Atoi (dec t) = (int t, None)" using ParseInt_dec [OF assms(2)] by (simp only: Atoi_ParseInt)
  moreover have "dec t \<noteq> []" using dec_digits [of t] by simp
  moreover have "fst (ParseBool (show_bool f)) = f" by (simp add: ParseBool_def show_bool_def)
  moreover have "st \<noteq> []" "time_Parse st = Some u" if "since = Some u" for u
  proof -
    show "time_Parse st = Some u" using assms(3) that time_roundtrip by (simp add: time_wf_def)
    then show "st \<noteq> []" by (auto simp: time_Parse_def getnum_def)
  qed
  ultimately show ?thesis using assms(3)
    by (cases since) (simp_all add: parseRequest_def assms(1) logQuery_parse getValue_def Let_def)
qed

definition log_query_request :: "string \<Rightarrow> request" where
  "log_query_request q = \<lparr>rq_method = ''GET'', rq_url = no_url\<lparr>u_path := ''/system/logs'', u_raw_query := q\<rparr>,
     rq_header = (\<lambda>_. None), rq_host = ''gateway'', rq_remote_addr = ''10.0.0.1:9'', rq_body = None, rq_vars = (\<lambda>_. None)\<rparr>"

theorem parseRequest_roundtrip_witness:
  "parseRequest (log_query_request (logQuery ''fig let'' ''a&b'' [] 10 True ''2019-02-16T09:10:06.5+01:00'')) =
    (\<lparr>lr_name = ''fig let'', lr_namespace = ''a&b'', lr_instance = [],
      lr_since = Some \<lparr>tm_sec = 1550304606, tm_nsec = 500000000, tm_offset = 3600\<rparr>, lr_tail = int 10, lr_follow = True\<rparr>, None)"
proof -
  have "MarshalTime \<lparr>tm_sec = 1550304606, tm_nsec = 500000000, tm_offset = 3600\<rparr> = Some ''2019-02-16T09:10:06.5+01:00''"
    by code_simp
  then show ?thesis
    by (intro parseRequest_roundtrip [where st = "''2019-02-16T09:10:06.5+01:00''"])
      (simp_all add: log_query_request_def no_url_def time_wf_def)
qed

text \<open>
  The string of a log request does not identify it: two requests that differ in
  name and namespace are printed alike.
\<close>

theorem Request_String_collision:
  "let a = \<lparr>lr_name = ''f namespace: g'', lr_namespace = ''h'', lr_instance = i, lr_since = s, lr_tail = t, lr_follow = b\<rparr>;
       c = \<lparr>lr_name = ''f'', lr_namespace = ''g namespace: h'', lr_instance = i, lr_since = s, lr_tail = t, lr_follow = b\<rparr>
   in a \<noteq> c \<and> Request_String fmt a = Request_String fmt c"
  by (simp add: Request_String_def)

subsection \<open>Streaming\<close>

definition lines :: "log_message list \<Rightarrow> string" where
  "lines ms = concat (map (\<lambda>m. the (encodeMessage m) @ newline) ms)"

text \<open>A response that has begun to stream.\<close>

definition streaming :: "header \<Rightarrow> string \<Rightarrow> server_writer \<Rightarrow> bool" where
  "streaming h d w \<longleftrightarrow> sw_sent w = Some (200, h) \<and> \<not> sw_hijacked w \<and> contentLimit h = None \<and> sw_body w = d"

lemma streaming_flush: "streaming h d w \<Longrightarrow> sw_Flush w = (Done (), w)"
  by (auto simp: streaming_def sw_Flush_def sw_WriteHeader_def)

lemma streaming_write:
  assumes "streaming h d w"
  shows "\<exists>w'. sw_Write b w = (Done (int (length b), None), w') \<and> streaming h (d @ b) w'"
  using assms by (auto simp: streaming_def sw_Write_def sw_WriteHeader_def sw_WriteData_def bodyAllowed_def Let_def)

lemma streaming_Encode:
  assumes "streaming h d w" and "encodeMessage m = Some b"
  shows "\<exists>w'. Encode server_ops m (False, w) = (Done False, False, w') \<and> streaming h (d @ b @ newline) w'"
proof -
  from streaming_write [OF assms(1), of "b @ newline"] obtain w' where
    "sw_Write (b @ newline) w = (Done (int (length (b @ newline)), None), w')" "streaming h (d @ b @ newline) w'" by auto
  then show ?thesis using assms(2) by (simp add: Encode_def sw_ok_simps)
qed

lemma streamLoop_messages:
  assumes "streaming h d w" and "\<forall>m \<in> set ms. encodeMessage m \<noteq> None"
  shows "\<exists>w'. streamLoop server_ops sw_Flush (map Received ms @ es) (False, w) =
      streamLoop server_ops sw_Flush es (False, w') \<and> streaming h (d @ lines ms) w'"
  using assms
proof (induction ms arbitrary: d w)
  case Nil
  then show ?case by (auto simp: lines_def)
next
  case (Cons m ms)
  then obtain b where b: "encodeMessage m = Some b" by auto
  from streaming_Encode [OF Cons.prems(1) b] obtain w1 where
    w1: "Encode server_ops m (False, w) = (Done False, False, w1)" "streaming h (d @ b @ newline) w1" by blast
  from Cons.IH [OF w1(2)] Cons.prems(2) obtain w2 where
    "streamLoop server_ops sw_Flush (map Received ms @ es) (False, w1) = streamLoop server_ops sw_Flush es (False, w2)"
    "streaming h ((d @ b @ newline) @ lines ms) w2" by auto
  with w1(1) b streaming_flush [OF w1(2)] show ?case by (auto simp: flushStream_def lines_def)
qed

lemma streaming_start:
  assumes "sw_sent w = None" and "\<not> sw_hijacked w" and "contentLimit (sw_header w) = None"
  shows "\<exists>w'. sw_WriteHeader 200 (w\<lparr>sw_header := streamHeader (sw_header w)\<rparr>) = (Done (), w') \<and>
    streaming (streamHeader (sw_header w)) (sw_body w) w'"
proof -
  have "contentLimit (streamHeader (sw_header w)) = None"
    using assms(3) by (simp add: streamHeader_def contentLimit_def header_Get_Set)
  then show ?thesis using assms by (simp add: sw_WriteHeader_def streaming_def)
qed

lemma streaming_close:
  assumes "streaming h d w"
  shows "\<exists>w'. closeStream server_ops sw_Flush w = (Done (), w') \<and> streaming h d w'"
proof -
  from streaming_write [OF assms, of "[]"] obtain w1 where
    w1: "sw_Write [] w = (Done (0, None), w1)" "streaming h d w1" by auto
  then show ?thesis
    using streaming_flush [OF assms] streaming_flush [OF w1(2)] by (simp add: closeStream_def sw_ok_simps)
qed

text \<open>A log request that the handler accepts, and the events it then receives.\<close>

definition log_stream ::
    "(log_request \<Rightarrow> string + log_event list option) \<Rightarrow> request \<Rightarrow>
     log_event list \<Rightarrow> bool" where
  "log_stream query r events \<longleftrightarrow>
     snd (parseRequest r) = None \<and> query (fst (parseRequest r)) = Inr (Some events)"

lemma handler_stream:
  assumes "log_stream query r events" and "sw_sent w = None" and "\<not> sw_hijacked w"
    and "contentLimit (sw_header w) = None"
  shows "\<exists>w1. streaming (streamHeader (sw_header w)) (sw_body w) w1 \<and>
    NewLogHandlerFunc server_ops query r w =
      (case streamLoop server_ops sw_Flush events (False, w1) of
         (Done Waiting, b, w) \<Rightarrow> (Done Waiting, w)
       | (Done Returned, b, w) \<Rightarrow> finishWith Returned (closeStream server_ops sw_Flush w)
       | (Panics p, b, w) \<Rightarrow> (case closeStream server_ops sw_Flush w of (_, w) \<Rightarrow> (Panics p, w)))"
proof -
  obtain q where "parseRequest r = (q, None)" "query q = Inr (Some events)"
    using assms(1) by (cases "parseRequest r") (auto simp: log_stream_def)
  moreover obtain w1 where "sw_WriteHeader 200 (w\<lparr>sw_header := streamHeader (sw_header w)\<rparr>) = (Done (), w1)"
    "streaming (streamHeader (sw_header w)) (sw_body w) w1"
    using streaming_start [OF assms(2-4)] by blast
  moreover from this(2) have "sw_Flush w1 = (Done (), w1)" by (rule streaming_flush)
  moreover have "w_close_notifier server_ops = Some (\<lambda>w. True)" by (simp add: server_ops_def)
  ultimately show ?thesis
    by (intro exI [of _ w1]) (simp add: NewLogHandlerFunc_def sw_ok_simps receivable_def)
qed

lemma log_stream_body:
  assumes "log_stream query r (map Received ms @ rest)"
    and "rest = [] \<or> hd rest \<in> {StreamClosed, ClientGone}"
    and "\<forall>m \<in> set ms. encodeMessage m \<noteq> None"
    and "sw_sent w = None" and "\<not> sw_hijacked w" and "contentLimit (sw_header w) = None"
  shows "\<exists>w'. NewLogHandlerFunc server_ops query r w =
      (Done (if rest = [] then Waiting else Returned), w') \<and>
    sw_sent w' = Some (200, streamHeader (sw_header w)) \<and> sw_body w' = sw_body w @ lines ms"
proof -
  obtain w1 where w1: "streaming (streamHeader (sw_header w)) (sw_body w) w1"
    and h: "NewLogHandlerFunc server_ops query r w =
      (case streamLoop server_ops sw_Flush (map Received ms @ rest) (False, w1) of
         (Done Waiting, b, w) \<Rightarrow> (Done Waiting, w)
       | (Done Returned, b, w) \<Rightarrow> finishWith Returned (closeStream server_ops sw_Flush w)
       | (Panics p, b, w) \<Rightarrow> (case closeStream server_ops sw_Flush w of (_, w) \<Rightarrow> (Panics p, w)))"
    using handler_stream [OF assms(1,4-6)] by blast
  obtain w2 where w2: "streamLoop server_ops sw_Flush (map Received ms @ rest) (False, w1) =
      streamLoop server_ops sw_Flush rest (False, w2)"
    "streaming (streamHeader (sw_header w)) (sw_body w @ lines ms) w2"
    using streamLoop_messages [OF w1 assms(3)] by blast
  obtain w3 where "closeStream server_ops sw_Flush w2 = (Done (), w3)"
    "streaming (streamHeader (sw_header w)) (sw_body w @ lines ms) w3"
    using streaming_close [OF w2(2)] by blast
  with h w2 assms(2) show ?thesis
    by (cases rest) (auto simp: finishWith_def streaming_def)
qed

text \<open>The client's side: one message per line.\<close>

definition no_message :: log_message where
  "no_message = \<lparr>lm_name = [], lm_namespace = [], lm_instance = [], lm_timestamp = zero_time, lm_text = []\<rparr>"

definition readMessages :: "string \<Rightarrow> log_message option list" where
  "readMessages s =
     map (\<lambda>l. json_Unmarshal (dec_struct Message_fields) l no_message) (filter (\<lambda>l. l \<noteq> []) (splitOn (CHR 0x0A) s))"

definition message_typed :: "log_message \<Rightarrow> bool" where
  "message_typed m \<longleftrightarrow> valid_utf8 (lm_name m) \<and> valid_utf8 (lm_namespace m) \<and> valid_utf8 (lm_instance m) \<and>
     time_wf (lm_timestamp m) \<and> valid_utf8 (lm_text m)"

definition message_ok :: "log_message \<Rightarrow> bool" where
  "message_ok m \<longleftrightarrow> message_typed m \<and> time_ok (lm_timestamp m)"

definition message_copies :: "(log_message \<Rightarrow> log_message \<Rightarrow> log_message) list" where
  "message_copies =
     [copy_field always (\<lambda>v old. v) lm_name lm_name_update,
      copy_field always (\<lambda>v old. v) lm_namespace lm_namespace_update,
      copy_field always (\<lambda>v old. v) lm_instance lm_instance_update,
      copy_field always (\<lambda>v old. v) lm_timestamp lm_timestamp_update,
      copy_field always (\<lambda>v old. v) lm_text lm_text_update]"

interpretation message: json_struct Message_fields message_copies message_ok message_typed 0
proof unfold_locales
  show "distinct (map fd_name Message_fields)" by (simp add: Message_fields_def)
qed (unfold Message_fields_def message_copies_def, intro list.rel_intros string.field_law time_codec.field_law,
    simp_all add: message_ok_def message_typed_def valid_utf8.simps)

lemma canon_message: "canon_struct message_copies m no_message = m"
  by (simp add: canon_struct_def message_copies_def copy_field_def no_message_def pick_simps)

lemma message_line:
  assumes "message_ok m"
  shows "\<exists>b. encodeMessage m = Some b \<and> b \<noteq> [] \<and> CHR 0x0A \<notin> set b \<and>
    json_Unmarshal (dec_struct Message_fields) b no_message = Some m"
proof -
  obtain b where b: "encodeMessage m = Some b" "json_Unmarshal (dec_struct Message_fields) b no_message = Some m"
    using message.roundtrip [OF assms, of no_message] by (auto simp: encodeMessage_def canon_message maxNestingDepth_def)
  obtain t where "MarshalTime (lm_timestamp m) = Some t" using assms by (auto simp: message_ok_def time_ok_def)
  then have "b = json_print (JStruct [(''name'', JStr (lm_name m)), (''namespace'', JStr (lm_namespace m)),
      (''instance'', JStr (lm_instance m)), (''timestamp'', JStr t), (''text'', JStr (lm_text m))])"
    using b(1) by (simp add: encodeMessage_def json_Marshal_def enc_struct_def Message_fields_def always_def enc_time_def
        del: json_print.simps split: if_splits)
  then have "b \<noteq> []" "CHR 0x0A \<notin> set b" using json_string_line by simp_all
  with b show ?thesis by blast
qed

lemma read_lines:
  assumes "\<forall>m \<in> set ms. message_ok m"
  shows "readMessages (lines ms) = map Some ms"
  using assms
proof (induction ms)
  case Nil
  then show ?case by (simp add: readMessages_def lines_def)
next
  case (Cons m ms)
  obtain b where b: "encodeMessage m = Some b" "b \<noteq> []" "CHR 0x0A \<notin> set b"
    "json_Unmarshal (dec_struct Message_fields) b no_message = Some m"
    using message_line [of m] Cons.prems by auto
  have "lines (m # ms) = b @ CHR 0x0A # lines ms" by (simp add: lines_def b(1) newline_def)
  with splitOn_app [OF b(3)] b(2,4) Cons show ?case by (simp add: readMessages_def)
qed

text \<open>
  Property C23: the client of a log stream gets the messages up to the first end of the
  stream, in their order and one line each, with status 200, and reads back exactly the messages
  that were logged; the handler returns at the end of the stream or when the client goes away,
  and waits otherwise.
\<close>

theorem log_stream_lines:
  assumes "log_stream query r (map Received ms @ rest)"
    and "rest = [] \<or> hd rest \<in> {StreamClosed, ClientGone}" and "\<forall>m \<in> set ms. message_ok m"
    and "sw_sent w = None" and "\<not> sw_hijacked w" and "contentLimit (sw_header w) = None"
  shows "\<exists>w'. NewLogHandlerFunc server_ops query r w = (Done (if rest = [] then Waiting else Returned), w') \<and>
    sw_sent w' = Some (200, streamHeader (sw_header w)) \<and> sw_body w' = sw_body w @ lines ms \<and>
    readMessages (lines ms) = map Some ms"
proof -
  have "\<forall>m \<in> set ms. encodeMessage m \<noteq> None" using assms(3) message_line by fastforce
  from log_stream_body [OF assms(1,2) this assms(4-6)] read_lines [OF assms(3)] show ?thesis by auto
qed

definition example_message :: log_message where
  "example_message = \<lparr>lm_name = ''f'', lm_namespace = [], lm_instance = ''i'', lm_timestamp = zero_time, lm_text = ''hi''\<rparr>"

text \<open>An offset of a day cannot be written.\<close>

definition late_message :: log_message where
  "late_message = example_message\<lparr>lm_timestamp := zero_time\<lparr>tm_offset := 86400\<rparr>\<rparr>"

theorem log_stream_lines_witness:
  "\<exists>w'. NewLogHandlerFunc server_ops (\<lambda>q. Inr (Some [Received example_message, ClientGone])) (log_query_request []) newResponse =
      (Done Returned, w') \<and>
    sw_body w' = lines [example_message] \<and> readMessages (sw_body w') = [Some example_message]"
proof -
  have "log_stream (\<lambda>q. Inr (Some [Received example_message, ClientGone])) (log_query_request [])
      (map Received [example_message] @ [ClientGone])"
    by (simp add: log_stream_def parseRequest_def log_query_request_def no_url_def ParseQuery_def queryStep_def
        getValue_def Let_def)
  moreover have "message_ok example_message" using example_times
    by (simp add: message_ok_def message_typed_def example_message_def time_ok_def time_wf_def zero_time_def valid_utf8.simps)
  ultimately show ?thesis
    using log_stream_lines [of "\<lambda>q. Inr (Some [Received example_message, ClientGone])" "log_query_request []"
        "[example_message]" "[ClientGone]" newResponse]
    by (auto simp: newResponse_def contentLimit_def header_Get_def header_Values_def)
qed

text \<open>
  A message that cannot be encoded ends the stream after a line that says so,
  even if more messages follow.
\<close>

theorem log_stream_failure:
  assumes "log_stream query r (map Received ms @ Received m # rest)"
    and "\<forall>m \<in> set ms. encodeMessage m \<noteq> None" and "encodeMessage m = None"
    and "sw_sent w = None" and "\<not> sw_hijacked w" and "contentLimit (sw_header w) = None"
  shows "\<exists>w'. NewLogHandlerFunc server_ops query r w = (Done Returned, w') \<and>
    sw_sent w' = Some (200, streamHeader (sw_header w)) \<and>
    sw_body w' = sw_body w @ lines (ms @ [serializeFailure])"
proof -
  obtain w1 where w1: "streaming (streamHeader (sw_header w)) (sw_body w) w1"
    and h: "NewLogHandlerFunc server_ops query r w =
      (case streamLoop server_ops sw_Flush (map Received ms @ Received m # rest) (False, w1) of
         (Done Waiting, b, w) \<Rightarrow> (Done Waiting, w)
       | (Done Returned, b, w) \<Rightarrow> finishWith Returned (closeStream server_ops sw_Flush w)
       | (Panics p, b, w) \<Rightarrow> (case closeStream server_ops sw_Flush w of (_, w) \<Rightarrow> (Panics p, w)))"
    using handler_stream [OF assms(1,4-6)] by blast
  obtain w2 where w2: "streamLoop server_ops sw_Flush (map Received ms @ Received m # rest) (False, w1) =
      streamLoop server_ops sw_Flush (Received m # rest) (False, w2)"
    "streaming (streamHeader (sw_header w)) (sw_body w @ lines ms) w2"
    using streamLoop_messages [OF w1 assms(2)] by blast
  have "encodeMessage serializeFailure \<noteq> None" unfolding encodeMessage_eq by (simp add: serializeFailure_def example_times)
  then obtain b where b: "encodeMessage serializeFailure = Some b" by blast
  obtain w3 where w3: "Encode server_ops serializeFailure (False, w2) = (Done False, False, w3)"
    "streaming (streamHeader (sw_header w)) ((sw_body w @ lines ms) @ b @ newline) w3"
    using streaming_Encode [OF w2(2) b] by blast
  obtain w4 where w4: "closeStream server_ops sw_Flush w3 = (Done (), w4)"
    "streaming (streamHeader (sw_header w)) ((sw_body w @ lines ms) @ b @ newline) w4"
    using streaming_close [OF w3(2)] by blast
  have "Encode server_ops m (False, w2) = (Done True, False, w2)" using assms(3) by (simp add: Encode_def)
  then have "streamLoop server_ops sw_Flush (Received m # rest) (False, w2) = (Done Returned, False, w3)"
    using w3(1) streaming_flush [OF w3(2)] by (simp add: flushStream_def)
  with h w2(1) w4 b show ?thesis by (auto simp: finishWith_def streaming_def lines_def)
qed

theorem log_stream_failure_witness:
  "\<exists>w'. NewLogHandlerFunc server_ops
      (\<lambda>q. Inr (Some [Received late_message, Received example_message]))
      (log_query_request []) newResponse = (Done Returned, w') \<and>
    sw_body w' = lines [serializeFailure]"
proof -
  have "log_stream (\<lambda>q. Inr (Some [Received late_message, Received example_message])) (log_query_request [])
      (map Received [] @ Received late_message # [Received example_message])"
    by (simp add: log_stream_def parseRequest_def log_query_request_def no_url_def ParseQuery_def queryStep_def
        getValue_def Let_def)
  moreover have "MarshalTime (lm_timestamp late_message) = None"
    by (simp add: late_message_def example_message_def example_times)
  then have "encodeMessage late_message = None" using encodeMessage_eq by metis
  ultimately show ?thesis
    using log_stream_failure [of _ _ "[]" late_message "[Received example_message]" newResponse]
    by (auto simp: newResponse_def contentLimit_def header_Get_def header_Values_def)
qed

text \<open>
  A request that cannot be parsed gets a 422, a failed query a 500, and a writer
  that cannot stream a 404; nothing is streamed and the logging system is asked only in the
  second case.
\<close>

theorem log_request_errors:
  assumes "sw_sent w = None" and "\<not> sw_hijacked w"
  shows "(snd (parseRequest r) \<noteq> None \<longrightarrow>
      (\<exists>w' h. NewLogHandlerFunc server_ops query r w = (Done Returned, w') \<and>
        sw_sent w' = Some (422, h) \<and> sw_body w' = sw_body w @ ''could not parse the log request'' @ newline)) \<and>
    (snd (parseRequest r) = None \<and> query (fst (parseRequest r)) = Inl e \<longrightarrow>
      (\<exists>w' h. NewLogHandlerFunc server_ops query r w = (Done Returned, w') \<and>
        sw_sent w' = Some (500, h) \<and> sw_body w' = sw_body w @ ''function log request failed'' @ newline)) \<and>
    (\<exists>w' h. NewLogHandlerFunc (server_ops\<lparr>w_flusher := None\<rparr>) query r w = (Done Returned, w') \<and>
        sw_sent w' = Some (404, h) \<and> sw_body w' = sw_body w @ ''404 page not found'' @ newline)"
proof -
  have err: "\<exists>w'. http_Error server_ops msg code w = (Done (), w') \<and>
      sw_sent w' = Some (code, error_header (sw_header w)) \<and> sw_body w' = sw_body w @ msg @ newline"
    if "code \<in> {404, 422, 500}" for msg code
    using server.http_Error_response [of w code msg] assms that by (auto simp: bodyAllowed_def sw_ok_simps)
  have "http_Error (server_ops\<lparr>w_flusher := None\<rparr>) = http_Error server_ops"
    by (simp add: fun_eq_iff http_Error_def)
  then show ?thesis
    using err [of 422 "''could not parse the log request''"] err [of 500 "''function log request failed''"]
      err [of 404 "''404 page not found''"]
    by (cases "parseRequest r")
      (auto simp: NewLogHandlerFunc_def server_ops_def finishWith_def NotFound_def Errorf_def split: option.splits)
qed

theorem log_request_errors_witness:
  "\<exists>w' h. NewLogHandlerFunc server_ops (\<lambda>q. Inl ''offline'')
      (log_query_request ''tail=ten'') newResponse = (Done Returned, w') \<and>
    sw_sent w' = Some (422, h) \<and> sw_body w' = sw_body newResponse @ ''could not parse the log request'' @ newline"
proof -
  have "snd (parseRequest (log_query_request ''tail=ten'')) \<noteq> None" by code_simp
  then show ?thesis
    using log_request_errors [of newResponse "log_query_request ''tail=ten''"
        "\<lambda>q. Inl ''offline''" "''offline''"]
    by (simp add: newResponse_def)
qed

end
