(* ===== verification/Server.thy ===== *)
theory Server
  imports Auth Logs FaasConfig
begin

text \<open>
  src/metrics.go and src/serve.go: the middleware that records requests, and the routes and
  settings with which the provider's HTTP server is started.

  Prometheus is represented by what is reported to it. The router of gorilla/mux is
  represented by the list of its routes in the order of registration; matching a request is
  left to that library. In the table a handler is described by the wrappers around the
  field of \<open>FaaSHandlers\<close> it comes from.
\<close>

subsection \<open>Recording requests\<close>

type_synonym labels = "string \<times> string \<times> string"

record httpMetrics =
  hm_requests_total :: "labels list"
  hm_request_duration :: "(labels \<times> float64) list"

definition newHttpMetrics :: httpMetrics where
  "newHttpMetrics = \<lparr>hm_requests_total = [], hm_request_duration = []\<rparr>"

text \<open>
  The deferred observations are registered after the handler has returned: nothing is
  recorded when it panics.
\<close>

definition InstrumentHandler ::
    "('x \<Rightarrow> instant \<times> 'x) \<Rightarrow> ('w HttpWriteInterceptor \<times> 'x) handler \<Rightarrow> string \<Rightarrow> ('w \<times> 'x \<times> httpMetrics) handler" where
  "InstrumentHandler now nxt pathOverride r s =
     (case s of (w, x, hm) \<Rightarrow>
        let (start, x) = now x;
            ww = NewHttpWriteInterceptor w
        in case nxt r (ww, x) of
             (Panics m, ww, x) \<Rightarrow> (Panics m, ic_writer ww, x, hm)
           | (Done _, ww, x) \<Rightarrow>
               (let (stop, x) = now x;
                    duration = time_sub stop start;
                    path = (if 0 < length pathOverride then pathOverride else u_path (rq_url r));
                    labels = (itoa (Status ww), rq_method r, path);
                    hm = hm\<lparr>hm_request_duration := hm_request_duration hm @ [(labels, duration_seconds duration)]\<rparr>;
                    hm = hm\<lparr>hm_requests_total := hm_requests_total hm @ [labels]\<rparr>
                in (Done (), ic_writer ww, x, hm)))"

text \<open>A handler that makes these calls on its writer.\<close>

definition calls_handler :: "call list \<Rightarrow> (server_writer HttpWriteInterceptor \<times> 'x) handler" where
  "calls_handler cs r s = (case run_calls (interceptor_ops server_ops) cs (fst s) of (res, c) \<Rightarrow> (res, c, snd s))"

text \<open>
  An instrumented handler answers the client as it would without
  instrumentation, and exactly one request is counted and timed, under the status that the
  client receives, if the handler sends at most one final status.
\<close>

theorem InstrumentHandler_records:
  assumes "header_once False cs" and "now x = (t1, x1)" and "now x1 = (t2, x2)"
  shows "\<exists>w'. InstrumentHandler now (calls_handler cs) override r (newResponse, x, hm) =
      (let labels = (itoa (case sw_sent w' of None \<Rightarrow> 200 | Some (code, _) \<Rightarrow> code), rq_method r,
             if override = [] then u_path (rq_url r) else override)
       in (Done (), w', x2, hm\<lparr>hm_requests_total := hm_requests_total hm @ [labels],
            hm_request_duration := hm_request_duration hm @ [(labels, duration_seconds (time_sub t2 t1))]\<rparr>)) \<and>
    run_calls server_ops cs newResponse = (Done (), w')"
proof -
  obtain c where c: "run_calls (interceptor_ops server_ops) cs (NewHttpWriteInterceptor newResponse) = (Done (), c)"
    "Status c = (case sw_sent (ic_writer c) of None \<Rightarrow> 200 | Some (code, _) \<Rightarrow> code)"
    using ic_calls_status [of "NewHttpWriteInterceptor newResponse" cs] assms(1)
    by (auto simp: NewHttpWriteInterceptor_def newResponse_def)
  have "run_calls server_ops cs newResponse = (Done (), ic_writer c)"
    using run_calls_transparent [of cs "NewHttpWriteInterceptor newResponse"] c(1)
    by (simp add: prod_eq_iff) (simp add: NewHttpWriteInterceptor_def)
  with c assms(2,3) show ?thesis
    by (intro exI [of _ "ic_writer c"]) (simp add: InstrumentHandler_def calls_handler_def Let_def)
qed

theorem InstrumentHandler_records_witness:
  "\<exists>w'. InstrumentHandler (\<lambda>n. (n, n + second)) (calls_handler [WriteHeaderCall 404, WriteCall ''no'']) ''/system/info''
      plain_request (newResponse, 0, newHttpMetrics) =
      (let labels = (itoa (case sw_sent w' of None \<Rightarrow> 200 | Some (code, _) \<Rightarrow> code), ''GET'', ''/system/info'')
       in (Done (), w', 2 * second, newHttpMetrics\<lparr>hm_requests_total := [labels],
            hm_request_duration := [(labels, duration_seconds (time_sub second 0))]\<rparr>))"
  using InstrumentHandler_records [of "[WriteHeaderCall 404, WriteCall ''no'']" "\<lambda>n. (n, n + second)" 0 0 second second
      "2 * second" "''/system/info''" plain_request newHttpMetrics]
  by (auto simp: plain_request_def newHttpMetrics_def)

text \<open>
  A request whose handler panics leaves no trace in the metrics.
\<close>

theorem InstrumentHandler_panic_unrecorded:
  assumes "fst (nxt r (NewHttpWriteInterceptor w, snd (now x))) = Panics m"
  shows "\<exists>w' x'. InstrumentHandler now nxt override r (w, x, hm) = (Panics m, w', x', hm)"
  using assms
  by (cases "now x"; cases "nxt r (NewHttpWriteInterceptor w, snd (now x))") (auto simp: InstrumentHandler_def Let_def)

theorem InstrumentHandler_panic_unrecorded_witness:
  "\<exists>w' x'. InstrumentHandler (\<lambda>n. (n, n)) (calls_handler [WriteHeaderCall 0]) [] plain_request (newResponse, 0, newHttpMetrics) =
     (Panics ''invalid WriteHeader code'', w', x', newHttpMetrics)"
  by (rule InstrumentHandler_panic_unrecorded)
    (simp add: calls_handler_def sw_ok_simps ic_WriteHeader_def sw_WriteHeader_def NewHttpWriteInterceptor_def
      newResponse_def put_writer_def)

subsection \<open>Handlers and routes\<close>

datatype handler_expr =
    Field string
  | BasicAuthed BasicAuthCredentials "handler_expr option"
  | Instrumented "handler_expr option" string
  | NotImplementedHandler
  | MetricsHandler

text \<open>\<open>None\<close> is a nil \<open>http.HandlerFunc\<close>.\<close>

record FaaSHandlers =
  hd_list_namespaces :: "handler_expr option"
  hd_mutate_namespace :: "handler_expr option"
  hd_function_proxy :: "handler_expr option"
  hd_flows :: "handler_expr option"
  hd_flow_proxy :: "handler_expr option"
  hd_flow_reader :: "handler_expr option"
  hd_function_lister :: "handler_expr option"
  hd_deploy_function :: "handler_expr option"
  hd_update_function :: "handler_expr option"
  hd_delete_function :: "handler_expr option"
  hd_function_status :: "handler_expr option"
  hd_scale_function :: "handler_expr option"
  hd_secrets :: "handler_expr option"
  hd_logs :: "handler_expr option"
  hd_health :: "handler_expr option"
  hd_info :: "handler_expr option"
  hd_telemetry :: "handler_expr option"

definition protect :: "BasicAuthCredentials \<Rightarrow> FaaSHandlers \<Rightarrow> FaaSHandlers" where
  "protect c h =
     (let a = (\<lambda>f. Some (BasicAuthed c f));
          h = h\<lparr>hd_function_lister := a (hd_function_lister h), hd_deploy_function := a (hd_deploy_function h),
                hd_delete_function := a (hd_delete_function h), hd_update_function := a (hd_update_function h),
                hd_function_status := a (hd_function_status h), hd_scale_function := a (hd_scale_function h),
                hd_info := a (hd_info h), hd_secrets := a (hd_secrets h), hd_logs := a (hd_logs h)\<rparr>
      in if hd_telemetry h \<noteq> None then h\<lparr>hd_telemetry := a (hd_telemetry h)\<rparr> else h)"

record route =
  rt_path :: string
  rt_methods :: "string list option"
  rt_handler :: "handler_expr option"

definition NameExpression :: string where "NameExpression = ''-a-zA-Z_0-9.''"

definition named :: "string \<Rightarrow> string" where
  "named rest = ''{name:['' @ NameExpression @ '']'' @ rest"

definition instrument :: "handler_expr option \<Rightarrow> string \<Rightarrow> handler_expr option" where
  "instrument h path = Some (Instrumented h path)"

definition route_for :: "string \<Rightarrow> handler_expr option \<Rightarrow> string list option \<Rightarrow> route" where
  "route_for path h methods = \<lparr>rt_path = path, rt_methods = methods, rt_handler = h\<rparr>"

definition routes :: "FaaSHandlers \<Rightarrow> route list" where
  "routes h =
     [route_for ''/system/functions'' (instrument (hd_function_lister h) []) (Some [''GET'']),
      route_for ''/system/functions'' (instrument (hd_deploy_function h) []) (Some [''POST'']),
      route_for ''/system/functions'' (instrument (hd_delete_function h) []) (Some [''DELETE'']),
      route_for ''/system/functions'' (instrument (hd_update_function h) []) (Some [''PUT'']),
      route_for (''/system/function/'' @ named ''+}'') (instrument (hd_function_status h) ''/system/function'') (Some [''GET'']),
      route_for (''/system/scale-function/'' @ named ''+}'') (instrument (hd_scale_function h) ''/system/scale-function'')
        (Some [''POST'']),
      route_for ''/system/info'' (instrument (hd_info h) []) (Some [''GET'']),
      route_for ''/system/secrets'' (instrument (hd_secrets h) []) (Some [''GET'', ''PUT'', ''POST'', ''DELETE'']),
      route_for ''/system/logs'' (instrument (hd_logs h) []) (Some [''GET'']),
      route_for ''/system/namespaces'' (instrument (hd_list_namespaces h) []) (Some [''GET'']),
      route_for ''/system/flows'' (hd_flows h) None,
      (if hd_mutate_namespace h \<noteq> None
       then route_for (''/system/namespace/'' @ named ''*}'') (instrument (hd_mutate_namespace h) [])
         (Some [''POST'', ''DELETE'', ''PUT'', ''GET''])
       else route_for (''/system/namespace/'' @ named ''*}'') (instrument (Some NotImplementedHandler) []) (Some [''GET''])),
      route_for (''/function/'' @ named ''+}'') (hd_function_proxy h) None,
      route_for (''/function/'' @ named ''+}/'') (hd_function_proxy h) None,
      route_for (''/function/'' @ named ''+}/{params:.*}'') (hd_function_proxy h) None,
      route_for (''/flow/'' @ named ''+}'') (hd_flow_proxy h) None,
      route_for (''/flow/'' @ named ''+}/'') (hd_flow_proxy h) None,
      route_for (''/flow/'' @ named ''+}/{params:.*}'') (hd_flow_proxy h) None] @
     (if hd_health h \<noteq> None then [route_for ''/healthz'' (hd_health h) (Some [''GET''])] else []) @
     (if hd_telemetry h \<noteq> None
      then [route_for ''/system/telemetry'' (instrument (hd_telemetry h) []) (Some [''GET''])] else []) @
     [route_for ''/metrics'' (Some MetricsHandler) None]"

record http_server =
  hs_addr :: string
  hs_read_timeout :: duration
  hs_write_timeout :: duration
  hs_max_header_bytes :: goint
  hs_handler :: "route list"

datatype serve_result = Fatal credentials_error | Serving http_server

definition DefaultMaxHeaderBytes :: goint where "DefaultMaxHeaderBytes = 1048576"

definition Serve :: "(string \<Rightarrow> string option) \<Rightarrow> FaaSHandlers \<Rightarrow> faas_config \<Rightarrow> serve_result" where
  "Serve fs handlers config =
     (case (if fc_enable_basic_auth config
            then (case credentials_Read fs \<lparr>rb_secret_mount_path = fc_secret_mount_path config,
                        rb_user_filename = [], rb_password_filename = []\<rparr> of
                    Inl err \<Rightarrow> Inl err
                  | Inr credentials \<Rightarrow> Inr (protect credentials handlers))
            else Inr handlers) of
        Inl err \<Rightarrow> Fatal err
      | Inr handlers \<Rightarrow>
          (let port = (case fc_tcp_port config of None \<Rightarrow> 8080 | Some p \<Rightarrow> p)
           in Serving \<lparr>hs_addr = '':'' @ itoa port, hs_read_timeout = fc_read_timeout config,
                hs_write_timeout = fc_write_timeout config, hs_max_header_bytes = DefaultMaxHeaderBytes,
                hs_handler = routes handlers\<rparr>))"

text \<open>
  What happens next: the listener may return, which is fatal unless the server was closed, and
  the end of the context shuts the server down and lets \<open>Serve\<close> return.
\<close>

datatype server_event = ListenReturns bool | ContextDone
datatype server_end = Crashed | ShutDown | Running

fun serveEvents :: "server_event list \<Rightarrow> server_end" where
  "serveEvents [] = Running"
| "serveEvents (ListenReturns isClosed # es) = (if isClosed then serveEvents es else Crashed)"
| "serveEvents (ContextDone # es) = ShutDown"

subsection \<open>Properties of the route table\<close>

fun authenticated :: "handler_expr option \<Rightarrow> bool" where
  "authenticated (Some (Instrumented h path)) \<longleftrightarrow> (\<exists>c g. h = Some (BasicAuthed c g))"
| "authenticated _ \<longleftrightarrow> False"

text \<open>The routes of the API that basic authentication leaves open.\<close>

definition open_paths :: "string set" where
  "open_paths = {''/system/namespaces'', ''/system/flows'', ''/system/namespace/'' @ named ''*}''}"

text \<open>Handlers as a program passes them in: its own functions.\<close>

fun own :: "handler_expr option \<Rightarrow> bool" where
  "own None \<longleftrightarrow> True"
| "own (Some (Field n)) \<longleftrightarrow> True"
| "own _ \<longleftrightarrow> False"

definition unwrapped :: "FaaSHandlers \<Rightarrow> bool" where
  "unwrapped h \<longleftrightarrow> own (hd_list_namespaces h) \<and> own (hd_mutate_namespace h) \<and> own (hd_flows h) \<and>
     own (hd_function_proxy h) \<and> own (hd_flow_proxy h) \<and> own (hd_health h)"

lemma own_open: "own f \<Longrightarrow> \<not> authenticated f \<and> f \<noteq> Some (BasicAuthed c g)"
  by (cases f rule: own.cases) auto

text \<open>
  Property C7: with basic authentication on, a server that starts has read the credentials, and
  it checks them on every route under \<open>/system/\<close> except exactly the two namespace routes and
  the flow list: namespaces can be created and deleted without credentials.
\<close>

theorem Serve_auth_coverage:
  assumes "fc_enable_basic_auth config" and "Serve fs handlers config = Serving s" and "unwrapped handlers"
    and "rt \<in> set (hs_handler s)"
  shows "authenticated (rt_handler rt) \<longleftrightarrow> prefix ''/system/'' (rt_path rt) \<and> rt_path rt \<notin> open_paths"
proof -
  obtain c where "hs_handler s = routes (protect c handlers)"
    using assms(1,2) by (auto simp: Serve_def Let_def split: sum.splits)
  with assms(4) have "rt \<in> set (routes (protect c handlers))" by simp
  moreover have "list_all (\<lambda>rt. authenticated (rt_handler rt) \<longleftrightarrow> prefix ''/system/'' (rt_path rt) \<and> rt_path rt \<notin> open_paths)
      (routes (protect c handlers))"
    using assms(3)
    by (simp add: routes_def route_for_def protect_def instrument_def open_paths_def named_def NameExpression_def
        unwrapped_def Let_def own_open)
  ultimately show ?thesis by (simp add: list_all_iff)
qed

definition example_handlers :: FaaSHandlers where
  "example_handlers =
     (let f = (\<lambda>n. Some (Field n)) in
      \<lparr>hd_list_namespaces = f ''ListNamespaces'', hd_mutate_namespace = f ''MutateNamespace'',
       hd_function_proxy = f ''FunctionProxy'', hd_flows = f ''Flows'', hd_flow_proxy = f ''FlowProxy'',
       hd_flow_reader = None, hd_function_lister = f ''FunctionLister'', hd_deploy_function = f ''DeployFunction'',
       hd_update_function = f ''UpdateFunction'', hd_delete_function = f ''DeleteFunction'',
       hd_function_status = f ''FunctionStatus'', hd_scale_function = f ''ScaleFunction'', hd_secrets = f ''Secrets'',
       hd_logs = f ''Logs'', hd_health = None, hd_info = f ''Info'', hd_telemetry = None\<rparr>)"

definition secure_config :: faas_config where
  "secure_config = example_config\<lparr>fc_enable_basic_auth := True, fc_secret_mount_path := ''/run/secrets/''\<rparr>"

lemma Serve_protected:
  assumes "fc_enable_basic_auth config" and "fc_secret_mount_path config \<noteq> []" and "\<forall>p. \<exists>d. fs p = Some d"
  shows "\<exists>c s. Serve fs handlers config = Serving s \<and> hs_handler s = routes (protect c handlers)"
  using assms(3) [rule_format, of "path_Join (fc_secret_mount_path config) ''basic-auth-user''"]
    assms(3) [rule_format, of "path_Join (fc_secret_mount_path config) ''basic-auth-password''"] assms(1,2)
  by (auto simp: Serve_def credentials_Read_def Let_def)

theorem Serve_auth_coverage_witness:
  "\<exists>s rt. Serve (\<lambda>_. Some ''x'') example_handlers secure_config = Serving s \<and> rt \<in> set (hs_handler s) \<and>
     rt_path rt = ''/system/functions'' \<and> authenticated (rt_handler rt)"
proof -
  have on: "fc_enable_basic_auth secure_config" "fc_secret_mount_path secure_config \<noteq> []"
    by (simp_all add: secure_config_def)
  then obtain c s where s: "Serve (\<lambda>_. Some ''x'') example_handlers secure_config = Serving s"
    "hs_handler s = routes (protect c example_handlers)"
    using Serve_protected [of secure_config "\<lambda>_. Some ''x''" example_handlers] by auto
  let ?rt = "hd (hs_handler s)"
  have rt: "?rt \<in> set (hs_handler s)" "rt_path ?rt = ''/system/functions''"
    by (simp_all add: s(2) routes_def route_for_def)
  have "unwrapped example_handlers" by (simp add: unwrapped_def example_handlers_def)
  from Serve_auth_coverage [OF on(1) s(1) this rt(1)] rt(2) have "authenticated (rt_handler ?rt)"
    by (simp add: open_paths_def)
  with s(1) rt show ?thesis by blast
qed

subsection \<open>A request to a protected route\<close>

text \<open>A writer next to what else the handlers see.\<close>

definition pair_ops :: "'w writer \<Rightarrow> ('w \<times> 'x) writer" where
  "pair_ops ops =
     \<lparr>w_header = (\<lambda>(w, x). w_header ops w), w_set_header = (\<lambda>h (w, x). (w_set_header ops h w, x)),
      w_write = (\<lambda>d (w, x). case w_write ops d w of (res, w) \<Rightarrow> (res, w, x)),
      w_write_header = (\<lambda>code (w, x). case w_write_header ops code w of (res, w) \<Rightarrow> (res, w, x)),
      w_flusher = map_option (\<lambda>fl (w, x). case fl w of (res, w) \<Rightarrow> (res, w, x)) (w_flusher ops),
      w_hijacker = map_option (\<lambda>hj (w, x). case hj w of (res, w) \<Rightarrow> (res, w, x)) (w_hijacker ops),
      w_close_notifier = map_option (\<lambda>cn (w, x). cn w) (w_close_notifier ops)\<rparr>"

lemma run_calls_pair: "run_calls (pair_ops ops) cs (w, x) = (case run_calls ops cs w of (res, w) \<Rightarrow> (res, w, x))"
proof (induction cs arbitrary: w)
  case (Cons c cs)
  then show ?case
    by (cases c) (auto simp: pair_ops_def then_do_def split: prod.splits outcome.splits option.splits)
qed simp

text \<open>
  What a handler of the table does: the fields are functions of the program (\<open>app\<close>), a nil one
  panics when it is called. The handlers that are registered without the instrumentation are
  \<open>direct\<close>.
\<close>

fun run_handler ::
    "(handler_expr \<Rightarrow> (server_writer HttpWriteInterceptor \<times> 'x) handler) \<Rightarrow> handler_expr option \<Rightarrow>
     (server_writer HttpWriteInterceptor \<times> 'x) handler" where
  "run_handler app None = (\<lambda>r s. (Panics ''invalid memory address or nil pointer dereference'', s))"
| "run_handler app (Some (BasicAuthed credentials nxt)) =
     DecorateWithBasicAuth (pair_ops (interceptor_ops server_ops)) (run_handler app nxt) credentials"
| "run_handler app (Some NotImplementedHandler) =
     (\<lambda>r. http_Error (pair_ops (interceptor_ops server_ops)) ''Feature not implemented in this version of OpenFaaS'' 501)"
| "run_handler app (Some h) = app h"

definition serve_route ::
    "(handler_expr \<Rightarrow> (server_writer HttpWriteInterceptor \<times> 'x) handler) \<Rightarrow>
     (handler_expr option \<Rightarrow> (server_writer \<times> 'x \<times> httpMetrics) handler) \<Rightarrow> ('x \<Rightarrow> instant \<times> 'x) \<Rightarrow>
     route \<Rightarrow> (server_writer \<times> 'x \<times> httpMetrics) handler" where
  "serve_route app direct now rt =
     (case rt_handler rt of
        Some (Instrumented h pathOverride) \<Rightarrow> InstrumentHandler now (run_handler app h) pathOverride
      | h \<Rightarrow> direct h)"

lemma InstrumentHandler_cong:
  "nxt r (NewHttpWriteInterceptor w, snd (now x)) = nxt' r (NewHttpWriteInterceptor w, snd (now x)) \<Longrightarrow>
   InstrumentHandler now nxt override r (w, x, hm) = InstrumentHandler now nxt' override r (w, x, hm)"
  by (cases "now x") (simp add: InstrumentHandler_def Let_def)

lemma Decorate_denied_calls:
  assumes "BasicAuth r \<noteq> Some (cr_user c, cr_password c)"
  shows "DecorateWithBasicAuth ops nxt c r w =
    run_calls ops [SetHeader (header_Set ''WWW-Authenticate'' ''Basic realm=\"Restricted\"'' (w_header ops w)),
      WriteHeaderCall 401, WriteCall ''invalid credentials''] w"
proof -
  have "run_calls ops [] = Pair (Done ())" by (rule ext) simp
  then have "run_calls ops [WriteCall d] = (\<lambda>w. then_do (w_write ops d w) (\<lambda>_. Pair (Done ())))" for d
    by (intro ext) simp
  then show ?thesis using assms by (simp add: Decorate_cases)
qed

lemma itoa_401: "itoa 401 = ''401''"
  by code_simp

text \<open>A handler behind the credentials, instrumented.\<close>

lemma instrumented_denial:
  assumes "BasicAuth r \<noteq> Some (cr_user c, cr_password c)"
  shows "\<exists>w'. InstrumentHandler now (DecorateWithBasicAuth (pair_ops (interceptor_ops server_ops)) nxt c) override r
      (newResponse, x, hm) =
      (let labels = (''401'', rq_method r, if override = [] then u_path (rq_url r) else override);
           (t1, x1) = now x; (t2, x2) = now x1
       in (Done (), w', x2, hm\<lparr>hm_requests_total := hm_requests_total hm @ [labels],
            hm_request_duration := hm_request_duration hm @ [(labels, duration_seconds (time_sub t2 t1))]\<rparr>)) \<and>
    turned_away (Done (), w') newResponse"
proof -
  obtain t1 x1 t2 x2 where now: "now x = (t1, x1)" "now x1 = (t2, x2)" by fastforce
  let ?v = "''Basic realm=\"Restricted\"''"
  let ?cs = "[SetHeader (header_Set ''WWW-Authenticate'' ?v (sw_header newResponse)), WriteHeaderCall 401,
    WriteCall ''invalid credentials'']"
  let ?deny = "DecorateWithBasicAuth (pair_ops (interceptor_ops server_ops)) nxt c"
  have "w_header (pair_ops (interceptor_ops server_ops)) (NewHttpWriteInterceptor newResponse, x1) = sw_header newResponse"
    by (simp add: pair_ops_def ic_Header_def NewHttpWriteInterceptor_def sw_ok_simps)
  then have "?deny r (NewHttpWriteInterceptor newResponse, snd (now x)) =
      calls_handler ?cs r (NewHttpWriteInterceptor newResponse, snd (now x))"
    unfolding Decorate_denied_calls [OF assms] calls_handler_def now(1) snd_conv fst_conv run_calls_pair by simp
  then have calls: "InstrumentHandler now ?deny override r (newResponse, x, hm) =
      InstrumentHandler now (calls_handler ?cs) override r (newResponse, x, hm)"
    by (rule InstrumentHandler_cong)
  obtain w' where w': "InstrumentHandler now (calls_handler ?cs) override r (newResponse, x, hm) =
      (let labels = (itoa (case sw_sent w' of None \<Rightarrow> 200 | Some (code, _) \<Rightarrow> code), rq_method r,
             if override = [] then u_path (rq_url r) else override)
       in (Done (), w', x2, hm\<lparr>hm_requests_total := hm_requests_total hm @ [labels],
            hm_request_duration := hm_request_duration hm @ [(labels, duration_seconds (time_sub t2 t1))]\<rparr>))"
    "run_calls server_ops ?cs newResponse = (Done (), w')"
    using InstrumentHandler_records [of ?cs now x t1 x1 t2 x2 override r hm] now by auto
  have away: "turned_away (Done (), w') newResponse"
    using Decorate_denies [OF newResponse_open assms, of nxt'] w'(2) Decorate_denied_calls [OF assms, of server_ops nxt' newResponse]
    by (simp add: sw_ok_simps)
  then have "itoa (case sw_sent w' of None \<Rightarrow> 200 | Some (code, _) \<Rightarrow> code) = ''401''"
    using itoa_401 by (auto simp: turned_away_def)
  with w'(1) away calls now show ?thesis by (auto simp: Let_def)
qed

text \<open>The table with authentication and the table without, route by route.\<close>

definition guarded_by :: "BasicAuthCredentials \<Rightarrow> route \<Rightarrow> route \<Rightarrow> bool" where
  "guarded_by c rt rt0 \<longleftrightarrow> rt_path rt = rt_path rt0 \<and> rt_methods rt = rt_methods rt0 \<and>
     (prefix ''/system/'' (rt_path rt) \<and> rt_path rt \<notin> open_paths \<longrightarrow>
        (\<exists>h path. rt_handler rt = Some (Instrumented (Some (BasicAuthed c h)) path) \<and>
           rt_handler rt0 = Some (Instrumented h path)))"

lemma routes_guarded: "list_all2 (guarded_by c) (routes (protect c h)) (routes h)"
  by (simp add: routes_def route_for_def protect_def instrument_def open_paths_def named_def NameExpression_def
      guarded_by_def Let_def)

text \<open>
  Property C14: what the server does with a request to a protected route, with the middleware,
  the instrumentation and the table put together. A request with other credentials than those
  on disk, or none, is turned away with a 401: no handler runs, the clock apart nothing
  changes, and it is counted and timed exactly once, under 401. With the credentials
  the answer, the metrics and all effects are those of the same route on a server without
  authentication.
\<close>

theorem protected_route:
  assumes "fc_enable_basic_auth config" and "Serve fs handlers config = Serving s" and "rt \<in> set (hs_handler s)"
    and "prefix ''/system/'' (rt_path rt)" and "rt_path rt \<notin> open_paths"
  shows "\<exists>c rt0 override g.
    credentials_Read fs \<lparr>rb_secret_mount_path = fc_secret_mount_path config, rb_user_filename = [],
      rb_password_filename = []\<rparr> = Inr c \<and>
    rt0 \<in> set (routes handlers) \<and> rt_path rt0 = rt_path rt \<and> rt_methods rt0 = rt_methods rt \<and>
    rt_handler rt0 = Some (Instrumented g override) \<and>
    (\<forall>r x hm.
       if BasicAuth r = Some (cr_user c, cr_password c)
       then serve_route app direct now rt r (newResponse, x, hm) = serve_route app direct now rt0 r (newResponse, x, hm)
       else \<exists>w'. serve_route app direct now rt r (newResponse, x, hm) =
           (let labels = (''401'', rq_method r, if override = [] then u_path (rq_url r) else override);
                (t1, x1) = now x; (t2, x2) = now x1
            in (Done (), w', x2, hm\<lparr>hm_requests_total := hm_requests_total hm @ [labels],
                 hm_request_duration := hm_request_duration hm @ [(labels, duration_seconds (time_sub t2 t1))]\<rparr>)) \<and>
         turned_away (Done (), w') newResponse)"
proof -
  obtain c where c: "credentials_Read fs \<lparr>rb_secret_mount_path = fc_secret_mount_path config, rb_user_filename = [],
      rb_password_filename = []\<rparr> = Inr c" and s: "hs_handler s = routes (protect c handlers)"
    using assms(1,2) by (auto simp: Serve_def Let_def split: sum.splits)
  obtain i where i: "i < length (routes (protect c handlers))" "rt = routes (protect c handlers) ! i"
    using assms(3) s by (auto simp: in_set_conv_nth)
  define rt0 where "rt0 = routes handlers ! i"
  then have rt0: "rt0 \<in> set (routes handlers)" "guarded_by c rt rt0"
    using list_all2_nthD [OF routes_guarded i(1)] list_all2_lengthD [OF routes_guarded [of c handlers]] i by auto
  then obtain h path where h: "rt_handler rt = Some (Instrumented (Some (BasicAuthed c h)) path)"
      "rt_handler rt0 = Some (Instrumented h path)" "rt_path rt0 = rt_path rt" "rt_methods rt0 = rt_methods rt"
    using assms(4,5) by (auto simp: guarded_by_def)
  have "if BasicAuth r = Some (cr_user c, cr_password c)
      then serve_route app direct now rt r (newResponse, x, hm) = serve_route app direct now rt0 r (newResponse, x, hm)
      else \<exists>w'. serve_route app direct now rt r (newResponse, x, hm) =
        (let labels = (''401'', rq_method r, if path = [] then u_path (rq_url r) else path);
             (t1, x1) = now x; (t2, x2) = now x1
         in (Done (), w', x2, hm\<lparr>hm_requests_total := hm_requests_total hm @ [labels],
              hm_request_duration := hm_request_duration hm @ [(labels, duration_seconds (time_sub t2 t1))]\<rparr>)) \<and>
        turned_away (Done (), w') newResponse" for r x hm
    using instrumented_denial [of r c now "run_handler app h" path x hm] h(1,2)
    by (auto simp: serve_route_def Decorate_cases intro!: InstrumentHandler_cong)
  with c rt0(1) h(2,3,4) show ?thesis by blast
qed

theorem protected_route_witness:
  "\<exists>s rt w'. Serve (\<lambda>_. Some ''x'') example_handlers secure_config = Serving s \<and> rt \<in> set (hs_handler s) \<and>
     rt_path rt = ''/system/functions'' \<and>
     fst (serve_route (\<lambda>h r s. (Panics ''reached'', s)) (\<lambda>h r s. (Panics ''reached'', s)) (\<lambda>n. (n, n + second)) rt
       plain_request (newResponse, 0, newHttpMetrics)) = Done () \<and>
     fst (snd (serve_route (\<lambda>h r s. (Panics ''reached'', s)) (\<lambda>h r s. (Panics ''reached'', s)) (\<lambda>n. (n, n + second)) rt
       plain_request (newResponse, 0, newHttpMetrics))) = w' \<and> turned_away (Done (), w') newResponse"
proof -
  have on: "fc_enable_basic_auth secure_config" "fc_secret_mount_path secure_config \<noteq> []"
    by (simp_all add: secure_config_def)
  then obtain c s where s: "Serve (\<lambda>_. Some ''x'') example_handlers secure_config = Serving s"
    "hs_handler s = routes (protect c example_handlers)"
    using Serve_protected [of secure_config "\<lambda>_. Some ''x''" example_handlers] by auto
  let ?rt = "hd (hs_handler s)"
  have rt: "?rt \<in> set (hs_handler s)" "rt_path ?rt = ''/system/functions''"
    by (simp_all add: s(2) routes_def route_for_def)
  have none: "BasicAuth plain_request = None"
    by (simp add: BasicAuth_def plain_request_def header_Get_def header_Values_def)
  let ?stop = "\<lambda>h r s. (Panics ''reached'', s)"
  have path: "prefix ''/system/'' (rt_path ?rt)" "rt_path ?rt \<notin> open_paths" by (simp_all add: rt(2) open_paths_def)
  have "fst (serve_route ?stop ?stop (\<lambda>n. (n, n + second)) ?rt plain_request (newResponse, 0, newHttpMetrics)) = Done () \<and>
      turned_away (Done (), fst (snd (serve_route ?stop ?stop (\<lambda>n. (n, n + second)) ?rt plain_request
        (newResponse, 0, newHttpMetrics)))) newResponse"
    by (insert protected_route [OF on(1) s(1) rt(1) path, of ?stop ?stop "\<lambda>n. (n, n + second)"], elim exE conjE, drule spec [of _ plain_request], drule spec [of _ 0], drule spec [of _ newHttpMetrics])
      (auto simp: Let_def none)
  with s(1) rt show ?thesis by blast
qed

definition disjoint_routes :: "route \<Rightarrow> route \<Rightarrow> bool" where
  "disjoint_routes a b \<longleftrightarrow>
     rt_path a \<noteq> rt_path b \<or>
     (case (rt_methods a, rt_methods b) of (Some m, Some n) \<Rightarrow> set m \<inter> set n = {} | _ \<Rightarrow> False)"

text \<open>
  No route hides another: two routes of the table with the same path share no
  method.
\<close>

theorem routes_unambiguous:
  "sorted_wrt disjoint_routes (routes h)"
  by (simp add: routes_def route_for_def disjoint_routes_def named_def NameExpression_def)

text \<open>
  The server does not start without credentials when they are required, and a
  configuration read from the environment gives it the configured port and timeouts.
\<close>

theorem Serve_start:
  "(fc_enable_basic_auth config \<and> fs (path_Join (fc_secret_mount_path config) ''basic-auth-user'') = None \<longrightarrow>
     (\<exists>e. Serve fs handlers config = Fatal e)) \<and>
   (Read getenv = Inr config \<and> getenv ''basic_auth'' \<noteq> ''true'' \<longrightarrow>
     (\<exists>s. Serve fs handlers config = Serving s \<and> hs_handler s = routes handlers \<and>
        hs_addr s = '':'' @ itoa (ParseIntValue (getenv ''port'') 8080) \<and>
        hs_read_timeout s = ParseIntOrDurationValue (getenv ''read_timeout'') (10 * second) \<and>
        hs_write_timeout s = ParseIntOrDurationValue (getenv ''write_timeout'') (10 * second)))"
  by (auto simp: Serve_def credentials_Read_def Read_def ParseBoolValue_def Let_def mult.commute split: option.splits)

theorem Serve_start_witness:
  "\<exists>s config. Read (\<lambda>_. []) = Inr config \<and> Serve (\<lambda>_. None) example_handlers config = Serving s \<and>
     hs_handler s = routes example_handlers"
proof -
  obtain config where c: "Read (\<lambda>_. []) = Inr config" by (simp add: Read_def readConns_def Let_def)
  then show ?thesis
    using Serve_start [of config "\<lambda>_. None" example_handlers "\<lambda>_. []"] by auto
qed

end
