(* ===== verification/Types.thy ===== *)
theory Types
  imports Codec
begin

text \<open>
  The messages of the provider's API, src/types: the structs with the tags of their fields, what
  \<open>json.Marshal\<close> and \<open>json.Unmarshal\<close> make of them, and what a message loses on the way.
  \<open>None\<close> stands for nil.
\<close>

subsection \<open>Deployments\<close>

record FunctionResources =
  fr_memory :: string
  fr_cpu :: string
  fr_nvidia_gpu :: string
  fr_amd_gpu :: string
  fr_intel_gpu :: string

definition FunctionResources_fields :: "FunctionResources field list" where
  "FunctionResources_fields =
     [field ''memory'' empty_string JStr dec_string fr_memory fr_memory_update,
      field ''cpu'' empty_string JStr dec_string fr_cpu fr_cpu_update,
      field ''nvidia.com/gpu'' empty_string JStr dec_string fr_nvidia_gpu fr_nvidia_gpu_update,
      field ''amd.com/gpu'' empty_string JStr dec_string fr_amd_gpu fr_amd_gpu_update,
      field ''intel.com/gpu'' empty_string JStr dec_string fr_intel_gpu fr_intel_gpu_update]"

definition no_resources :: FunctionResources where
  "no_resources = \<lparr>fr_memory = [], fr_cpu = [], fr_nvidia_gpu = [], fr_amd_gpu = [], fr_intel_gpu = []\<rparr>"

definition enc_resources :: "FunctionResources option \<Rightarrow> json" where
  "enc_resources = enc_ptr (enc_struct FunctionResources_fields)"

definition dec_resources :: "json_tree \<Rightarrow> FunctionResources option \<Rightarrow> FunctionResources option option" where
  "dec_resources = dec_ptr (dec_struct FunctionResources_fields) no_resources"

record FunctionDeployment =
  dp_service :: string
  dp_image :: string
  dp_namespace :: string
  dp_env_process :: string
  dp_env_vars :: "(string, string) gomap option"
  dp_constraints :: "string list option"
  dp_secrets :: "string list option"
  dp_labels :: "(string, string) gomap option option"
  dp_annotations :: "(string, string) gomap option option"
  dp_limits :: "FunctionResources option"
  dp_requests :: "FunctionResources option"
  dp_read_only_root_filesystem :: bool

definition FunctionDeployment_fields :: "FunctionDeployment field list" where
  "FunctionDeployment_fields =
     [field ''service'' always JStr dec_string dp_service dp_service_update,
      field ''image'' always JStr dec_string dp_image dp_image_update,
      field ''namespace'' empty_string JStr dec_string dp_namespace dp_namespace_update,
      field ''envProcess'' empty_string JStr dec_string dp_env_process dp_env_process_update,
      field ''envVars'' empty_list (enc_map JStr) (dec_map dec_string []) dp_env_vars dp_env_vars_update,
      field ''constraints'' empty_list (enc_slice JStr) (dec_slice dec_string []) dp_constraints dp_constraints_update,
      field ''secrets'' empty_list (enc_slice JStr) (dec_slice dec_string []) dp_secrets dp_secrets_update,
      field ''labels'' is_nil (enc_ptr (enc_map JStr)) (dec_ptr (dec_map dec_string []) None) dp_labels dp_labels_update,
      field ''annotations'' is_nil (enc_ptr (enc_map JStr)) (dec_ptr (dec_map dec_string []) None)
        dp_annotations dp_annotations_update,
      field ''limits'' is_nil enc_resources dec_resources dp_limits dp_limits_update,
      field ''requests'' is_nil enc_resources dec_resources dp_requests dp_requests_update,
      field ''readOnlyRootFilesystem'' Not JBool dec_bool dp_read_only_root_filesystem dp_read_only_root_filesystem_update]"

definition no_deployment :: FunctionDeployment where
  "no_deployment = \<lparr>dp_service = [], dp_image = [], dp_namespace = [], dp_env_process = [], dp_env_vars = None,
     dp_constraints = None, dp_secrets = None, dp_labels = None, dp_annotations = None, dp_limits = None,
     dp_requests = None, dp_read_only_root_filesystem = False\<rparr>"

text \<open>Messages whose texts are UTF-8.\<close>

definition resources_ok :: "FunctionResources \<Rightarrow> bool" where
  "resources_ok r \<longleftrightarrow> valid_utf8 (fr_memory r) \<and> valid_utf8 (fr_cpu r) \<and> valid_utf8 (fr_nvidia_gpu r) \<and>
     valid_utf8 (fr_amd_gpu r) \<and> valid_utf8 (fr_intel_gpu r)"

definition deployment_ok :: "FunctionDeployment \<Rightarrow> bool" where
  "deployment_ok d \<longleftrightarrow> valid_utf8 (dp_service d) \<and> valid_utf8 (dp_image d) \<and> valid_utf8 (dp_namespace d) \<and>
     valid_utf8 (dp_env_process d) \<and> ok_map valid_utf8 (dp_env_vars d) \<and> ok_slice valid_utf8 (dp_constraints d) \<and>
     ok_slice valid_utf8 (dp_secrets d) \<and> pred_option (ok_map valid_utf8) (dp_labels d) \<and>
     pred_option (ok_map valid_utf8) (dp_annotations d) \<and> pred_option resources_ok (dp_limits d) \<and>
     pred_option resources_ok (dp_requests d)"

subsection \<open>Deployments survive\<close>

definition resources_copies :: "(FunctionResources \<Rightarrow> FunctionResources \<Rightarrow> FunctionResources) list" where
  "resources_copies =
     [copy_field empty_string (\<lambda>v old. v) fr_memory fr_memory_update,
      copy_field empty_string (\<lambda>v old. v) fr_cpu fr_cpu_update,
      copy_field empty_string (\<lambda>v old. v) fr_nvidia_gpu fr_nvidia_gpu_update,
      copy_field empty_string (\<lambda>v old. v) fr_amd_gpu fr_amd_gpu_update,
      copy_field empty_string (\<lambda>v old. v) fr_intel_gpu fr_intel_gpu_update]"

interpretation resources: json_struct FunctionResources_fields resources_copies resources_ok resources_ok 0
proof unfold_locales
  show "distinct (map fd_name FunctionResources_fields)" by (simp add: FunctionResources_fields_def)
qed (unfold FunctionResources_fields_def resources_copies_def, intro list.rel_intros string.field_law,
    simp_all add: resources_ok_def valid_utf8.simps)

lemma resources_same: "canon_struct resources_copies r no_resources = r"
  by (simp add: canon_struct_def resources_copies_def copy_field_def no_resources_def pick_simps)

interpretation resources_element: json_element "enc_struct FunctionResources_fields" "dec_struct FunctionResources_fields"
  resources_ok resources_ok "canon_struct resources_copies" 1 no_resources
  using resources.json_codec_axioms
  by (intro json_element.intro) (auto simp: json_element_axioms_def no_resources_def resources_ok_def valid_utf8.simps)

lemma resources_ptr_same:
  "pick is_nil (canon_ptr (enc_struct fs) (canon_struct resources_copies) no_resources) p None = p"
  by (cases p) (simp_all add: pick_def is_nil_def canon_ptr_def enc_struct_def resources_same)

abbreviation canon_strings :: "(string, string) gomap option \<Rightarrow> (string, string) gomap option \<Rightarrow> (string, string) gomap option" where
  "canon_strings \<equiv> canon_map (\<lambda>v old. v) []"

abbreviation canon_strings_ptr ::
    "(string, string) gomap option option \<Rightarrow> (string, string) gomap option option \<Rightarrow> (string, string) gomap option option" where
  "canon_strings_ptr \<equiv> canon_ptr (enc_map JStr) canon_strings None"

abbreviation canon_resources_ptr :: "FunctionResources option \<Rightarrow> FunctionResources option \<Rightarrow> FunctionResources option" where
  "canon_resources_ptr \<equiv> canon_ptr (enc_struct FunctionResources_fields) (canon_struct resources_copies) no_resources"

definition deployment_copies :: "(FunctionDeployment \<Rightarrow> FunctionDeployment \<Rightarrow> FunctionDeployment) list" where
  "deployment_copies =
     [copy_field always (\<lambda>v old. v) dp_service dp_service_update,
      copy_field always (\<lambda>v old. v) dp_image dp_image_update,
      copy_field empty_string (\<lambda>v old. v) dp_namespace dp_namespace_update,
      copy_field empty_string (\<lambda>v old. v) dp_env_process dp_env_process_update,
      copy_field empty_list canon_strings dp_env_vars dp_env_vars_update,
      copy_field empty_list (canon_slice (\<lambda>v old. v) []) dp_constraints dp_constraints_update,
      copy_field empty_list (canon_slice (\<lambda>v old. v) []) dp_secrets dp_secrets_update,
      copy_field is_nil canon_strings_ptr dp_labels dp_labels_update,
      copy_field is_nil canon_strings_ptr dp_annotations dp_annotations_update,
      copy_field is_nil canon_resources_ptr dp_limits dp_limits_update,
      copy_field is_nil canon_resources_ptr dp_requests dp_requests_update,
      copy_field Not (\<lambda>v old. v) dp_read_only_root_filesystem dp_read_only_root_filesystem_update]"

lemmas part_laws =
  string.field_law string.map.field_law string.slice.field_law string_map.ptr.field_law string_list.map.field_law
  bool_codec.field_law uint64_codec.field_law int64_codec.field_law float64_codec.field_law
  bytes_codec.field_law time_codec.field_law resources_element.ptr.field_law

lemmas ok_simps = valid_utf8.simps ok_map_def ok_slice_def

interpretation deployment: json_struct FunctionDeployment_fields deployment_copies deployment_ok deployment_ok 2
proof unfold_locales
  show "distinct (map fd_name FunctionDeployment_fields)" by (simp add: FunctionDeployment_fields_def)
qed (unfold FunctionDeployment_fields_def deployment_copies_def enc_resources_def dec_resources_def,
    intro list.rel_intros part_laws, simp_all add: deployment_ok_def valid_utf8.simps)

text \<open>What arrives of a deployment: empty lists and maps as nil, maps with their keys sorted.\<close>

definition normal_deployment :: "FunctionDeployment \<Rightarrow> FunctionDeployment" where
  "normal_deployment d =
     d\<lparr>dp_env_vars := normal_map (dp_env_vars d), dp_constraints := normal_list (dp_constraints d),
       dp_secrets := normal_list (dp_secrets d), dp_labels := normal_map_ptr (dp_labels d),
       dp_annotations := normal_map_ptr (dp_annotations d)\<rparr>"

lemma canon_deployment:
  assumes "deployment_ok d"
  shows "canon_struct deployment_copies d no_deployment = normal_deployment d"
  using assms pick_simps(7,8) [of valid_utf8] unfolding deployment_ok_def
  by (simp add: canon_struct_def deployment_copies_def copy_field_def no_deployment_def normal_deployment_def
      pick_simps(1-6) resources_ptr_same)

text \<open>
  Property C10: a deployment survives the API: any deployment whose texts are UTF-8 has a JSON
  text, and decoding the text gives it back, but for empty lists and maps that come back nil
  and the order of the entries of maps.
\<close>

theorem deployment_roundtrip:
  assumes "deployment_ok d"
  shows "\<exists>s. json_Marshal (enc_struct FunctionDeployment_fields d) = Some s \<and>
    json_Unmarshal (dec_struct FunctionDeployment_fields) s no_deployment = Some (normal_deployment d)"
  using deployment.roundtrip [OF assms, of no_deployment] canon_deployment [OF assms] by (simp add: maxNestingDepth_def)

text \<open>The JSON types of the members of a deployment, by the names of the tags in lower case.\<close>

definition resource_types :: "(string \<times> (json_tree \<Rightarrow> bool)) list" where
  "resource_types =
     [(''memory'', null_or is_text), (''cpu'', null_or is_text), (''nvidia.com/gpu'', null_or is_text),
      (''amd.com/gpu'', null_or is_text), (''intel.com/gpu'', null_or is_text)]"

definition deployment_types :: "(string \<times> (json_tree \<Rightarrow> bool)) list" where
  "deployment_types =
     (let texts = array_of (null_or is_text); labels = object_of (\<lambda>k. null_or is_text);
          resources = object_of (typed_member resource_types)
      in [(''service'', null_or is_text), (''image'', null_or is_text), (''namespace'', null_or is_text),
          (''envprocess'', null_or is_text), (''envvars'', null_or labels), (''constraints'', null_or texts),
          (''secrets'', null_or texts), (''labels'', null_or labels), (''annotations'', null_or labels),
          (''limits'', null_or resources), (''requests'', null_or resources), (''readonlyrootfilesystem'', null_or is_truth)])"

lemmas string_accepts = accepts_string accepts_slice [OF accepts_string] accepts_map [OF accepts_string]
  accepts_ptr [OF accepts_map [OF accepts_string]] accepts_bool

lemma accepts_resources: "accepts (dec_struct FunctionResources_fields) (null_or (object_of (typed_member resource_types)))"
proof (rule accepts_typed)
  show "list_all2 field_type FunctionResources_fields resource_types"
    unfolding FunctionResources_fields_def resource_types_def
    by (intro list.rel_intros field_type_field string_accepts) code_simp+
qed (simp add: resource_types_def)

lemma accepts_deployment: "accepts (dec_struct FunctionDeployment_fields) (null_or (object_of (typed_member deployment_types)))"
proof (rule accepts_typed)
  show "list_all2 field_type FunctionDeployment_fields deployment_types"
    unfolding FunctionDeployment_fields_def deployment_types_def Let_def dec_resources_def
    by (intro list.rel_intros field_type_field string_accepts accepts_ptr [OF accepts_resources]) code_simp+
qed (simp add: deployment_types_def Let_def)

text \<open>The deployment that the members of an object make of another one.\<close>

definition deployment_of :: "(string \<times> json_tree) list \<Rightarrow> FunctionDeployment \<Rightarrow> FunctionDeployment" where
  "deployment_of kts d =
     (let texts = dec_slice dec_string []; labels = dec_map dec_string [] in
      \<lparr>dp_service = member_value dec_string ''service'' kts (dp_service d),
       dp_image = member_value dec_string ''image'' kts (dp_image d),
       dp_namespace = member_value dec_string ''namespace'' kts (dp_namespace d),
       dp_env_process = member_value dec_string ''envprocess'' kts (dp_env_process d),
       dp_env_vars = member_value labels ''envvars'' kts (dp_env_vars d),
       dp_constraints = member_value texts ''constraints'' kts (dp_constraints d),
       dp_secrets = member_value texts ''secrets'' kts (dp_secrets d),
       dp_labels = member_value (dec_ptr labels None) ''labels'' kts (dp_labels d),
       dp_annotations = member_value (dec_ptr labels None) ''annotations'' kts (dp_annotations d),
       dp_limits = member_value dec_resources ''limits'' kts (dp_limits d),
       dp_requests = member_value dec_resources ''requests'' kts (dp_requests d),
       dp_read_only_root_filesystem = member_value dec_bool ''readonlyrootfilesystem'' kts (dp_read_only_root_filesystem d)\<rparr>)"

lemma deployment_names:
  "map (\<lambda>f. fold_name (fd_name f)) FunctionDeployment_fields = map fst deployment_types"
  unfolding FunctionDeployment_fields_def deployment_types_def Let_def field_def list.map field.simps by code_simp

lemma deployment_members:
  assumes "fold_opt (dec_member FunctionDeployment_fields) kts d = Some d'"
  shows "d' = deployment_of kts d"
proof -
  have names: "distinct (map (\<lambda>f. fold_name (fd_name f)) FunctionDeployment_fields)"
    by (simp add: deployment_names) (simp add: deployment_types_def Let_def)
  note member = members_value [OF names _ _ _ _ assms]
  show ?thesis
    by (rule FunctionDeployment.equality; unfold deployment_of_def Let_def FunctionDeployment.simps;
        (rule member, (unfold FunctionDeployment_fields_def list.set)[1], (rule insertI1 | rule insertI2)+,
          simp, (auto simp: FunctionDeployment_fields_def field_def)[1], code_simp | simp))
qed

text \<open>
  Property C32: which texts are deployments, and what is read from them. A text is accepted if
  and only if it is JSON, null or an object in which every member with the name of a tag, in any
  case, is null or has the type of its field: a string, a boolean, an array of strings, an object
  of strings, or an object of resources. Each field gets the members with the name of its own tag,
  and no others: members with other names are ignored.
\<close>

theorem deployment_typed:
  "json_Unmarshal (dec_struct FunctionDeployment_fields) s d =
     (case json_value maxNestingDepth s of
        None \<Rightarrow> None
      | Some (t, r) \<Rightarrow>
          if skipSpace r = [] \<and> null_or (object_of (typed_member deployment_types)) t
          then Some (case t of TObj kts \<Rightarrow> deployment_of kts d | _ \<Rightarrow> d) else None)"
proof -
  have "dec_struct FunctionDeployment_fields t d =
      (if null_or (object_of (typed_member deployment_types)) t
       then Some (case t of TObj kts \<Rightarrow> deployment_of kts d | _ \<Rightarrow> d) else None)" for t
  proof (cases "dec_struct FunctionDeployment_fields t d")
    case None
    then show ?thesis by (simp add: accepts_None [OF accepts_deployment])
  next
    case (Some d')
    then show ?thesis using accepts_Some [OF accepts_deployment Some] deployment_members [of _ d d']
      by (auto simp: dec_struct_def split: json_tree.splits)
  qed
  then show ?thesis by (simp add: json_Unmarshal_def split: option.split)
qed

text \<open>
  A deployment with nothing but a service and an image has a text with just these
  two, as the test of the model expects.
\<close>

theorem minimal_deployment:
  "json_Marshal (enc_struct FunctionDeployment_fields (no_deployment\<lparr>dp_service := n, dp_image := i\<rparr>)) =
     Some (''{\"service\":'' @ json_string n @ '',\"image\":'' @ json_string i @ ''}'')"
proof -
  have "json_string ''service'' = ''\"service\"''" "json_string ''image'' = ''\"image\"''"
    by (simp_all add: json_string_def json_chars.simps json_ascii_def)
  then show ?thesis
    by (simp add: FunctionDeployment_fields_def no_deployment_def json_Marshal_def enc_struct_def always_def
        empty_string_def empty_list_def is_nil_def)
qed

subsection \<open>Status\<close>

record FunctionUsage =
  fu_cpu :: float64
  fu_total_memory_bytes :: float64

definition FunctionUsage_fields :: "FunctionUsage field list" where
  "FunctionUsage_fields =
     [field ''cpu'' (\<lambda>x. x = Fin 0) JNum dec_float64 fu_cpu fu_cpu_update,
      field ''totalMemoryBytes'' (\<lambda>x. x = Fin 0) JNum dec_float64 fu_total_memory_bytes fu_total_memory_bytes_update]"

definition no_usage :: FunctionUsage where
  "no_usage = \<lparr>fu_cpu = Fin 0, fu_total_memory_bytes = Fin 0\<rparr>"

record FunctionStatus =
  fs_name :: string
  fs_image :: string
  fs_namespace :: string
  fs_env_process :: string
  fs_env_vars :: "(string, string) gomap option"
  fs_constraints :: "string list option"
  fs_secrets :: "string list option"
  fs_labels :: "(string, string) gomap option option"
  fs_annotations :: "(string, string) gomap option option"
  fs_limits :: "FunctionResources option"
  fs_requests :: "FunctionResources option"
  fs_read_only_root_filesystem :: bool
  fs_invocation_count :: float64
  fs_replicas :: int
  fs_available_replicas :: int
  fs_created_at :: gotime
  fs_usage :: "FunctionUsage option"

text \<open>\<open>omitempty\<close> does not leave out a time: it is a struct.\<close>

definition FunctionStatus_fields :: "FunctionStatus field list" where
  "FunctionStatus_fields =
     [field ''name'' always JStr dec_string fs_name fs_name_update,
      field ''image'' always JStr dec_string fs_image fs_image_update,
      field ''namespace'' empty_string JStr dec_string fs_namespace fs_namespace_update,
      field ''envProcess'' empty_string JStr dec_string fs_env_process fs_env_process_update,
      field ''envVars'' empty_list (enc_map JStr) (dec_map dec_string []) fs_env_vars fs_env_vars_update,
      field ''constraints'' empty_list (enc_slice JStr) (dec_slice dec_string []) fs_constraints fs_constraints_update,
      field ''secrets'' empty_list (enc_slice JStr) (dec_slice dec_string []) fs_secrets fs_secrets_update,
      field ''labels'' is_nil (enc_ptr (enc_map JStr)) (dec_ptr (dec_map dec_string []) None) fs_labels fs_labels_update,
      field ''annotations'' is_nil (enc_ptr (enc_map JStr)) (dec_ptr (dec_map dec_string []) None)
        fs_annotations fs_annotations_update,
      field ''limits'' is_nil enc_resources dec_resources fs_limits fs_limits_update,
      field ''requests'' is_nil enc_resources dec_resources fs_requests fs_requests_update,
      field ''readOnlyRootFilesystem'' Not JBool dec_bool fs_read_only_root_filesystem fs_read_only_root_filesystem_update,
      field ''invocationCount'' (\<lambda>x. x = Fin 0) JNum dec_float64 fs_invocation_count fs_invocation_count_update,
      field ''replicas'' (\<lambda>n. n = 0) JInt dec_uint64 fs_replicas fs_replicas_update,
      field ''availableReplicas'' (\<lambda>n. n = 0) JInt dec_uint64 fs_available_replicas fs_available_replicas_update,
      field ''createdAt'' always enc_time dec_time fs_created_at fs_created_at_update,
      field ''usage'' is_nil (enc_ptr (enc_struct FunctionUsage_fields)) (dec_ptr (dec_struct FunctionUsage_fields) no_usage)
        fs_usage fs_usage_update]"

definition no_status :: FunctionStatus where
  "no_status = \<lparr>fs_name = [], fs_image = [], fs_namespace = [], fs_env_process = [], fs_env_vars = None,
     fs_constraints = None, fs_secrets = None, fs_labels = None, fs_annotations = None, fs_limits = None,
     fs_requests = None, fs_read_only_root_filesystem = False, fs_invocation_count = Fin 0, fs_replicas = 0,
     fs_available_replicas = 0, fs_created_at = zero_time, fs_usage = None\<rparr>"

definition usage_ok :: "FunctionUsage \<Rightarrow> bool" where
  "usage_ok u \<longleftrightarrow> json_float (fu_cpu u) \<and> json_float (fu_total_memory_bytes u)"

text \<open>What a decoder yields, and what has a text: the time must have a year of four digits.\<close>

definition status_typed :: "FunctionStatus \<Rightarrow> bool" where
  "status_typed s \<longleftrightarrow> valid_utf8 (fs_name s) \<and> valid_utf8 (fs_image s) \<and> valid_utf8 (fs_namespace s) \<and>
     valid_utf8 (fs_env_process s) \<and> ok_map valid_utf8 (fs_env_vars s) \<and> ok_slice valid_utf8 (fs_constraints s) \<and>
     ok_slice valid_utf8 (fs_secrets s) \<and> pred_option (ok_map valid_utf8) (fs_labels s) \<and>
     pred_option (ok_map valid_utf8) (fs_annotations s) \<and> pred_option resources_ok (fs_limits s) \<and>
     pred_option resources_ok (fs_requests s) \<and> json_float (fs_invocation_count s) \<and> uint64 (fs_replicas s) \<and>
     uint64 (fs_available_replicas s) \<and> time_wf (fs_created_at s) \<and> pred_option usage_ok (fs_usage s)"

definition status_ok :: "FunctionStatus \<Rightarrow> bool" where
  "status_ok s \<longleftrightarrow> status_typed s \<and> time_ok (fs_created_at s)"

definition usage_copies :: "(FunctionUsage \<Rightarrow> FunctionUsage \<Rightarrow> FunctionUsage) list" where
  "usage_copies =
     [copy_field (\<lambda>x. x = Fin 0) (\<lambda>v old. v) fu_cpu fu_cpu_update,
      copy_field (\<lambda>x. x = Fin 0) (\<lambda>v old. v) fu_total_memory_bytes fu_total_memory_bytes_update]"

interpretation usage: json_struct FunctionUsage_fields usage_copies usage_ok usage_ok 0
proof unfold_locales
  show "distinct (map fd_name FunctionUsage_fields)" by (simp add: FunctionUsage_fields_def)
qed (unfold FunctionUsage_fields_def usage_copies_def, intro list.rel_intros part_laws,
    simp_all add: usage_ok_def valid_utf8.simps)

lemma json_float_zero: "json_float (Fin 0)"
  by (simp add: json_float_def exact64_def)

lemma usage_same:
  "pick is_nil (canon_ptr (enc_struct fs) (canon_struct usage_copies) no_usage) p None = p"
  by (cases p) (simp_all add: pick_def is_nil_def canon_ptr_def enc_struct_def canon_struct_def usage_copies_def
      copy_field_def no_usage_def)

interpretation usage_element: json_element "enc_struct FunctionUsage_fields" "dec_struct FunctionUsage_fields"
  usage_ok usage_ok "canon_struct usage_copies" 1 no_usage
  using usage.json_codec_axioms
  by (intro json_element.intro) (auto simp: json_element_axioms_def no_usage_def usage_ok_def json_float_zero)

definition status_copies :: "(FunctionStatus \<Rightarrow> FunctionStatus \<Rightarrow> FunctionStatus) list" where
  "status_copies =
     [copy_field always (\<lambda>v old. v) fs_name fs_name_update,
      copy_field always (\<lambda>v old. v) fs_image fs_image_update,
      copy_field empty_string (\<lambda>v old. v) fs_namespace fs_namespace_update,
      copy_field empty_string (\<lambda>v old. v) fs_env_process fs_env_process_update,
      copy_field empty_list canon_strings fs_env_vars fs_env_vars_update,
      copy_field empty_list (canon_slice (\<lambda>v old. v) []) fs_constraints fs_constraints_update,
      copy_field empty_list (canon_slice (\<lambda>v old. v) []) fs_secrets fs_secrets_update,
      copy_field is_nil canon_strings_ptr fs_labels fs_labels_update,
      copy_field is_nil canon_strings_ptr fs_annotations fs_annotations_update,
      copy_field is_nil canon_resources_ptr fs_limits fs_limits_update,
      copy_field is_nil canon_resources_ptr fs_requests fs_requests_update,
      copy_field Not (\<lambda>v old. v) fs_read_only_root_filesystem fs_read_only_root_filesystem_update,
      copy_field (\<lambda>x. x = Fin 0) (\<lambda>v old. v) fs_invocation_count fs_invocation_count_update,
      copy_field (\<lambda>n. n = 0) (\<lambda>v old. v) fs_replicas fs_replicas_update,
      copy_field (\<lambda>n. n = 0) (\<lambda>v old. v) fs_available_replicas fs_available_replicas_update,
      copy_field always (\<lambda>v old. v) fs_created_at fs_created_at_update,
      copy_field is_nil (canon_ptr (enc_struct FunctionUsage_fields) (canon_struct usage_copies) no_usage)
        fs_usage fs_usage_update]"

interpretation status: json_struct FunctionStatus_fields status_copies status_ok status_typed 2
proof unfold_locales
  show "distinct (map fd_name FunctionStatus_fields)" by (simp add: FunctionStatus_fields_def)
qed (unfold FunctionStatus_fields_def status_copies_def enc_resources_def dec_resources_def,
    intro list.rel_intros part_laws usage_element.ptr.field_law,
    simp_all add: status_ok_def status_typed_def valid_utf8.simps)

definition normal_status :: "FunctionStatus \<Rightarrow> FunctionStatus" where
  "normal_status s =
     s\<lparr>fs_env_vars := normal_map (fs_env_vars s), fs_constraints := normal_list (fs_constraints s),
       fs_secrets := normal_list (fs_secrets s), fs_labels := normal_map_ptr (fs_labels s),
       fs_annotations := normal_map_ptr (fs_annotations s)\<rparr>"

lemma canon_status:
  assumes "status_ok s"
  shows "canon_struct status_copies s no_status = normal_status s"
  using assms pick_simps(7,8) [of valid_utf8] unfolding status_ok_def status_typed_def
  by (simp add: canon_struct_def status_copies_def copy_field_def no_status_def normal_status_def
      pick_simps(1-6) resources_ptr_same usage_same)

text \<open>
  Property C31: the status of a function survives the API, with its counts, its replicas in the
  whole range of 64 bits, and its time of creation to the nanosecond.
\<close>

theorem status_roundtrip:
  assumes "status_ok s"
  shows "\<exists>t. json_Marshal (enc_struct FunctionStatus_fields s) = Some t \<and>
    json_Unmarshal (dec_struct FunctionStatus_fields) t no_status = Some (normal_status s)"
  using status.roundtrip [OF assms, of no_status] canon_status [OF assms] by (simp add: maxNestingDepth_def)

subsection \<open>Requests and information\<close>

record ScaleServiceRequest =
  sr_service_name :: string
  sr_replicas :: int
  sr_namespace :: string

definition ScaleServiceRequest_fields :: "ScaleServiceRequest field list" where
  "ScaleServiceRequest_fields =
     [field ''serviceName'' always JStr dec_string sr_service_name sr_service_name_update,
      field ''replicas'' always JInt dec_uint64 sr_replicas sr_replicas_update,
      field ''namespace'' empty_string JStr dec_string sr_namespace sr_namespace_update]"

definition no_scale :: ScaleServiceRequest where
  "no_scale = \<lparr>sr_service_name = [], sr_replicas = 0, sr_namespace = []\<rparr>"

record DeleteFunctionRequest =
  dr_function_name :: string
  dr_namespace :: string

definition DeleteFunctionRequest_fields :: "DeleteFunctionRequest field list" where
  "DeleteFunctionRequest_fields =
     [field ''functionName'' always JStr dec_string dr_function_name dr_function_name_update,
      field ''namespace'' empty_string JStr dec_string dr_namespace dr_namespace_update]"

record VersionInfo =
  vi_commit_message :: string
  vi_sha :: string
  vi_release :: string

definition VersionInfo_fields :: "VersionInfo field list" where
  "VersionInfo_fields =
     [field ''commit_message'' empty_string JStr dec_string vi_commit_message vi_commit_message_update,
      field ''sha'' always JStr dec_string vi_sha vi_sha_update,
      field ''release'' always JStr dec_string vi_release vi_release_update]"

definition no_version :: VersionInfo where
  "no_version = \<lparr>vi_commit_message = [], vi_sha = [], vi_release = []\<rparr>"

record ProviderInfo =
  pi_name :: string
  pi_version :: "VersionInfo option"
  pi_orchestration :: string

definition ProviderInfo_fields :: "ProviderInfo field list" where
  "ProviderInfo_fields =
     [field ''provider'' always JStr dec_string pi_name pi_name_update,
      field ''version'' always (enc_ptr (enc_struct VersionInfo_fields)) (dec_ptr (dec_struct VersionInfo_fields) no_version)
        pi_version pi_version_update,
      field ''orchestration'' always JStr dec_string pi_orchestration pi_orchestration_update]"

record FunctionNamespace =
  ns_name :: string
  ns_annotations :: "(string, string) gomap option"
  ns_labels :: "(string, string) gomap option"

definition FunctionNamespace_fields :: "FunctionNamespace field list" where
  "FunctionNamespace_fields =
     [field ''name'' always JStr dec_string ns_name ns_name_update,
      field ''annotations'' empty_list (enc_map JStr) (dec_map dec_string []) ns_annotations ns_annotations_update,
      field ''labels'' empty_list (enc_map JStr) (dec_map dec_string []) ns_labels ns_labels_update]"

record Secret =
  se_name :: string
  se_namespace :: string
  se_value :: string
  se_raw_value :: "string option"

definition Secret_fields :: "Secret field list" where
  "Secret_fields =
     [field ''name'' always JStr dec_string se_name se_name_update,
      field ''namespace'' empty_string JStr dec_string se_namespace se_namespace_update,
      field ''value'' empty_string JStr dec_string se_value se_value_update,
      field ''rawValue'' empty_list enc_bytes dec_bytes se_raw_value se_raw_value_update]"

definition no_secret :: Secret where
  "no_secret = \<lparr>se_name = [], se_namespace = [], se_value = [], se_raw_value = None\<rparr>"

definition scale_ok :: "ScaleServiceRequest \<Rightarrow> bool" where
  "scale_ok r \<longleftrightarrow> valid_utf8 (sr_service_name r) \<and> uint64 (sr_replicas r) \<and> valid_utf8 (sr_namespace r)"

definition delete_ok :: "DeleteFunctionRequest \<Rightarrow> bool" where
  "delete_ok r \<longleftrightarrow> valid_utf8 (dr_function_name r) \<and> valid_utf8 (dr_namespace r)"

definition version_ok :: "VersionInfo \<Rightarrow> bool" where
  "version_ok v \<longleftrightarrow> valid_utf8 (vi_commit_message v) \<and> valid_utf8 (vi_sha v) \<and> valid_utf8 (vi_release v)"

definition provider_ok :: "ProviderInfo \<Rightarrow> bool" where
  "provider_ok p \<longleftrightarrow> valid_utf8 (pi_name p) \<and> pred_option version_ok (pi_version p) \<and> valid_utf8 (pi_orchestration p)"

definition namespace_ok :: "FunctionNamespace \<Rightarrow> bool" where
  "namespace_ok n \<longleftrightarrow> valid_utf8 (ns_name n) \<and> ok_map valid_utf8 (ns_annotations n) \<and> ok_map valid_utf8 (ns_labels n)"

definition secret_ok :: "Secret \<Rightarrow> bool" where
  "secret_ok s \<longleftrightarrow> valid_utf8 (se_name s) \<and> valid_utf8 (se_namespace s) \<and> valid_utf8 (se_value s)"

interpretation scale: json_struct ScaleServiceRequest_fields
  "[copy_field always (\<lambda>v old. v) sr_service_name sr_service_name_update,
    copy_field always (\<lambda>v old. v) sr_replicas sr_replicas_update,
    copy_field empty_string (\<lambda>v old. v) sr_namespace sr_namespace_update]" scale_ok scale_ok 0
proof unfold_locales
  show "distinct (map fd_name ScaleServiceRequest_fields)" by (simp add: ScaleServiceRequest_fields_def)
qed (unfold ScaleServiceRequest_fields_def, intro list.rel_intros part_laws, simp_all add: scale_ok_def valid_utf8.simps)

interpretation delete: json_struct DeleteFunctionRequest_fields
  "[copy_field always (\<lambda>v old. v) dr_function_name dr_function_name_update,
    copy_field empty_string (\<lambda>v old. v) dr_namespace dr_namespace_update]" delete_ok delete_ok 0
proof unfold_locales
  show "distinct (map fd_name DeleteFunctionRequest_fields)" by (simp add: DeleteFunctionRequest_fields_def)
qed (unfold DeleteFunctionRequest_fields_def, intro list.rel_intros part_laws, simp_all add: delete_ok_def valid_utf8.simps)

definition version_copies :: "(VersionInfo \<Rightarrow> VersionInfo \<Rightarrow> VersionInfo) list" where
  "version_copies =
     [copy_field empty_string (\<lambda>v old. v) vi_commit_message vi_commit_message_update,
      copy_field always (\<lambda>v old. v) vi_sha vi_sha_update,
      copy_field always (\<lambda>v old. v) vi_release vi_release_update]"

interpretation version: json_struct VersionInfo_fields version_copies version_ok version_ok 0
proof unfold_locales
  show "distinct (map fd_name VersionInfo_fields)" by (simp add: VersionInfo_fields_def)
qed (unfold VersionInfo_fields_def version_copies_def, intro list.rel_intros part_laws,
    simp_all add: version_ok_def valid_utf8.simps)

interpretation version_element: json_element "enc_struct VersionInfo_fields" "dec_struct VersionInfo_fields"
  version_ok version_ok "canon_struct version_copies" 1 no_version
  using version.json_codec_axioms
  by (intro json_element.intro) (auto simp: json_element_axioms_def no_version_def version_ok_def valid_utf8.simps)

interpretation provider: json_struct ProviderInfo_fields
  "[copy_field always (\<lambda>v old. v) pi_name pi_name_update,
    copy_field always (canon_ptr (enc_struct VersionInfo_fields) (canon_struct version_copies) no_version)
      pi_version pi_version_update,
    copy_field always (\<lambda>v old. v) pi_orchestration pi_orchestration_update]" provider_ok provider_ok 1
proof unfold_locales
  show "distinct (map fd_name ProviderInfo_fields)" by (simp add: ProviderInfo_fields_def)
qed (unfold ProviderInfo_fields_def, intro list.rel_intros part_laws version_element.ptr.field_law,
    simp_all add: provider_ok_def valid_utf8.simps)

interpretation namespace: json_struct FunctionNamespace_fields
  "[copy_field always (\<lambda>v old. v) ns_name ns_name_update,
    copy_field empty_list canon_strings ns_annotations ns_annotations_update,
    copy_field empty_list canon_strings ns_labels ns_labels_update]" namespace_ok namespace_ok 1
proof unfold_locales
  show "distinct (map fd_name FunctionNamespace_fields)" by (simp add: FunctionNamespace_fields_def)
qed (unfold FunctionNamespace_fields_def, intro list.rel_intros part_laws, simp_all add: namespace_ok_def valid_utf8.simps)

definition secret_copies :: "(Secret \<Rightarrow> Secret \<Rightarrow> Secret) list" where
  "secret_copies =
     [copy_field always (\<lambda>v old. v) se_name se_name_update,
      copy_field empty_string (\<lambda>v old. v) se_namespace se_namespace_update,
      copy_field empty_string (\<lambda>v old. v) se_value se_value_update,
      copy_field empty_list (\<lambda>v old. v) se_raw_value se_raw_value_update]"

interpretation secret: json_struct Secret_fields secret_copies secret_ok secret_ok 0
proof unfold_locales
  show "distinct (map fd_name Secret_fields)" by (simp add: Secret_fields_def)
qed (unfold Secret_fields_def secret_copies_def, intro list.rel_intros part_laws, simp_all add: secret_ok_def valid_utf8.simps)

lemma canon_secret: "canon_struct secret_copies s no_secret = s\<lparr>se_raw_value := normal_list (se_raw_value s)\<rparr>"
  by (simp add: canon_struct_def secret_copies_def copy_field_def no_secret_def pick_simps)

text \<open>
  A secret survives the API byte by byte: the raw value may be any bytes, and what
  arrives has the same name, namespace and value; a raw value of no bytes comes back nil.
\<close>

theorem secret_roundtrip:
  assumes "secret_ok s"
  shows "\<exists>t. json_Marshal (enc_struct Secret_fields s) = Some t \<and>
    json_Unmarshal (dec_struct Secret_fields) t no_secret = Some (s\<lparr>se_raw_value := normal_list (se_raw_value s)\<rparr>)"
  using secret.roundtrip [OF assms, of no_secret] by (simp add: maxNestingDepth_def canon_secret)

lemma ParseUint_Format_cases:
  "ParseUint (FormatInt n) = (if n < 0 then Inl ErrSyntax else if n < 2 ^ 64 then Inr n else Inl ErrRange)"
proof -
  have "ParseUint (FormatInt n) = Inl ErrRange" if "2 ^ 64 \<le> n"
    using that parseUintLoop_large [of "digits n" 0] digits_facts [of n] by (simp add: FormatInt_def ParseUint_def max_uint64_def)
  then show ?thesis
    using ParseUint_Format [of n] by (auto simp: uint64_def) (simp add: FormatInt_def ParseUint_def is_digit_def)
qed

text \<open>
  Property C39: of all integers that a request to scale can ask for, however long their text,
  exactly the unsigned 64-bit numbers are accepted, each as itself: a negative number and one from
  \<open>2 ^ 64\<close> on are rejected, and none is wrapped around.
\<close>

theorem scale_request_exact:
  assumes "valid_utf8 f"
  shows "json_Unmarshal (dec_struct ScaleServiceRequest_fields)
      (json_print (JStruct [(''serviceName'', JStr f), (''replicas'', JInt n)])) no_scale =
    (if 0 \<le> n \<and> n < 2 ^ 64 then Some (no_scale\<lparr>sr_service_name := f, sr_replicas := n\<rparr>) else None)"
proof -
  let ?j = "JStruct [(''serviceName'', JStr f), (''replicas'', JInt n)]"
  let ?es = "[(''serviceName'', JStr f), (''replicas'', JInt n)]"
  have "reads_back d (JStr f)" "reads_back d (JInt n)" for d
    using json_value_string [OF assms] json_value_number [OF number_text_Int value_end_number] by (simp_all add: reads_back_def)
  then have "\<forall>e \<in> set ?es. valid_utf8 (fst e) \<and> reads_back (maxNestingDepth - 1) (snd e)" by (simp add: valid_utf8.simps)
  from reads_back_members [OF this, of "[]"]
  have v: "json_value maxNestingDepth (json_print ?j) = Some (json_tree_of ?j, [])"
    unfolding json_tree_members json_print_members append_Nil2 by (simp add: maxNestingDepth_def)
  show ?thesis
    using ParseUint_Format_cases [of n]
    by (auto simp: json_Unmarshal_def v skipSpace_def dec_struct_def dec_member_def find_field_def
        ScaleServiceRequest_fields_def field_def dec_string_def dec_uint64_def no_scale_def simp del: json_print.simps)
qed

subsection \<open>Queued requests\<close>

text \<open>\<open>url.Userinfo\<close> has no exported field.\<close>

record Userinfo =
  ui_username :: string
  ui_password :: "string option"

definition no_userinfo :: Userinfo where
  "no_userinfo = \<lparr>ui_username = [], ui_password = None\<rparr>"

definition Userinfo_fields :: "Userinfo field list" where
  "Userinfo_fields = []"

text \<open>\<open>url.URL\<close> has no tags.\<close>

record URL =
  ul_scheme :: string
  ul_opaque :: string
  ul_user :: "Userinfo option"
  ul_host :: string
  ul_path :: string
  ul_raw_path :: string
  ul_omit_host :: bool
  ul_force_query :: bool
  ul_raw_query :: string
  ul_fragment :: string
  ul_raw_fragment :: string

definition URL_fields :: "URL field list" where
  "URL_fields =
     [field ''Scheme'' always JStr dec_string ul_scheme ul_scheme_update,
      field ''Opaque'' always JStr dec_string ul_opaque ul_opaque_update,
      field ''User'' always (enc_ptr (enc_struct Userinfo_fields)) (dec_ptr (dec_struct Userinfo_fields) no_userinfo)
        ul_user ul_user_update,
      field ''Host'' always JStr dec_string ul_host ul_host_update,
      field ''Path'' always JStr dec_string ul_path ul_path_update,
      field ''RawPath'' always JStr dec_string ul_raw_path ul_raw_path_update,
      field ''OmitHost'' always JBool dec_bool ul_omit_host ul_omit_host_update,
      field ''ForceQuery'' always JBool dec_bool ul_force_query ul_force_query_update,
      field ''RawQuery'' always JStr dec_string ul_raw_query ul_raw_query_update,
      field ''Fragment'' always JStr dec_string ul_fragment ul_fragment_update,
      field ''RawFragment'' always JStr dec_string ul_raw_fragment ul_raw_fragment_update]"

definition no_URL :: URL where
  "no_URL = \<lparr>ul_scheme = [], ul_opaque = [], ul_user = None, ul_host = [], ul_path = [], ul_raw_path = [],
     ul_omit_host = False, ul_force_query = False, ul_raw_query = [], ul_fragment = [], ul_raw_fragment = []\<rparr>"

record QueueRequest =
  qr_header :: "(string, string list option) gomap option"
  qr_host :: string
  qr_body :: "string option"
  qr_method :: string
  qr_path :: string
  qr_query_string :: string
  qr_function :: string
  qr_queue_name :: string
  qr_annotations :: "(string, string) gomap option"
  qr_callback_url :: "URL option"

definition QueueRequest_fields :: "QueueRequest field list" where
  "QueueRequest_fields =
     [field ''Header'' empty_list (enc_map (enc_slice JStr)) (dec_map (dec_slice dec_string []) None)
        qr_header qr_header_update,
      field ''Host'' empty_string JStr dec_string qr_host qr_host_update,
      field ''Body'' empty_list enc_bytes dec_bytes qr_body qr_body_update,
      field ''Method'' always JStr dec_string qr_method qr_method_update,
      field ''Path'' empty_string JStr dec_string qr_path qr_path_update,
      field ''QueryString'' empty_string JStr dec_string qr_query_string qr_query_string_update,
      field ''Function'' always JStr dec_string qr_function qr_function_update,
      field ''QueueName'' empty_string JStr dec_string qr_queue_name qr_queue_name_update,
      field ''Annotations'' empty_list (enc_map JStr) (dec_map dec_string []) qr_annotations qr_annotations_update,
      field ''CallbackUrl'' is_nil (enc_ptr (enc_struct URL_fields)) (dec_ptr (dec_struct URL_fields) no_URL)
        qr_callback_url qr_callback_url_update]"

definition no_queue_request :: QueueRequest where
  "no_queue_request = \<lparr>qr_header = None, qr_host = [], qr_body = None, qr_method = [], qr_path = [],
     qr_query_string = [], qr_function = [], qr_queue_name = [], qr_annotations = None, qr_callback_url = None\<rparr>"

definition URL_ok :: "URL \<Rightarrow> bool" where
  "URL_ok u \<longleftrightarrow> valid_utf8 (ul_scheme u) \<and> valid_utf8 (ul_opaque u) \<and> valid_utf8 (ul_host u) \<and>
     valid_utf8 (ul_path u) \<and> valid_utf8 (ul_raw_path u) \<and> valid_utf8 (ul_raw_query u) \<and>
     valid_utf8 (ul_fragment u) \<and> valid_utf8 (ul_raw_fragment u)"

definition queue_request_ok :: "QueueRequest \<Rightarrow> bool" where
  "queue_request_ok q \<longleftrightarrow> ok_map (ok_slice valid_utf8) (qr_header q) \<and> valid_utf8 (qr_host q) \<and>
     valid_utf8 (qr_method q) \<and> valid_utf8 (qr_path q) \<and> valid_utf8 (qr_query_string q) \<and>
     valid_utf8 (qr_function q) \<and> valid_utf8 (qr_queue_name q) \<and> ok_map valid_utf8 (qr_annotations q) \<and>
     pred_option URL_ok (qr_callback_url q)"

interpretation userinfo: json_struct Userinfo_fields "[]" "\<lambda>_. True" "\<lambda>_. True" 0
  by unfold_locales (simp_all add: Userinfo_fields_def)

interpretation userinfo_element: json_element "enc_struct Userinfo_fields" "dec_struct Userinfo_fields"
  "\<lambda>_. True" "\<lambda>_. True" "canon_struct []" 1 no_userinfo
  using userinfo.json_codec_axioms by (intro json_element.intro) (auto simp: json_element_axioms_def)

abbreviation canon_user :: "Userinfo option \<Rightarrow> Userinfo option \<Rightarrow> Userinfo option" where
  "canon_user \<equiv> canon_ptr (enc_struct Userinfo_fields) (canon_struct []) no_userinfo"

definition URL_copies :: "(URL \<Rightarrow> URL \<Rightarrow> URL) list" where
  "URL_copies =
     [copy_field always (\<lambda>v old. v) ul_scheme ul_scheme_update,
      copy_field always (\<lambda>v old. v) ul_opaque ul_opaque_update,
      copy_field always canon_user ul_user ul_user_update,
      copy_field always (\<lambda>v old. v) ul_host ul_host_update,
      copy_field always (\<lambda>v old. v) ul_path ul_path_update,
      copy_field always (\<lambda>v old. v) ul_raw_path ul_raw_path_update,
      copy_field always (\<lambda>v old. v) ul_omit_host ul_omit_host_update,
      copy_field always (\<lambda>v old. v) ul_force_query ul_force_query_update,
      copy_field always (\<lambda>v old. v) ul_raw_query ul_raw_query_update,
      copy_field always (\<lambda>v old. v) ul_fragment ul_fragment_update,
      copy_field always (\<lambda>v old. v) ul_raw_fragment ul_raw_fragment_update]"

interpretation url: json_struct URL_fields URL_copies URL_ok URL_ok 1
proof unfold_locales
  show "distinct (map fd_name URL_fields)" by (simp add: URL_fields_def)
qed (unfold URL_fields_def URL_copies_def, intro list.rel_intros part_laws userinfo_element.ptr.field_law,
    simp_all add: URL_ok_def valid_utf8.simps option.pred_True)

interpretation url_element: json_element "enc_struct URL_fields" "dec_struct URL_fields" URL_ok URL_ok
  "canon_struct URL_copies" 2 no_URL
  using url.json_codec_axioms
  by (intro json_element.intro) (auto simp: json_element_axioms_def no_URL_def URL_ok_def valid_utf8.simps numeral_2_eq_2)

definition queue_copies :: "(QueueRequest \<Rightarrow> QueueRequest \<Rightarrow> QueueRequest) list" where
  "queue_copies =
     [copy_field empty_list (canon_map (canon_slice (\<lambda>v old. v) []) None) qr_header qr_header_update,
      copy_field empty_string (\<lambda>v old. v) qr_host qr_host_update,
      copy_field empty_list (\<lambda>v old. v) qr_body qr_body_update,
      copy_field always (\<lambda>v old. v) qr_method qr_method_update,
      copy_field empty_string (\<lambda>v old. v) qr_path qr_path_update,
      copy_field empty_string (\<lambda>v old. v) qr_query_string qr_query_string_update,
      copy_field always (\<lambda>v old. v) qr_function qr_function_update,
      copy_field empty_string (\<lambda>v old. v) qr_queue_name qr_queue_name_update,
      copy_field empty_list canon_strings qr_annotations qr_annotations_update,
      copy_field is_nil (canon_ptr (enc_struct URL_fields) (canon_struct URL_copies) no_URL)
        qr_callback_url qr_callback_url_update]"

interpretation queue: json_struct QueueRequest_fields queue_copies queue_request_ok queue_request_ok 2
proof unfold_locales
  show "distinct (map fd_name QueueRequest_fields)" by (simp add: QueueRequest_fields_def)
qed (unfold QueueRequest_fields_def queue_copies_def, intro list.rel_intros part_laws url_element.ptr.field_law,
    simp_all add: queue_request_ok_def valid_utf8.simps)

text \<open>The user and password of the callback are lost; that there is a user is not.\<close>

definition normal_URL :: "URL \<Rightarrow> URL" where
  "normal_URL u = u\<lparr>ul_user := map_option (\<lambda>_. no_userinfo) (ul_user u)\<rparr>"

definition normal_queue_request :: "QueueRequest \<Rightarrow> QueueRequest" where
  "normal_queue_request q =
     q\<lparr>qr_header := normal_map (qr_header q), qr_body := normal_list (qr_body q),
       qr_annotations := normal_map (qr_annotations q), qr_callback_url := map_option normal_URL (qr_callback_url q)\<rparr>"

lemma canon_URL: "canon_struct URL_copies u no_URL = normal_URL u"
proof -
  have "canon_user p None = map_option (\<lambda>_. no_userinfo) p" for p
    by (cases p) (simp_all add: canon_ptr_def enc_struct_def canon_struct_def)
  then show ?thesis by (simp add: canon_struct_def URL_copies_def copy_field_def no_URL_def normal_URL_def pick_simps)
qed

lemma canon_queue_request:
  assumes "queue_request_ok q"
  shows "canon_struct queue_copies q no_queue_request = normal_queue_request q"
proof -
  have u: "pick is_nil (canon_ptr (enc_struct URL_fields) (canon_struct URL_copies) no_URL) p None = map_option normal_URL p" for p
    by (cases p) (simp_all add: pick_def is_nil_def canon_ptr_def enc_struct_def canon_URL)
  have s: "canon_slice (\<lambda>v old. v) z = (\<lambda>v old. v)" for z :: string by (intro ext) (rule canon_slice_same)
  show ?thesis
    using assms pick_simps(7) [of valid_utf8] pick_simps(7) [of "ok_slice valid_utf8"] unfolding queue_request_ok_def
    by (simp add: canon_struct_def queue_copies_def copy_field_def no_queue_request_def normal_queue_request_def
        pick_simps(1-6) u s)
qed

text \<open>
  Property C20: a queued request arrives at its worker as it was queued, with its headers and any
  body, but for one thing: the user and the password in the callback URL are gone, and an empty
  user is in their place.
\<close>

theorem queue_request_arrives:
  assumes "queue_request_ok q"
  shows "\<exists>t. json_Marshal (enc_struct QueueRequest_fields q) = Some t \<and>
    json_Unmarshal (dec_struct QueueRequest_fields) t no_queue_request = Some (normal_queue_request q)"
  using queue.roundtrip [OF assms, of no_queue_request] canon_queue_request [OF assms] by (simp add: maxNestingDepth_def)

subsection \<open>Events\<close>

definition TypeFunctionUsage :: string where "TypeFunctionUsage = ''function_usage''"
definition TypeAPIAccess :: string where "TypeAPIAccess = ''api_access''"

record FunctionUsageEvent =
  ue_namespace :: string
  ue_function_name :: string
  ue_started :: gotime
  ue_duration :: duration
  ue_memory_bytes :: int

definition FunctionUsageEvent_fields :: "FunctionUsageEvent field list" where
  "FunctionUsageEvent_fields =
     [field ''namespace'' always JStr dec_string ue_namespace ue_namespace_update,
      field ''function_name'' always JStr dec_string ue_function_name ue_function_name_update,
      field ''started'' always enc_time dec_time ue_started ue_started_update,
      field ''duration'' always JInt dec_int64 ue_duration ue_duration_update,
      field ''memory_bytes'' always JInt dec_int64 ue_memory_bytes ue_memory_bytes_update]"

definition FunctionUsageEvent_EventType :: "FunctionUsageEvent \<Rightarrow> string" where
  "FunctionUsageEvent_EventType e = TypeFunctionUsage"

record Actor =
  ac_sub :: string
  ac_name :: string
  ac_issuer :: string
  ac_fed_issuer :: string

definition Actor_fields :: "Actor field list" where
  "Actor_fields =
     [field ''sub'' always JStr dec_string ac_sub ac_sub_update,
      field ''name'' empty_string JStr dec_string ac_name ac_name_update,
      field ''issuer'' empty_string JStr dec_string ac_issuer ac_issuer_update,
      field ''fed_issuer'' empty_string JStr dec_string ac_fed_issuer ac_fed_issuer_update]"

definition no_actor :: Actor where
  "no_actor = \<lparr>ac_sub = [], ac_name = [], ac_issuer = [], ac_fed_issuer = []\<rparr>"

record APIAccessEvent =
  ae_actor :: "Actor option"
  ae_path :: string
  ae_method :: string
  ae_actions :: "string list option"
  ae_response_code :: int
  ae_custom_message :: string
  ae_namespace :: string
  ae_time :: gotime

definition APIAccessEvent_fields :: "APIAccessEvent field list" where
  "APIAccessEvent_fields =
     [field ''actor'' is_nil (enc_ptr (enc_struct Actor_fields)) (dec_ptr (dec_struct Actor_fields) no_actor)
        ae_actor ae_actor_update,
      field ''path'' always JStr dec_string ae_path ae_path_update,
      field ''method'' always JStr dec_string ae_method ae_method_update,
      field ''actions'' always (enc_slice JStr) (dec_slice dec_string []) ae_actions ae_actions_update,
      field ''response_code'' always JInt dec_int64 ae_response_code ae_response_code_update,
      field ''custom_message'' empty_string JStr dec_string ae_custom_message ae_custom_message_update,
      field ''namespace'' empty_string JStr dec_string ae_namespace ae_namespace_update,
      field ''time'' always enc_time dec_time ae_time ae_time_update]"

definition APIAccessEvent_EventType :: "APIAccessEvent \<Rightarrow> string" where
  "APIAccessEvent_EventType e = TypeAPIAccess"

definition no_usage_event :: FunctionUsageEvent where
  "no_usage_event = \<lparr>ue_namespace = [], ue_function_name = [], ue_started = zero_time, ue_duration = 0, ue_memory_bytes = 0\<rparr>"

definition no_access_event :: APIAccessEvent where
  "no_access_event = \<lparr>ae_actor = None, ae_path = [], ae_method = [], ae_actions = None, ae_response_code = 0,
     ae_custom_message = [], ae_namespace = [], ae_time = zero_time\<rparr>"

definition usage_event_typed :: "FunctionUsageEvent \<Rightarrow> bool" where
  "usage_event_typed e \<longleftrightarrow> valid_utf8 (ue_namespace e) \<and> valid_utf8 (ue_function_name e) \<and> time_wf (ue_started e) \<and>
     in_int64 (ue_duration e) \<and> in_int64 (ue_memory_bytes e)"

definition usage_event_ok :: "FunctionUsageEvent \<Rightarrow> bool" where
  "usage_event_ok e \<longleftrightarrow> usage_event_typed e \<and> time_ok (ue_started e)"

definition actor_ok :: "Actor \<Rightarrow> bool" where
  "actor_ok a \<longleftrightarrow> valid_utf8 (ac_sub a) \<and> valid_utf8 (ac_name a) \<and> valid_utf8 (ac_issuer a) \<and> valid_utf8 (ac_fed_issuer a)"

definition access_event_typed :: "APIAccessEvent \<Rightarrow> bool" where
  "access_event_typed e \<longleftrightarrow> pred_option actor_ok (ae_actor e) \<and> valid_utf8 (ae_path e) \<and> valid_utf8 (ae_method e) \<and>
     ok_slice valid_utf8 (ae_actions e) \<and> in_int64 (ae_response_code e) \<and> valid_utf8 (ae_custom_message e) \<and>
     valid_utf8 (ae_namespace e) \<and> time_wf (ae_time e)"

definition access_event_ok :: "APIAccessEvent \<Rightarrow> bool" where
  "access_event_ok e \<longleftrightarrow> access_event_typed e \<and> time_ok (ae_time e)"

definition usage_event_copies :: "(FunctionUsageEvent \<Rightarrow> FunctionUsageEvent \<Rightarrow> FunctionUsageEvent) list" where
  "usage_event_copies =
     [copy_field always (\<lambda>v old. v) ue_namespace ue_namespace_update,
      copy_field always (\<lambda>v old. v) ue_function_name ue_function_name_update,
      copy_field always (\<lambda>v old. v) ue_started ue_started_update,
      copy_field always (\<lambda>v old. v) ue_duration ue_duration_update,
      copy_field always (\<lambda>v old. v) ue_memory_bytes ue_memory_bytes_update]"

interpretation usage_event: json_struct FunctionUsageEvent_fields usage_event_copies usage_event_ok usage_event_typed 0
proof unfold_locales
  show "distinct (map fd_name FunctionUsageEvent_fields)" by (simp add: FunctionUsageEvent_fields_def)
qed (unfold FunctionUsageEvent_fields_def usage_event_copies_def, intro list.rel_intros part_laws,
    simp_all add: usage_event_ok_def usage_event_typed_def valid_utf8.simps)

definition actor_copies :: "(Actor \<Rightarrow> Actor \<Rightarrow> Actor) list" where
  "actor_copies =
     [copy_field always (\<lambda>v old. v) ac_sub ac_sub_update,
      copy_field empty_string (\<lambda>v old. v) ac_name ac_name_update,
      copy_field empty_string (\<lambda>v old. v) ac_issuer ac_issuer_update,
      copy_field empty_string (\<lambda>v old. v) ac_fed_issuer ac_fed_issuer_update]"

interpretation actor: json_struct Actor_fields actor_copies actor_ok actor_ok 0
proof unfold_locales
  show "distinct (map fd_name Actor_fields)" by (simp add: Actor_fields_def)
qed (unfold Actor_fields_def actor_copies_def, intro list.rel_intros part_laws,
    simp_all add: actor_ok_def valid_utf8.simps)

interpretation actor_element: json_element "enc_struct Actor_fields" "dec_struct Actor_fields" actor_ok actor_ok
  "canon_struct actor_copies" 1 no_actor
  using actor.json_codec_axioms
  by (intro json_element.intro) (auto simp: json_element_axioms_def no_actor_def actor_ok_def valid_utf8.simps)

definition access_event_copies :: "(APIAccessEvent \<Rightarrow> APIAccessEvent \<Rightarrow> APIAccessEvent) list" where
  "access_event_copies =
     [copy_field is_nil (canon_ptr (enc_struct Actor_fields) (canon_struct actor_copies) no_actor) ae_actor ae_actor_update,
      copy_field always (\<lambda>v old. v) ae_path ae_path_update,
      copy_field always (\<lambda>v old. v) ae_method ae_method_update,
      copy_field always (canon_slice (\<lambda>v old. v) []) ae_actions ae_actions_update,
      copy_field always (\<lambda>v old. v) ae_response_code ae_response_code_update,
      copy_field empty_string (\<lambda>v old. v) ae_custom_message ae_custom_message_update,
      copy_field empty_string (\<lambda>v old. v) ae_namespace ae_namespace_update,
      copy_field always (\<lambda>v old. v) ae_time ae_time_update]"

interpretation access_event: json_struct APIAccessEvent_fields access_event_copies access_event_ok access_event_typed 1
proof unfold_locales
  show "distinct (map fd_name APIAccessEvent_fields)" by (simp add: APIAccessEvent_fields_def)
qed (unfold APIAccessEvent_fields_def access_event_copies_def, intro list.rel_intros part_laws actor_element.ptr.field_law,
    simp_all add: access_event_ok_def access_event_typed_def valid_utf8.simps)

lemma canon_usage_event: "canon_struct usage_event_copies e no_usage_event = e"
  by (simp add: canon_struct_def usage_event_copies_def copy_field_def no_usage_event_def pick_simps)

lemma canon_access_event: "canon_struct access_event_copies e no_access_event = e"
proof -
  have "canon_struct actor_copies a no_actor = a" for a
    by (simp add: canon_struct_def actor_copies_def copy_field_def no_actor_def pick_simps)
  then have "pick is_nil (canon_ptr (enc_struct fs) (canon_struct actor_copies) no_actor) p None = p" for fs p
    by (cases p) (simp_all add: pick_def is_nil_def canon_ptr_def enc_struct_def)
  then show ?thesis
    by (simp add: canon_struct_def access_event_copies_def copy_field_def no_access_event_def pick_simps canon_slice_same)
qed

text \<open>
  Property C33: events lose nothing: what a subscriber decodes is the event that was sent, of
  either type, with its times, its duration and its numbers.
\<close>

theorem events_roundtrip:
  shows "usage_event_ok e \<Longrightarrow> access_event_ok a \<Longrightarrow>
    (\<exists>t. json_Marshal (enc_struct FunctionUsageEvent_fields e) = Some t \<and>
      json_Unmarshal (dec_struct FunctionUsageEvent_fields) t no_usage_event = Some e) \<and>
    (\<exists>t. json_Marshal (enc_struct APIAccessEvent_fields a) = Some t \<and>
      json_Unmarshal (dec_struct APIAccessEvent_fields) t no_access_event = Some a) \<and>
    FunctionUsageEvent_EventType e \<noteq> APIAccessEvent_EventType a"
  using usage_event.roundtrip [of e no_usage_event] access_event.roundtrip [of a no_access_event]
  by (simp add: maxNestingDepth_def canon_usage_event canon_access_event FunctionUsageEvent_EventType_def
      APIAccessEvent_EventType_def TypeFunctionUsage_def TypeAPIAccess_def)

subsection \<open>Examples\<close>

definition example_deployment :: FunctionDeployment where
  "example_deployment = no_deployment\<lparr>dp_service := ''figlet'', dp_image := ''alexellis2/figlet'',
     dp_env_vars := Some [(''b'', ''2''), (''a'', ''1'')], dp_secrets := Some [],
     dp_limits := Some (no_resources\<lparr>fr_memory := ''20Mi''\<rparr>)\<rparr>"

lemma example_deployment_ok: "deployment_ok example_deployment"
  by (simp add: deployment_ok_def example_deployment_def no_deployment_def resources_ok_def no_resources_def ok_simps)

theorem deployment_roundtrip_witness:
  "\<exists>s. json_Marshal (enc_struct FunctionDeployment_fields example_deployment) = Some s \<and>
     json_Unmarshal (dec_struct FunctionDeployment_fields) s no_deployment =
       Some (example_deployment\<lparr>dp_env_vars := Some [(''a'', ''1''), (''b'', ''2'')], dp_secrets := None\<rparr>)"
  using deployment_roundtrip [OF example_deployment_ok]
  by (simp add: normal_deployment_def example_deployment_def no_deployment_def normal_map_def normal_list_def
      normal_map_ptr_def empty_list_def)


theorem status_roundtrip_witness:
  "\<exists>t. json_Marshal (enc_struct FunctionStatus_fields (no_status\<lparr>fs_name := ''f'', fs_replicas := 18446744073709551615\<rparr>)) = Some t \<and>
     json_Unmarshal (dec_struct FunctionStatus_fields) t no_status =
       Some (no_status\<lparr>fs_name := ''f'', fs_replicas := 18446744073709551615\<rparr>)"
proof -
  have "time_ok zero_time" using example_times by (simp add: time_ok_def time_wf_def zero_time_def)
  moreover have "time_wf zero_time" by (simp add: time_wf_def zero_time_def)
  ultimately have "status_ok (no_status\<lparr>fs_name := ''f'', fs_replicas := 18446744073709551615\<rparr>)"
    by (simp add: status_ok_def status_typed_def no_status_def ok_simps json_float_zero uint64_def)
  from status_roundtrip [OF this] show ?thesis
    by (simp add: normal_status_def no_status_def normal_map_def normal_list_def normal_map_ptr_def empty_list_def)
qed

theorem secret_roundtrip_witness:
  "\<exists>t. json_Marshal (enc_struct Secret_fields (no_secret\<lparr>se_name := ''key'', se_raw_value := Some [CHR 0xFF, CHR 0x00]\<rparr>)) = Some t \<and>
     json_Unmarshal (dec_struct Secret_fields) t no_secret =
       Some (no_secret\<lparr>se_name := ''key'', se_raw_value := Some [CHR 0xFF, CHR 0x00]\<rparr>)"
proof -
  have "secret_ok (no_secret\<lparr>se_name := ''key'', se_raw_value := Some [CHR 0xFF, CHR 0x00]\<rparr>)"
    by (simp add: secret_ok_def no_secret_def ok_simps)
  from secret_roundtrip [OF this] show ?thesis by (simp add: normal_list_def empty_list_def)
qed

theorem scale_request_exact_witness:
  "json_Unmarshal (dec_struct ScaleServiceRequest_fields)
     (json_print (JStruct [(''serviceName'', JStr ''f''), (''replicas'', JInt (2 ^ 64 + 1))])) no_scale = None"
  using scale_request_exact [of "''f''" "2 ^ 64 + 1"] by (simp add: valid_utf8.simps del: json_print.simps)

definition example_queued :: QueueRequest where
  "example_queued = no_queue_request\<lparr>qr_method := ''POST'', qr_function := ''f'', qr_body := Some ''hi'',
     qr_callback_url := Some (no_URL\<lparr>ul_scheme := ''https'', ul_host := ''example.com'',
       ul_user := Some \<lparr>ui_username = ''alice'', ui_password = Some ''secret''\<rparr>\<rparr>)\<rparr>"

theorem queue_request_arrives_witness:
  "\<exists>t q u. json_Marshal (enc_struct QueueRequest_fields example_queued) = Some t \<and>
     json_Unmarshal (dec_struct QueueRequest_fields) t no_queue_request = Some q \<and> qr_body q = Some ''hi'' \<and>
     qr_callback_url q = Some u \<and> ul_host u = ''example.com'' \<and> ul_user u = Some no_userinfo"
proof -
  have "queue_request_ok example_queued"
    by (simp add: queue_request_ok_def example_queued_def no_queue_request_def URL_ok_def no_URL_def ok_simps)
  from queue_request_arrives [OF this] show ?thesis
    by (auto simp: normal_queue_request_def example_queued_def no_queue_request_def normal_URL_def normal_list_def empty_list_def)
qed

theorem events_roundtrip_witness:
  "(\<exists>t. json_Marshal (enc_struct FunctionUsageEvent_fields (no_usage_event\<lparr>ue_duration := - 5\<rparr>)) = Some t \<and>
      json_Unmarshal (dec_struct FunctionUsageEvent_fields) t no_usage_event = Some (no_usage_event\<lparr>ue_duration := - 5\<rparr>)) \<and>
   (\<exists>t. json_Marshal (enc_struct APIAccessEvent_fields (no_access_event\<lparr>ae_actor := Some no_actor\<rparr>)) = Some t \<and>
      json_Unmarshal (dec_struct APIAccessEvent_fields) t no_access_event = Some (no_access_event\<lparr>ae_actor := Some no_actor\<rparr>))"
proof -
  have t: "time_ok zero_time" "time_wf zero_time"
    using example_times by (simp_all add: time_ok_def time_wf_def zero_time_def)
  have "usage_event_ok (no_usage_event\<lparr>ue_duration := - 5\<rparr>)" "access_event_ok (no_access_event\<lparr>ae_actor := Some no_actor\<rparr>)"
    using t by (simp_all add: usage_event_ok_def usage_event_typed_def no_usage_event_def in_int64_def access_event_ok_def
        access_event_typed_def no_access_event_def actor_ok_def no_actor_def ok_simps)
  from events_roundtrip [OF this] show ?thesis by blast
qed

end
