(* ===== verification/Spec2Isabelle.thy ===== *)
theory Spec2Isabelle
  imports Loopback Server Types
begin

text \<open>
  A verification development for faas-provider, the HTTP provider library of OpenFaaS
  extended with an adaptive cache for function flows.

  The program. The package \<open>adaptive\<close> (src/pkg/adaptive) chooses the eviction policy of a
  PaperCache server at run time: the orchestrator (orchestrator.go) wakes up periodically,
  lets the metrics aggregator (metrics.go) collect a snapshot of the cache, asks the pattern
  detector (pattern.go) whether the access pattern has shifted and the trend analyzer
  (trend.go) whether the miss ratio degrades, and if so lets the cost-benefit analyzer
  (cost_benefit.go) compare the measured policies and switches to the best one when its net
  benefit exceeds a threshold. The proxy (src/proxy/proxy.go) records cache accesses with the
  orchestrator while it serves functions and flows. The packages types, auth, httputil, logs
  and the root package hold configuration, middleware and the HTTP server.

  Theories, in the order of their dependencies.
  \<^item> \<open>Prelude\<close>: Go integers and their wrap-around, durations and instants, Go maps with their
    unspecified iteration order, and the interfaces \<open>sliding_window\<close> (a bounded log) and
    \<open>best_scan\<close> (a scan for the best entry).
  \<^item> \<open>Float64\<close>: an executable model of Go's float64: IEEE 754 binary64 values over the
    rationals with round-to-nearest-even for \<open>+ - * /\<close>, square root, \<open>math.Min\<close>, conversions
    and comparisons, and the range calculus \<open>frange lo hi x\<close> that bounds computed values.
    Not represented: fused multiply-add, which a Go compiler may use on some architectures, and
    the sign of zero: the program neither divides by a computed zero of unknown sign nor prints
    one. The numbers of JSON texts, where it does show, keep it (\<open>JNegZero\<close> of \<open>Json\<close>).
  \<^item> \<open>Metrics\<close> (metrics.go): the metrics table and the history of ten snapshots, profiling,
    collection, the selection of the best policy and the monitoring loop. The history
    instantiates \<open>sliding_window\<close> and the selection \<open>best_scan\<close>.
  \<^item> \<open>Trend\<close> (trend.go): linear regression, coefficient of determination, variance and
    prediction. The lemmas bound every intermediate value for at most 4096 samples (the
    code keeps ten snapshots), which excludes NaN and overflow; on miss ratios with few
    enough bits the slope is the correctly rounded slope of the exact least-squares line.
  \<^item> \<open>Pattern\<close> (pattern.go): the sliding window of accesses (an instance of
    \<open>sliding_window\<close>), the recency and frequency scores and the shift detection.
  \<^item> \<open>CostBenefit\<close> (cost_benefit.go): switching cost, potential gain, net benefit, the
    comparison of candidates (an instance of \<open>best_scan\<close>), thresholds and weights.
  \<^item> \<open>Orchestrator\<close> (orchestrator.go): construction, \<open>Initialize\<close>, the evaluation cycle,
    \<open>Start\<close> and \<open>Stop\<close>, and a step relation in which the cycle is interleaved with other
    goroutines and with changes of the world. The lemmas show an invariant of all reachable
    states, that switches are spaced by the stability period and strictly improve, and that
    after \<open>Stop\<close> the loop ends in every infinite run that is fair: the goroutine of the loop is
    scheduled again and again, and the \<open>select\<close>, which draws among the ready channels, does not
    choose the ticker for ever. The atomic cycle of the code is one of the runs.
  \<^item> \<open>Strconv\<close>, \<open>Decimal\<close>, \<open>Rfc3339\<close>: what the code uses of strconv and time.ParseDuration, with
    the positions of errors and the overflow tests of the library; the shortest decimal of a
    float64, which is read back exactly; Go times, and how they are printed and parsed after
    RFC 3339.
  \<^item> \<open>FaasConfig\<close> (types/config.go, types/read_config.go, \<open>buildOrchestratorConfig\<close> of
    proxy.go): parsing of the environment, defaults and the derived orchestrator settings.
  \<^item> \<open>Http\<close> (httputil): headers, a model of the net/http response writer, the locale
    \<open>response_writer\<close> that states what handlers rely on, and the write interceptor, which is
    shown to be such a writer (\<open>intercepted_writer\<close>) and to change nothing for the client.
  \<^item> \<open>NetUrl\<close>, \<open>Encoding\<close>, \<open>Json\<close>: URLs, queries, base64, SHA-1 and encoding/json, each with
    the round trip between its printer and its parser.
  \<^item> \<open>Proxy\<close> (proxy/proxy.go): the HTTP clients, the upstream request and the proxy handler,
    which refines an abstract decision (\<open>decide\<close>, \<open>perform\<close>).
  \<^item> \<open>Flow\<close> (\<open>NewFlowHandler\<close> of proxy.go, types/flows.go, types/cache.go): the flow handler
    with its children, its cache and the orchestrator. The lemmas show the round trip through
    the cache, what the children and the function are sent, when two requests share a key, and
    what the handler does to the orchestrator.
  \<^item> \<open>Loopback\<close>: flows that call flows. The handler is composed with itself through the
    network: a call of an internal child is served by the handler again, nested to a given depth
    (\<open>serveFlow\<close>). \<open>lb_wire\<close> reads an outgoing request at the other end, \<open>lb_broken\<close> is a
    response of a handler that panicked, \<open>lb_deep\<close> is what is beyond the depth; flows without a
    cycle end before it, and their result does not depend on it.
  \<^item> \<open>Auth\<close> (auth): basic authentication and the mounted secrets.
  \<^item> \<open>Logs\<close> (logs): log queries and the streaming handler.
  \<^item> \<open>Codec\<close>: the encoding of structs by encoding/json from the tags of their fields, over the
    texts of \<open>Json\<close>. The locale \<open>json_codec\<close> is the contract of a type (what is encoded is decoded,
    what is decoded is typed), \<open>json_element\<close> that of the elements of slices, maps and pointers,
    \<open>json_struct\<close> that of a struct; \<open>accepts\<close> says which texts a decoder takes.
  \<^item> \<open>Types\<close> (types): the messages of the API as structs with their tags, each an instance of
    \<open>json_struct\<close>, with what it loses on the way.
  \<^item> \<open>Server\<close> (serve.go, metrics.go): route table, protection, settings and instrumentation, and
    the three together for a request to a protected route.

  The environment. The cache server, its client library and the clock are the record \<open>env\<close>
  of state-passing operations over an arbitrary world; what is relied on of the clock is the
  predicate \<open>clock_ok\<close>. The network is \<open>http_do\<close>, the reverse proxy of net/http
  \<open>reverse_serve\<close>, the cache clients are \<open>redis_client\<close> and \<open>paper_client\<close>, the file system
  and the process environment are functions. Errors are values of a datatype per component,
  panics the outcome \<open>Panics\<close>, and iteration orders of maps are arguments.

  Not modelled: log output and the \<open>PrintSummary\<close> family, mutexes (each method of the model
  is the critical section of the code's method), the matching of routes by gorilla/mux and
  the registration in Prometheus (libraries), \<open>Time.String\<close> (a parameter of the \<open>String\<close>
  methods of \<open>Logs\<close>), times spelled with escapes in JSON, the elements that decoding over a longer
  slice finds in its spare capacity, the vendored PaperCache client and the example program
  of logs/example.
\<close>

end
